(* ===== verification/Ipc_Prelude.thy ===== *)
theory Ipc_Prelude
  imports Main "HOL-Library.Word"
begin

text \<open>
  The vocabulary every component of the model shares: the machine types of the wire format
  (\<^verbatim>\<open>uint8_t\<close>, \<^verbatim>\<open>uint16_t\<close>, \<^verbatim>\<open>uint32_t\<close>, \<^verbatim>\<open>uint64_t\<close>), the faults a C++ execution can run into,
  the little-endian object representation of an integer that \<^verbatim>\<open>memcpy\<close> moves in and out of
  byte vectors, \<^verbatim>\<open>std::vector::resize\<close>, and \<^verbatim>\<open>std::string\<close> contents as bytes. The lemmas are
  the round trips and length facts that the packet, codec and serializer proofs rest on.
\<close>

section \<open>Machine types and faults\<close>

type_synonym byte = "8 word"
type_synonym u16 = "16 word"
type_synonym u32 = "32 word"
type_synonym u64 = "64 word"

text \<open>
  What an execution of the C++ code can end in instead of returning: an access outside the
  storage of an object, a call through a null pointer, an access to a deleted object, the use of a
  variable that was never set, a thread locking a non-recursive mutex it already holds, or an
  exception that nothing catches, which ends the process.
\<close>

datatype fault =
  Out_of_bounds | Null_deref | Use_after_free | Uninitialised | Self_deadlock | Uncaught_exception

text \<open>
  Sequencing of computations that may fault: \<open>andThen x f\<close> runs \<open>f\<close> on the result of \<open>x\<close> and
  stops at the first fault.
\<close>

fun andThen :: "fault + 'a \<Rightarrow> ('a \<Rightarrow> fault + 'b) \<Rightarrow> fault + 'b" where
  "andThen (Inl e) f = Inl e"
| "andThen (Inr a) f = f a"

lemma andThen_eq_Inr: "andThen x f = Inr b \<longleftrightarrow> (\<exists>a. x = Inr a \<and> f a = Inr b)"
  by (cases x) auto

lemma andThen_assoc: "andThen (andThen x f) g = andThen x (\<lambda>a. andThen (f a) g)"
  by (cases x) auto

lemma andThen_cong [fundef_cong]:
  "x = y \<Longrightarrow> (\<And>a. y = Inr a \<Longrightarrow> f a = g a) \<Longrightarrow> andThen x f = andThen y g"
  by (cases y) auto

text \<open>Hints shared by the component proofs.\<close>

named_theorems wire_simps \<open>sizes and contents of wire data\<close>
named_theorems model_defs \<open>unfolding equations of the small accessors of the model\<close>

section \<open>Object representations\<close>

text \<open>
  \<open>le_enc n x\<close> is the \<open>n\<close>-byte little-endian object representation of the value \<open>x\<close>, the bytes
  \<^verbatim>\<open>memcpy(p, &x, n)\<close> produces on the (little-endian) hosts the program targets; \<open>le_dec\<close> reads
  it back.
\<close>

fun le_enc :: "nat \<Rightarrow> nat \<Rightarrow> byte list" where
  "le_enc 0 x = []"
| "le_enc (Suc n) x = of_nat (x mod 256) # le_enc n (x div 256)"

fun le_dec :: "byte list \<Rightarrow> nat" where
  "le_dec [] = 0"
| "le_dec (b # bs) = unat b + 256 * le_dec bs"

lemma unat_byte_less [simp]: "unat (b :: byte) < 256"
proof -
  have "unat b < 2 ^ LENGTH(8)" by (rule unsigned_less)
  then show ?thesis by simp
qed

lemma length_le_enc [simp, wire_simps]: "length (le_enc n x) = n"
  by (induction n arbitrary: x) auto

lemma le_enc_eq_Nil [simp]: "le_enc n x = [] \<longleftrightarrow> n = 0"
  by (cases n) auto

lemma le_dec_le_enc: "le_dec (le_enc n x) = x mod 256 ^ n"
  by (induction n arbitrary: x) (simp_all add: unat_of_nat mod_mult2_eq take_bit_eq_mod)

lemma le_dec_less: "le_dec bs < 256 ^ length bs"
proof (induction bs)
  case Nil
  then show ?case by simp
next
  case (Cons b bs)
  have "unat b < 256" by simp
  with Cons.IH have "unat b + 256 * le_dec bs < 256 * 256 ^ length bs" by linarith
  then show ?case by simp
qed

lemma le_enc_le_dec [simp]: "le_enc (length bs) (le_dec bs) = bs"
proof (induction bs)
  case Nil
  then show ?case by simp
next
  case (Cons b bs)
  then show ?case using unat_byte_less [of b] by simp
qed

lemma le_enc_le_dec': "length bs = n \<Longrightarrow> le_enc n (le_dec bs) = bs"
  by auto

lemma le_enc_zero [simp]: "le_enc n 0 = replicate n 0"
  by (induction n) simp_all

lemma le_dec_replicate_zero [simp]: "le_dec (replicate n 0) = 0"
  by (induction n) simp_all

lemma le_enc_numeral:
  "le_enc (numeral k) x = of_nat (x mod 256) # le_enc (pred_numeral k) (x div 256)"
  by (simp only: numeral_eq_Suc [of k] le_enc.simps)

lemma replicate_numeral: "replicate (numeral k) x = x # replicate (pred_numeral k) x"
  by (simp only: numeral_eq_Suc [of k] replicate_Suc)

text \<open>Unfolding of fixed-size representations, for evaluation on concrete data.\<close>

lemmas eval_bytes = le_enc_numeral replicate_numeral

text \<open>Integers of the program's widths.\<close>

abbreviation bytes_u16 :: "u16 \<Rightarrow> byte list" where "bytes_u16 w \<equiv> le_enc 2 (unat w)"
abbreviation bytes_u32 :: "u32 \<Rightarrow> byte list" where "bytes_u32 w \<equiv> le_enc 4 (unat w)"
abbreviation bytes_u64 :: "u64 \<Rightarrow> byte list" where "bytes_u64 w \<equiv> le_enc 8 (unat w)"
abbreviation u16_of :: "byte list \<Rightarrow> u16" where "u16_of bs \<equiv> of_nat (le_dec bs)"
abbreviation u32_of :: "byte list \<Rightarrow> u32" where "u32_of bs \<equiv> of_nat (le_dec bs)"
abbreviation u64_of :: "byte list \<Rightarrow> u64" where "u64_of bs \<equiv> of_nat (le_dec bs)"

lemma word_le_dec_enc:
  assumes "LENGTH('a::len) = 8 * n"
  shows "(of_nat (le_dec (le_enc n (unat (w :: 'a word)))) :: 'a word) = w"
proof -
  have "unat w < 2 ^ LENGTH('a)" by (rule unsigned_less)
  then have "unat w < 256 ^ n" by (simp add: assms power_mult)
  then show ?thesis by (simp add: le_dec_le_enc)
qed

lemma u16_of_bytes [simp, wire_simps]: "u16_of (bytes_u16 w) = w"
  by (rule word_le_dec_enc) simp

lemma u32_of_bytes [simp, wire_simps]: "u32_of (bytes_u32 w) = w"
  by (rule word_le_dec_enc) simp

lemma u64_of_bytes [simp, wire_simps]: "u64_of (bytes_u64 w) = w"
  by (rule word_le_dec_enc) simp

lemma unat_word_le_dec:
  assumes "length bs = n" and "LENGTH('a::len) = 8 * n"
  shows "unat (of_nat (le_dec bs) :: 'a word) = le_dec bs"
proof -
  have "le_dec bs < 2 ^ LENGTH('a)"
    using le_dec_less [of bs] assms by (simp add: power_mult)
  then show ?thesis by (simp add: unat_of_nat take_bit_eq_mod)
qed

lemma unat_u32_of: "length bs = 4 \<Longrightarrow> unat (u32_of bs) = le_dec bs"
  by (rule unat_word_le_dec) simp_all

lemma unat_u64_of: "length bs = 8 \<Longrightarrow> unat (u64_of bs) = le_dec bs"
  by (rule unat_word_le_dec) simp_all

section \<open>Vectors and strings\<close>

text \<open>\<^verbatim>\<open>std::vector<uint8_t>::resize(n)\<close>: cut, or extend with zero bytes.\<close>

definition vec_resize :: "nat \<Rightarrow> byte list \<Rightarrow> byte list" where
  "vec_resize n xs = take n xs @ replicate (n - length xs) 0"

lemma length_vec_resize [simp, wire_simps]: "length (vec_resize n xs) = n"
  by (simp add: vec_resize_def)

lemma vec_resize_same [simp]: "vec_resize (length xs) xs = xs"
  by (simp add: vec_resize_def)

lemma vec_resize_Nil [simp]: "vec_resize n [] = replicate n 0"
  by (simp add: vec_resize_def)

text \<open>\<^verbatim>\<open>memcpy\<close> of \<open>src\<close> into a vector at \<open>pos\<close>; callers keep \<open>pos + length src\<close> within the vector.\<close>

definition memcpy_at :: "nat \<Rightarrow> byte list \<Rightarrow> byte list \<Rightarrow> byte list" where
  "memcpy_at pos src xs = take pos xs @ src @ drop (pos + length src) xs"

lemma length_memcpy_at [simp]:
  "pos + length src \<le> length xs \<Longrightarrow> length (memcpy_at pos src xs) = length xs"
  by (simp add: memcpy_at_def)

lemma memcpy_at_append: "memcpy_at (length xs) src (xs @ replicate (length src) z) = xs @ src"
  by (simp add: memcpy_at_def)

text \<open>The characters of a \<^verbatim>\<open>std::string\<close> are its bytes.\<close>

definition str_bytes :: "string \<Rightarrow> byte list" where
  "str_bytes s = map (\<lambda>c. of_nat (of_char c)) s"

definition bytes_str :: "byte list \<Rightarrow> string" where
  "bytes_str bs = map (\<lambda>b. char_of (unat b)) bs"

lemma length_str_bytes [simp, wire_simps]: "length (str_bytes s) = length s"
  by (simp add: str_bytes_def)

lemma length_bytes_str [simp, wire_simps]: "length (bytes_str bs) = length bs"
  by (simp add: bytes_str_def)

lemma of_char_less_256: "(of_char c :: nat) < 256"
  using nat_of_char_less_256 .

lemma bytes_str_str_bytes [simp, wire_simps]: "bytes_str (str_bytes s) = s"
  by (simp add: bytes_str_def str_bytes_def unat_of_nat take_bit_eq_mod of_char_less_256
      map_idI)

lemma str_bytes_bytes_str [simp, wire_simps]: "str_bytes (bytes_str bs) = bs"
  by (simp add: bytes_str_def str_bytes_def map_idI)

lemma str_bytes_Nil [simp]: "str_bytes [] = []"
  by (simp add: str_bytes_def)

lemma str_bytes_append [simp]: "str_bytes (s @ t) = str_bytes s @ str_bytes t"
  by (simp add: str_bytes_def)

end
