(* ===== verification/Ipc_Package.thy ===== *)
theory Ipc_Package
  imports Ipc_Prelude
begin

text \<open>
  The packet of the protocol: class \<^verbatim>\<open>package\<close> of \<^verbatim>\<open>package_stream_base.h\<close> and the string helpers
  of \<^verbatim>\<open>package.cpp\<close>. A packet is the byte vector the class inherits privately; its members \<^verbatim>\<open>nid\<close>
  and \<^verbatim>\<open>cmd\<close> point at offsets 0 and 8 of that vector, so reading or writing through them is reading
  or writing bytes 0-7 and byte 8. A packet has its header when the vector holds at least the nine
  header bytes (\<open>has_header\<close>); every packet that a constructor made has. Code that can reach a
  shorter vector tests \<open>has_header\<close> in the model and faults where the C++ reads past the end.

  The lemmas give the get/set laws, what copying does to the bytes, the round trips of values and
  strings, and the abstract view (node id, command, payload) that the protocol layer reasons with.
\<close>

section \<open>Commands\<close>

type_synonym nid = u64
type_synonym cmd = byte

text \<open>The enumeration \<^verbatim>\<open>CMD\<close>; its values are the wire values.\<close>

definition CMD_AT :: cmd where "CMD_AT = 1"
definition CMD_AT_SUCCESS :: cmd where "CMD_AT_SUCCESS = 2"
definition CMD_AT_ERROR :: cmd where "CMD_AT_ERROR = 3"
definition CMD_LS :: cmd where "CMD_LS = 4"
definition CMD_LS_SUCCESS :: cmd where "CMD_LS_SUCCESS = 5"
definition CMD_LS_ERROR :: cmd where "CMD_LS_ERROR = 6"
definition CMD_PROP_GET_VALUE :: cmd where "CMD_PROP_GET_VALUE = 8"
definition CMD_PROP_GET_VALUE_ERROR :: cmd where "CMD_PROP_GET_VALUE_ERROR = 9"
definition CMD_PROP_GET_VALUE_SUCCESS :: cmd where "CMD_PROP_GET_VALUE_SUCCESS = 10"
definition CMD_SUBSCRIBE :: cmd where "CMD_SUBSCRIBE = 11"
definition CMD_UNSUBSCRIBE :: cmd where "CMD_UNSUBSCRIBE = 12"
definition CMD_PROP_VALUE_UPDATED :: cmd where "CMD_PROP_VALUE_UPDATED = 13"
definition CMD_PROP_SET_VALUE :: cmd where "CMD_PROP_SET_VALUE = 14"
definition CMD_SUCCESS :: cmd where "CMD_SUCCESS = CMD_AT_SUCCESS"
definition CMD_ERROR :: cmd where "CMD_ERROR = CMD_AT_ERROR"
definition CMD_NODE_ATTACH :: cmd where "CMD_NODE_ATTACH = 15"
definition CMD_NODE_DETACH :: cmd where "CMD_NODE_DETACH = 16"
definition CMD_GENERATE_NID :: cmd where "CMD_GENERATE_NID = 17"
definition CMD_CHILD_ADDED :: cmd where "CMD_CHILD_ADDED = 18"
definition CMD_SUBSCRIBE_ADD_REMOVE :: cmd where "CMD_SUBSCRIBE_ADD_REMOVE = 19"

lemmas cmd_defs =
  CMD_AT_def CMD_AT_SUCCESS_def CMD_AT_ERROR_def CMD_LS_def CMD_LS_SUCCESS_def CMD_LS_ERROR_def
  CMD_PROP_GET_VALUE_def CMD_PROP_GET_VALUE_ERROR_def CMD_PROP_GET_VALUE_SUCCESS_def
  CMD_SUBSCRIBE_def CMD_UNSUBSCRIBE_def CMD_PROP_VALUE_UPDATED_def CMD_PROP_SET_VALUE_def
  CMD_SUCCESS_def CMD_ERROR_def CMD_NODE_ATTACH_def CMD_NODE_DETACH_def CMD_GENERATE_NID_def
  CMD_CHILD_ADDED_def CMD_SUBSCRIBE_ADD_REMOVE_def

section \<open>Class package\<close>

record package =
  vec :: "byte list"

text \<open>\<^verbatim>\<open>reset_header\<close> always computes \<^verbatim>\<open>header_size\<close> as the distance from \<^verbatim>\<open>nid\<close> to the byte after
  \<^verbatim>\<open>cmd\<close>: \<^verbatim>\<open>sizeof(nid_t) + sizeof(cmd_t)\<close>.\<close>

definition header_size :: nat where
  "header_size = 9"

definition has_header :: "package \<Rightarrow> bool" where
  "has_header p \<longleftrightarrow> header_size \<le> length (vec p)"

definition extend_by :: "nat \<Rightarrow> package \<Rightarrow> package" where
  "extend_by amount p = p\<lparr>vec := vec_resize (length (vec p) + amount) (vec p)\<rparr>"

definition package_init :: "package \<Rightarrow> package" where
  "package_init p = extend_by 1 (extend_by 8 p)"

definition package_new :: package where
  "package_new = package_init \<lparr>vec = []\<rparr>"

definition get_nid :: "package \<Rightarrow> nid" where
  "get_nid p = u64_of (take 8 (vec p))"

definition get_cmd :: "package \<Rightarrow> cmd" where
  "get_cmd p = vec p ! 8"

definition set_nid :: "nid \<Rightarrow> package \<Rightarrow> package" where
  "set_nid n p = p\<lparr>vec := memcpy_at 0 (bytes_u64 n) (vec p)\<rparr>"

definition set_cmd :: "cmd \<Rightarrow> package \<Rightarrow> package" where
  "set_cmd c p = p\<lparr>vec := memcpy_at 8 [c] (vec p)\<rparr>"

text \<open>The copy constructor: the bytes of the original, then \<^verbatim>\<open>init()\<close> on top of them.\<close>

definition package_copy :: "package \<Rightarrow> package" where
  "package_copy p = set_nid (get_nid p) (set_cmd (get_cmd p) (package_init \<lparr>vec = vec p\<rparr>))"

text \<open>The assignment operator takes its argument by value, so it works on a copy.\<close>

definition package_assign :: "package \<Rightarrow> package \<Rightarrow> package" where
  "package_assign self arg =
     (let op = package_copy arg;
          self = self\<lparr>vec := vec_resize (length (vec op)) (vec self)\<rparr>;
          self = self\<lparr>vec := memcpy_at 0 (vec op) (vec self)\<rparr>
      in set_cmd (get_cmd op) (set_nid (get_nid op) self))"

definition get_resp :: "package \<Rightarrow> package" where
  "get_resp p = set_nid (get_nid p) (set_cmd (get_cmd p) package_new)"

text \<open>
  The difference of two \<^verbatim>\<open>size_t\<close>: below nine bytes (a frame a peer sent short) it wraps.
\<close>

definition data_size :: "package \<Rightarrow> nat" where
  "data_size p =
     (if has_header p then length (vec p) - header_size
      else 2 ^ 64 - (header_size - length (vec p)))"

text \<open>
  \<^verbatim>\<open>append(const void *data, int sz)\<close>. The callers' sizes pass through an \<^verbatim>\<open>int\<close>: it keeps the low
  32 bits, and when these read as a negative number \<^verbatim>\<open>memcpy\<close> gets it back as an enormous
  \<^verbatim>\<open>size_t\<close>.
\<close>

definition append_data :: "byte list \<Rightarrow> package \<Rightarrow> fault + package" where
  "append_data d p =
     (let sz = (of_nat (length d) :: u32)
      in if sint sz < 0 then Inl Out_of_bounds
         else let pos = length (vec p); p = extend_by (unat sz) p
              in Inr (p\<lparr>vec := memcpy_at pos (take (unat sz) d) (vec p)\<rparr>))"

text \<open>\<^verbatim>\<open>append<type>\<close> for the types the program appends: the same, with a size of 1, 4 or 8.\<close>

definition append_val :: "byte list \<Rightarrow> package \<Rightarrow> package" where
  "append_val d p =
     (let pos = length (vec p); p = extend_by (length d) p
      in p\<lparr>vec := memcpy_at pos d (vec p)\<rparr>)"

definition append_u32 :: "u32 \<Rightarrow> package \<Rightarrow> package" where
  "append_u32 w = append_val (bytes_u32 w)"

definition append_nid :: "nid \<Rightarrow> package \<Rightarrow> package" where
  "append_nid w = append_val (bytes_u64 w)"

definition append_bool :: "bool \<Rightarrow> package \<Rightarrow> package" where
  "append_bool b = append_val [if b then 1 else 0]"

text \<open>
  \<^verbatim>\<open>read(pos, dest, sz)\<close>. \<^verbatim>\<open>pos\<close> and \<^verbatim>\<open>sz\<close> are \<^verbatim>\<open>size_t\<close>, so both additions wrap around at
  64 bits. \<open>Inr None\<close> is the result \<^verbatim>\<open>false\<close>; a check that passes although the range is not in
  the vector is a \<^verbatim>\<open>memcpy\<close> out of bounds.
\<close>

definition package_read :: "package \<Rightarrow> u64 \<Rightarrow> u64 \<Rightarrow> fault + byte list option" where
  "package_read p pos sz =
     (let pos = pos + of_nat header_size
      in if pos + sz > of_nat (length (vec p)) then Inr None
         else if unat pos + unat sz \<le> length (vec p)
           then Inr (Some (take (unat sz) (drop (unat pos) (vec p))))
         else Inl Out_of_bounds)"

text \<open>\<^verbatim>\<open>read<type>(pos)\<close>: the value, or \<^verbatim>\<open>type()\<close> when the read fails.\<close>

definition read_u32 :: "package \<Rightarrow> u64 \<Rightarrow> fault + u32" where
  "read_u32 p pos = andThen (package_read p pos 4)
     (\<lambda>r. Inr (case r of None \<Rightarrow> 0 | Some bs \<Rightarrow> u32_of bs))"

definition read_nid :: "package \<Rightarrow> u64 \<Rightarrow> fault + nid" where
  "read_nid p pos = andThen (package_read p pos 8)
     (\<lambda>r. Inr (case r of None \<Rightarrow> 0 | Some bs \<Rightarrow> u64_of bs))"

definition read_bool :: "package \<Rightarrow> u64 \<Rightarrow> fault + bool" where
  "read_bool p pos = andThen (package_read p pos 1)
     (\<lambda>r. Inr (case r of None \<Rightarrow> False | Some bs \<Rightarrow> hd bs \<noteq> 0))"

section \<open>Strings in packets\<close>

definition append_string :: "string \<Rightarrow> package \<Rightarrow> fault + package" where
  "append_string s p = append_data (str_bytes s) (append_u32 (of_nat (length s)) p)"

text \<open>
  A position in a packet is an \<^verbatim>\<open>int\<close>; as an argument of \<^verbatim>\<open>read\<close> it is sign-extended to \<^verbatim>\<open>size_t\<close>.
\<close>

definition size_of_int :: "u32 \<Rightarrow> u64" where
  "size_of_int pos = scast pos"

text \<open>
  \<^verbatim>\<open>read_string(pack, s, pos)\<close>: the new contents of \<open>s\<close> and the position after the string. The
  result of the second read is not looked at: when it fails, the resized string stays as it is.
\<close>

definition read_string :: "package \<Rightarrow> string \<Rightarrow> u32 \<Rightarrow> fault + (string \<times> u32)" where
  "read_string p s pos =
     andThen (read_u32 p (size_of_int pos)) (\<lambda>sz.
       let s = vec_resize (unat sz) (str_bytes s);
           pos = pos + 4
       in andThen (package_read p (size_of_int pos) (of_nat (length s))) (\<lambda>r.
            let s = (case r of None \<Rightarrow> s | Some bs \<Rightarrow> bs)
            in Inr (bytes_str s, pos + of_nat (length s))))"

section \<open>The abstract view of a packet\<close>

text \<open>
  A packet with its header is exactly its node id, its command and its payload:
  \<open>mk_package\<close> and the three projections are inverse to each other, so the proofs about the
  protocol compute with \<open>mk_package\<close> terms only.
\<close>

definition payload :: "package \<Rightarrow> byte list" where
  "payload p = drop header_size (vec p)"

definition mk_package :: "nid \<Rightarrow> cmd \<Rightarrow> byte list \<Rightarrow> package" where
  "mk_package n c pl = \<lparr>vec = bytes_u64 n @ c # pl\<rparr>"

lemma vec_mk_package: "vec (mk_package n c pl) = bytes_u64 n @ c # pl"
  by (simp add: mk_package_def)

lemma length_vec_mk_package [simp, wire_simps]: "length (vec (mk_package n c pl)) = 9 + length pl"
  by (simp add: mk_package_def)

lemma has_header_mk_package [simp]: "has_header (mk_package n c pl)"
  by (simp add: has_header_def header_size_def)

lemma get_nid_mk_package [simp]: "get_nid (mk_package n c pl) = n"
  by (simp add: get_nid_def mk_package_def)

lemma get_cmd_mk_package [simp]: "get_cmd (mk_package n c pl) = c"
  by (simp add: get_cmd_def mk_package_def nth_append)

lemma payload_mk_package [simp]: "payload (mk_package n c pl) = pl"
  by (simp add: payload_def header_size_def mk_package_def)

lemma data_size_mk_package [simp]: "data_size (mk_package n c pl) = length pl"
  by (simp add: data_size_def) (simp add: header_size_def mk_package_def)

lemma mk_package_eq_iff [simp]:
  "mk_package n c pl = mk_package n' c' pl' \<longleftrightarrow> n = n' \<and> c = c' \<and> pl = pl'"
  by (metis get_nid_mk_package get_cmd_mk_package payload_mk_package)

lemma mk_package_collapse:
  assumes "has_header p"
  shows "mk_package (get_nid p) (get_cmd p) (payload p) = p"
proof -
  from assms have len: "9 \<le> length (vec p)" by (simp add: has_header_def header_size_def)
  then have "vec p = take 8 (vec p) @ vec p ! 8 # drop 9 (vec p)"
    by (metis Suc_le_eq eval_nat_numeral(3) id_take_nth_drop)
  moreover have "bytes_u64 (get_nid p) = take 8 (vec p)"
    using len by (simp add: get_nid_def unat_u64_of le_enc_le_dec')
  ultimately show ?thesis
    by (simp add: mk_package_def get_cmd_def payload_def header_size_def)
qed

lemma has_headerE:
  assumes "has_header p"
  obtains n c pl where "p = mk_package n c pl"
  using mk_package_collapse [OF assms] by metis

lemma replicate_8_1: "replicate 8 x @ [x] = replicate 9 x"
  by (simp add: eval_nat_numeral)

lemma package_new_mk: "package_new = mk_package 0 0 []"
  by (simp add: package_new_def package_init_def extend_by_def mk_package_def vec_resize_def
      eval_nat_numeral)

lemma set_nid_mk [simp]: "set_nid n' (mk_package n c pl) = mk_package n' c pl"
  by (simp add: set_nid_def mk_package_def memcpy_at_def)

lemma set_cmd_mk [simp]: "set_cmd c' (mk_package n c pl) = mk_package n c' pl"
  by (simp add: set_cmd_def mk_package_def memcpy_at_def)

lemma append_val_mk [simp]: "append_val d (mk_package n c pl) = mk_package n c (pl @ d)"
  by (simp add: append_val_def extend_by_def mk_package_def memcpy_at_def vec_resize_def)

lemma sint_of_nat_u32: "k < 2 ^ 31 \<Longrightarrow> sint (of_nat k :: u32) = int k"
  by (simp add: signed_of_nat signed_take_bit_int_eq_self)

lemma unat_of_nat_u32: "k < 2 ^ 32 \<Longrightarrow> unat (of_nat k :: u32) = k"
  by (simp add: unat_of_nat take_bit_eq_mod)

lemma append_data_mk [simp]:
  "length d < 2 ^ 31 \<Longrightarrow> append_data d (mk_package n c pl) = Inr (mk_package n c (pl @ d))"
  by (simp add: append_data_def sint_of_nat_u32 unat_of_nat_u32)
    (simp add: extend_by_def mk_package_def memcpy_at_def vec_resize_def)

lemma append_u32_mk [simp]: "append_u32 w (mk_package n c pl) = mk_package n c (pl @ bytes_u32 w)"
  by (simp add: append_u32_def)

lemma append_nid_mk [simp]: "append_nid w (mk_package n c pl) = mk_package n c (pl @ bytes_u64 w)"
  by (simp add: append_nid_def)

lemma append_bool_mk [simp]:
  "append_bool b (mk_package n c pl) = mk_package n c (pl @ [if b then 1 else 0])"
  by (simp add: append_bool_def)

lemma get_resp_mk [simp]: "get_resp (mk_package n c pl) = mk_package n c []"
  by (simp add: get_resp_def package_new_mk)

lemma package_init_mk: "package_init (mk_package n c pl) = mk_package n c (pl @ replicate 9 0)"
  by (simp add: package_init_def extend_by_def mk_package_def vec_resize_def
      replicate_8_1)

lemma package_copy_mk [simp]:
  "package_copy (mk_package n c pl) = mk_package n c (pl @ replicate 9 0)"
proof -
  have "\<lparr>vec = vec (mk_package n c pl)\<rparr> = mk_package n c pl" by (simp add: mk_package_def)
  then show ?thesis by (simp only: package_copy_def package_init_mk) simp
qed

lemma package_assign_mk [simp]:
  "package_assign q (mk_package n c pl) = mk_package n c (pl @ replicate 9 0)"
proof -
  have "memcpy_at 0 xs (vec_resize (length xs) ys) = xs" for xs ys :: "byte list"
    by (simp add: memcpy_at_def)
  moreover have "\<lparr>vec = vec (mk_package n c xs)\<rparr> = mk_package n c xs" for xs
    by (simp add: mk_package_def)
  moreover have "q\<lparr>vec := xs\<rparr> = \<lparr>vec = xs\<rparr>" for xs by simp
  ultimately show ?thesis
    by (simp only: package_assign_def Let_def package_copy_mk package.update_convs
        get_nid_mk_package get_cmd_mk_package package.select_convs) simp
qed

section \<open>Reading\<close>

lemma package_read_mk:
  assumes "m + k + 9 < 2 ^ 64" and "length pl + 9 < 2 ^ 64"
  shows "package_read (mk_package n c pl) (of_nat m) (of_nat k)
           = Inr (if m + k \<le> length pl then Some (take k (drop m pl)) else None)"
proof -
  have small: "unat (of_nat x :: u64) = x" if "x < 2 ^ 64" for x
    using that by (simp add: unat_of_nat take_bit_eq_mod)
  have pos: "(of_nat m + of_nat header_size :: u64) = of_nat (m + 9)"
    by (simp add: header_size_def)
  have sum: "(of_nat (m + 9) + of_nat k :: u64) = of_nat (m + 9 + k)"
    by simp
  have len: "length (vec (mk_package n c pl)) = length pl + 9" by simp
  have less: "((of_nat (length pl + 9) :: u64) < of_nat (m + 9 + k)) = (length pl < m + k)"
    using assms by (simp only: word_less_nat_alt small) arith
  have "unat (of_nat (m + 9) :: u64) = m + 9" "unat (of_nat k :: u64) = k"
    using assms by (simp_all only: small)
  moreover have "drop (m + 9) (vec (mk_package n c pl)) = drop m pl"
    by (simp add: mk_package_def)
  ultimately show ?thesis
    unfolding package_read_def Let_def pos sum len less by simp
qed

text \<open>
  A payload of less than 2 GiB is one whose positions fit the \<^verbatim>\<open>int\<close> that \<^verbatim>\<open>read_string\<close> counts
  them with.
\<close>

abbreviation fits_int :: "'a list \<Rightarrow> bool" where
  "fits_int pl \<equiv> length pl < 2 ^ 31"

lemma size_of_int_of_nat:
  assumes "m < 2 ^ 31"
  shows "size_of_int (of_nat m) = of_nat m"
proof -
  have "sint (of_nat m :: u32) = int m" using assms by (rule sint_of_nat_u32)
  then have "(of_int (sint (of_nat m :: u32)) :: u64) = of_nat m" by simp
  then show ?thesis by (simp only: size_of_int_def of_int_sint)
qed

lemma size_of_int_zero [simp]: "size_of_int 0 = 0"
  using size_of_int_of_nat [of 0] by simp

text \<open>Reading a value that lies between \<open>pre\<close> and \<open>post\<close> in the payload.\<close>

lemma package_read_at:
  assumes "fits_int (pre @ d @ post)" and "length d = k"
  shows "package_read (mk_package n c (pre @ d @ post)) (of_nat (length pre)) (of_nat k)
           = Inr (Some d)"
  using assms package_read_mk [of "length pre" k "pre @ d @ post" n c] by auto

lemma read_u32_at:
  assumes "fits_int (pre @ bytes_u32 w @ post)"
  shows "read_u32 (mk_package n c (pre @ bytes_u32 w @ post)) (of_nat (length pre)) = Inr w"
  using package_read_at [OF assms, of 4 n c] by (simp add: read_u32_def)

lemma read_nid_at:
  assumes "fits_int (pre @ bytes_u64 w @ post)"
  shows "read_nid (mk_package n c (pre @ bytes_u64 w @ post)) (of_nat (length pre)) = Inr w"
  using package_read_at [OF assms, of 8 n c] by (simp add: read_nid_def)

lemma read_bool_at:
  assumes "fits_int (pre @ [if b then 1 else 0] @ post)"
  shows "read_bool (mk_package n c (pre @ [if b then 1 else 0] @ post)) (of_nat (length pre)) = Inr b"
  using package_read_at [OF assms, of 1 n c] by (simp add: read_bool_def)

lemma read_u32_short:
  assumes "length pl < m + 4" and "m + 13 < 2 ^ 64" and "length pl + 9 < 2 ^ 64"
  shows "read_u32 (mk_package n c pl) (of_nat m) = Inr 0"
  using package_read_mk [of m 4 pl n c] assms by (simp add: read_u32_def)

text \<open>The bytes \<^verbatim>\<open>append_string\<close> adds.\<close>

definition wire_string :: "string \<Rightarrow> byte list" where
  "wire_string s = bytes_u32 (of_nat (length s)) @ str_bytes s"

lemma length_wire_string [simp, wire_simps]: "length (wire_string s) = 4 + length s"
  by (simp add: wire_string_def)

lemma append_string_mk:
  "fits_int s \<Longrightarrow> append_string s (mk_package n c pl) = Inr (mk_package n c (pl @ wire_string s))"
  by (simp add: append_string_def wire_string_def)

lemma read_string_at:
  assumes "fits_int (pre @ wire_string s @ post)"
  shows "read_string (mk_package n c (pre @ wire_string s @ post)) s0 (of_nat (length pre))
           = Inr (s, of_nat (length (pre @ wire_string s)))"
proof -
  let ?p = "mk_package n c (pre @ wire_string s @ post)"
  have len: "length pre + 4 + length s + length post < 2 ^ 31" using assms by simp
  have sz: "read_u32 ?p (of_nat (length pre)) = Inr (of_nat (length s))"
    using read_u32_at [of pre "of_nat (length s)" "str_bytes s @ post" n c] assms
    by (simp add: wire_string_def)
  have data: "package_read ?p (of_nat (length pre + 4)) (of_nat (length s)) = Inr (Some (str_bytes s))"
    using package_read_at
        [of "pre @ bytes_u32 (of_nat (length s))" "str_bytes s" post "length s" n c] assms
    by (simp add: wire_string_def)
  have pos: "size_of_int (of_nat (length pre)) = of_nat (length pre)"
    "size_of_int (of_nat (length pre + 4)) = of_nat (length pre + 4)"
    using len by (simp_all only: size_of_int_of_nat)
  have "unat (of_nat (length s) :: u32) = length s"
    using len by (intro unat_of_nat_u32) simp
  then have lenv: "length (vec_resize (unat (of_nat (length s) :: u32)) (str_bytes s0)) = length s"
    by simp
  have add: "(of_nat (length pre) + 4 :: u32) = of_nat (length pre + 4)" by simp
  show ?thesis
    unfolding read_string_def pos(1) sz andThen.simps Let_def lenv add pos(2) data
    by simp
qed

section \<open>Properties\<close>

lemma vec_eq_mk: "has_header p \<Longrightarrow> vec p = bytes_u64 (get_nid p) @ get_cmd p # payload p"
  using mk_package_collapse [of p] by (metis vec_mk_package)

text \<open>
  Copying a packet that has its header, by the copy constructor or by assignment, keeps the
  node id and the command but does not keep the bytes: both append nine zero bytes, because the
  copy constructor runs \<^verbatim>\<open>init()\<close> on the already copied vector.
\<close>

theorem package_copy_grows:
  assumes "has_header p"
  shows "vec (package_copy p) = vec p @ replicate 9 0
       \<and> vec (package_assign q p) = vec p @ replicate 9 0
       \<and> get_nid (package_copy p) = get_nid p \<and> get_cmd (package_copy p) = get_cmd p
       \<and> get_nid (package_assign q p) = get_nid p \<and> get_cmd (package_assign q p) = get_cmd p"
  using assms by (elim has_headerE) (simp add: vec_mk_package)

theorem package_copy_grows_witness:
  "vec (package_copy (set_cmd CMD_LS package_new)) = replicate 8 0 @ [4] @ replicate 9 0"
  using package_copy_grows [of "set_cmd CMD_LS package_new" package_new]
  by (simp add: package_new_mk vec_mk_package cmd_defs)

text \<open>
  C39: A string appended to a packet reads back, from the position where the payload ended, as the
  same string, with the position left at the new end of the payload; the header and the payload
  before the string are untouched. It holds up to payloads of 2 GiB.
\<close>

theorem append_string_read_string:
  assumes "has_header p" and "data_size p + 4 + length s < 2 ^ 31"
  shows "\<exists>p'. append_string s p = Inr p'
           \<and> read_string p' s0 (of_nat (data_size p)) = Inr (s, of_nat (data_size p'))
           \<and> get_nid p' = get_nid p \<and> get_cmd p' = get_cmd p
           \<and> take (data_size p) (payload p') = payload p"
proof -
  from assms(1) obtain n c pl where p: "p = mk_package n c pl" by (rule has_headerE)
  have "fits_int (pl @ wire_string s @ [])" "fits_int s" using assms(2) by (simp_all add: p)
  then show ?thesis
    using read_string_at [of pl s "[]" n c s0] by (simp add: p append_string_mk)
qed

theorem append_string_read_string_witness:
  "\<exists>p'. append_string ''tree'' (set_cmd CMD_AT package_new) = Inr p'
      \<and> read_string p' [] 0 = Inr (''tree'', of_nat (data_size p'))"
  using append_string_read_string [of "set_cmd CMD_AT package_new" "''tree''" "[]"]
  by (auto simp: package_new_mk)

text \<open>
  C40: Where the two \<^verbatim>\<open>size_t\<close> additions do not wrap around, \<^verbatim>\<open>read\<close> is memory safe and total:
  it returns the requested bytes of the payload exactly when they are all there, and \<^verbatim>\<open>false\<close>
  otherwise.
\<close>

theorem package_read_safe:
  assumes "has_header p" and "length (vec p) < 2 ^ 64"
    and "unat pos + unat sz + header_size < 2 ^ 64"
  shows "package_read p pos sz
       = Inr (if unat pos + unat sz \<le> data_size p
              then Some (take (unat sz) (drop (unat pos) (payload p))) else None)"
proof -
  from assms(1) obtain n c pl where p: "p = mk_package n c pl" by (rule has_headerE)
  show ?thesis
    using package_read_mk [of "unat pos" "unat sz" pl n c] assms
    by (simp add: p header_size_def)
qed

theorem package_read_safe_witness:
  "package_read (append_u32 7 package_new) 2 2 = Inr (Some (replicate 2 0))
   \<and> package_read (append_u32 7 package_new) 2 3 = Inr None"
  using package_read_safe [of "append_u32 7 package_new" 2 2]
    package_read_safe [of "append_u32 7 package_new" 2 3]
  by (simp add: package_new_mk header_size_def le_enc_numeral)

text \<open>
  A length field in a packet can drive \<^verbatim>\<open>read_string\<close> out of bounds. A first string that
  declares 4294967282 bytes moves the \<^verbatim>\<open>int\<close> position to -10; the bounds check of the next read
  wraps around, passes, and \<^verbatim>\<open>memcpy\<close> reads from before the vector.
\<close>

theorem read_string_wraps_out_of_bounds:
  "\<exists>s. read_string (mk_package n c (bytes_u32 4294967282)) [] 0 = Inr (s, -10)
     \<and> read_string (mk_package n c (bytes_u32 4294967282)) t (-10) = Inl Out_of_bounds"
proof -
  let ?p = "mk_package n c (bytes_u32 4294967282)"
  have sz: "read_u32 ?p 0 = Inr 4294967282"
    using read_u32_at [of "[]" 4294967282 "[]" n c] by simp
  have pos4: "size_of_int 4 = 4" using size_of_int_of_nat [of 4] by simp
  have none: "package_read ?p 4 4294967282 = Inr None"
    using package_read_mk [of 4 4294967282 "bytes_u32 4294967282" n c] by simp
  have neg: "size_of_int (-10) = -10" by (simp add: size_of_int_def)
  have oob: "read_u32 ?p (-10) = Inl Out_of_bounds"
    by (simp add: read_u32_def package_read_def header_size_def Let_def
        unat_eq_nat_uint uint_word_ariths(4))
  have "read_string ?p [] 0 = Inr (bytes_str (replicate 4294967282 0), -10)"
    unfolding read_string_def size_of_int_zero sz andThen.simps Let_def
    by (simp add: pos4 none [simplified])
  moreover have "read_string ?p t (-10) = Inl Out_of_bounds"
    unfolding read_string_def neg oob by simp
  ultimately show ?thesis by blast
qed

text \<open>
  A string whose declared length runs past the end of the packet is not an error for
  \<^verbatim>\<open>read_string\<close>: the caller gets as many NUL characters as were declared.
\<close>

theorem read_string_truncated:
  assumes "length pl < 2 ^ 31" and "k < 2 ^ 31" and "length pl < k"
  shows "read_string (mk_package n c (bytes_u32 (of_nat k) @ pl)) [] 0
           = Inr (replicate k (CHR 0x00), of_nat (4 + k))"
proof -
  let ?p = "mk_package n c (bytes_u32 (of_nat k) @ pl)"
  have k: "unat (of_nat k :: u32) = k" using assms by (intro unat_of_nat_u32) simp
  have sz: "read_u32 ?p 0 = Inr (of_nat k)"
    using package_read_mk [of 0 4 "bytes_u32 (of_nat k) @ pl" n c] assms by (simp add: read_u32_def)
  have pos: "size_of_int 4 = 4" using size_of_int_of_nat [of 4] by simp
  have none: "package_read ?p 4 (of_nat k) = Inr None"
    using package_read_mk [of 4 k "bytes_u32 (of_nat k) @ pl" n c] assms by simp
  have "bytes_str (replicate k 0) = replicate k (CHR 0x00)"
    by (simp add: bytes_str_def char_of_def)
  moreover have "length (vec_resize (unat (of_nat k :: u32)) (str_bytes [])) = k"
    by (simp add: k)
  ultimately show ?thesis
    unfolding read_string_def size_of_int_zero sz andThen.simps Let_def
    by (simp add: k pos none [unfolded k])
qed

theorem read_string_truncated_witness:
  "read_string (mk_package 0 CMD_AT (bytes_u32 3 @ [104, 105])) [] 0
     = Inr ([CHR 0x00, CHR 0x00, CHR 0x00], 7)"
  using read_string_truncated [of "[104, 105]" 3 0 CMD_AT] by (simp add: numeral_3_eq_3)

end
