(* ===== verification/Serializer.thy ===== *)
theory Serializer
  imports Ipc_Package
begin

text \<open>
  Property values as bytes: the serializers of \<^verbatim>\<open>property_serializer.h\<close> and the table
  \<^verbatim>\<open>serializer_machine\<close> that picks one by type name.

  A value of a plain type is its object representation, as \<^verbatim>\<open>memcpy\<close> moves it: the bits of a
  \<^verbatim>\<open>double\<close> or \<^verbatim>\<open>float\<close>, the \<^verbatim>\<open>int\<close>, the byte of a \<^verbatim>\<open>bool\<close>. \<^verbatim>\<open>QString\<close> and \<^verbatim>\<open>QByteArray\<close> are types
  of the Qt library: their values are of unspecified types \<open>'qs\<close> and \<open>'qb\<close>, and the members the
  serializers call are the fields of the parameter \<open>q\<close>. Of a property (a class of the \<^verbatim>\<open>tree\<close>
  submodule) the serializers see its type name, and through \<^verbatim>\<open>dynamic_cast<property<T> *>\<close> the type
  of its value and the value; they store with \<^verbatim>\<open>set_value\<close> or \<^verbatim>\<open>sync_value\<close>.
\<close>

section \<open>Values, properties and Qt\<close>

record ('qs, 'qb) qt_api =
  qs_to_std :: "'qs \<Rightarrow> byte list"
  qs_of_cstr :: "byte list \<Rightarrow> 'qs"
  qb_to_std :: "'qb \<Rightarrow> byte list"
  qb_of_data :: "byte list \<Rightarrow> 'qb"

datatype ('qs, 'qb) pvalue =
  VDouble u64 | VFloat u32 | VInt u32 | VBool byte | VQString 'qs | VQByteArray 'qb

record ('qs, 'qb) prop_view =
  prop_type :: string
  prop_value :: "('qs, 'qb) pvalue"

datatype ('qs, 'qb) store_call = Set_value "('qs, 'qb) pvalue" | Sync_value "('qs, 'qb) pvalue"

fun stored :: "('qs, 'qb) store_call \<Rightarrow> ('qs, 'qb) pvalue" where
  "stored (Set_value v) = v"
| "stored (Sync_value v) = v"

text \<open>The names \<^verbatim>\<open>typeid(T).name()\<close> gives under the Itanium C++ ABI.\<close>

definition type_double :: string where "type_double = ''d''"
definition type_float :: string where "type_float = ''f''"
definition type_int :: string where "type_int = ''i''"
definition type_bool :: string where "type_bool = ''b''"
definition type_QString :: string where "type_QString = ''7QString''"
definition type_QByteArray :: string where "type_QByteArray = ''10QByteArray''"

lemmas type_names = type_double_def type_float_def type_int_def type_bool_def
  type_QString_def type_QByteArray_def

lemma type_names_distinct [simp]:
  "type_double \<noteq> type_float" "type_double \<noteq> type_int" "type_double \<noteq> type_bool"
  "type_double \<noteq> type_QString" "type_double \<noteq> type_QByteArray"
  "type_float \<noteq> type_double" "type_float \<noteq> type_int" "type_float \<noteq> type_bool"
  "type_float \<noteq> type_QString" "type_float \<noteq> type_QByteArray"
  "type_int \<noteq> type_double" "type_int \<noteq> type_float" "type_int \<noteq> type_bool"
  "type_int \<noteq> type_QString" "type_int \<noteq> type_QByteArray"
  "type_bool \<noteq> type_double" "type_bool \<noteq> type_float" "type_bool \<noteq> type_int"
  "type_bool \<noteq> type_QString" "type_bool \<noteq> type_QByteArray"
  "type_QString \<noteq> type_double" "type_QString \<noteq> type_float" "type_QString \<noteq> type_int"
  "type_QString \<noteq> type_bool" "type_QString \<noteq> type_QByteArray"
  "type_QByteArray \<noteq> type_double" "type_QByteArray \<noteq> type_float" "type_QByteArray \<noteq> type_int"
  "type_QByteArray \<noteq> type_bool" "type_QByteArray \<noteq> type_QString"
  by (simp_all add: type_names)

lemma type_names_nonempty [simp]:
  "type_double \<noteq> []" "type_float \<noteq> []" "type_int \<noteq> []" "type_bool \<noteq> []" "type_QString \<noteq> []"
  "type_QByteArray \<noteq> []"
  by (simp_all add: type_names)

section \<open>The serializers\<close>

datatype plain_type = PDouble | PFloat | PInt | PBool

datatype serializer = Plain plain_type | Ser_qstring | Ser_qbytearray

fun plain_size :: "plain_type \<Rightarrow> nat" where
  "plain_size PDouble = 8"
| "plain_size PFloat = 4"
| "plain_size PInt = 4"
| "plain_size PBool = 1"

text \<open>The object representation of a value, if its type is \<open>t\<close>; and back, from that many bytes.\<close>

fun plain_bytes :: "plain_type \<Rightarrow> ('qs, 'qb) pvalue \<Rightarrow> byte list option" where
  "plain_bytes PDouble (VDouble w) = Some (bytes_u64 w)"
| "plain_bytes PFloat (VFloat w) = Some (bytes_u32 w)"
| "plain_bytes PInt (VInt w) = Some (bytes_u32 w)"
| "plain_bytes PBool (VBool b) = Some [b]"
| "plain_bytes _ _ = None"

fun plain_value :: "plain_type \<Rightarrow> byte list \<Rightarrow> ('qs, 'qb) pvalue" where
  "plain_value PDouble bs = VDouble (u64_of bs)"
| "plain_value PFloat bs = VFloat (u32_of bs)"
| "plain_value PInt bs = VInt (u32_of bs)"
| "plain_value PBool bs = VBool (hd bs)"

text \<open>
  The three classes, each with its overrides. \<^verbatim>\<open>serialize(property_base *)\<close> gives no bytes when the
  cast fails. \<^verbatim>\<open>serialize(const void *)\<close> trusts that its argument points to a value of the
  serializer's type; pointing to another one is an access through the wrong type.
  \<^verbatim>\<open>serialize(property_base *, void *)\<close> is the bytes copied out, or \<open>None\<close> for \<^verbatim>\<open>false\<close>.
  \<^verbatim>\<open>deserialize(buf, property_base *)\<close> is the store it makes, or \<open>None\<close> for \<^verbatim>\<open>false\<close>.
  \<^verbatim>\<open>deserialize(buf, void *)\<close> is what is returned, and what is left in the variable (of which
  \<open>old\<close> is the value before).
\<close>

subsection \<open>serializer_plain\<close>

definition plain_serialize :: "plain_type \<Rightarrow> ('qs, 'qb) prop_view \<Rightarrow> byte list" where
  "plain_serialize t c = (case plain_bytes t (prop_value c) of None \<Rightarrow> [] | Some bs \<Rightarrow> bs)"

definition plain_serialize_raw :: "plain_type \<Rightarrow> ('qs, 'qb) pvalue \<Rightarrow> fault + byte list" where
  "plain_serialize_raw t v =
     (case plain_bytes t v of None \<Rightarrow> Inl Out_of_bounds | Some bs \<Rightarrow> Inr bs)"

definition plain_serialize_to :: "plain_type \<Rightarrow> ('qs, 'qb) prop_view \<Rightarrow> byte list option" where
  "plain_serialize_to t c = plain_bytes t (prop_value c)"

definition plain_deserialize ::
  "plain_type \<Rightarrow> byte list \<Rightarrow> ('qs, 'qb) prop_view \<Rightarrow> ('qs, 'qb) store_call option" where
  "plain_deserialize t buf c =
     (if plain_bytes t (prop_value c) = None \<or> length buf \<noteq> plain_size t then None
      else Some (Set_value (plain_value t buf)))"

definition plain_deserialize_raw ::
  "plain_type \<Rightarrow> byte list \<Rightarrow> ('qs, 'qb) pvalue \<Rightarrow> bool \<times> ('qs, 'qb) pvalue" where
  "plain_deserialize_raw t buf old =
     (if length buf \<noteq> plain_size t then (False, old) else (True, plain_value t buf))"

definition plain_get_size :: "plain_type \<Rightarrow> int" where
  "plain_get_size t = int (plain_size t)"

subsection \<open>serializer_qstring\<close>

definition qstring_serialize :: "('qs, 'qb) qt_api \<Rightarrow> ('qs, 'qb) prop_view \<Rightarrow> byte list" where
  "qstring_serialize q c = (case prop_value c of VQString s \<Rightarrow> qs_to_std q s | _ \<Rightarrow> [])"

definition qstring_serialize_raw ::
  "('qs, 'qb) qt_api \<Rightarrow> ('qs, 'qb) pvalue \<Rightarrow> fault + byte list" where
  "qstring_serialize_raw q v =
     (case v of VQString s \<Rightarrow> Inr (qs_to_std q s) | _ \<Rightarrow> Inl Out_of_bounds)"

definition qstring_serialize_to ::
  "('qs, 'qb) qt_api \<Rightarrow> ('qs, 'qb) prop_view \<Rightarrow> byte list option" where
  "qstring_serialize_to q c =
     (case prop_value c of VQString s \<Rightarrow> Some (qs_to_std q s) | _ \<Rightarrow> None)"

text \<open>The bytes up to the first NUL: what a constructor from \<^verbatim>\<open>const char *\<close> sees of a \<^verbatim>\<open>c_str()\<close>.\<close>

definition c_str :: "byte list \<Rightarrow> byte list" where
  "c_str bs = takeWhile (\<lambda>b. b \<noteq> 0) bs"

definition qstring_deserialize ::
  "('qs, 'qb) qt_api \<Rightarrow> byte list \<Rightarrow> ('qs, 'qb) prop_view \<Rightarrow> ('qs, 'qb) store_call option" where
  "qstring_deserialize q buf c =
     (case prop_value c of
        VQString _ \<Rightarrow> Some (Sync_value (VQString (qs_of_cstr q (c_str buf)))) | _ \<Rightarrow> None)"

text \<open>The serializers of the Qt types store the value and return \<^verbatim>\<open>false\<close>.\<close>

definition qstring_deserialize_raw ::
  "('qs, 'qb) qt_api \<Rightarrow> byte list \<Rightarrow> ('qs, 'qb) pvalue \<Rightarrow> bool \<times> ('qs, 'qb) pvalue" where
  "qstring_deserialize_raw q buf old = (False, VQString (qs_of_cstr q (c_str buf)))"

definition qstring_get_size :: int where
  "qstring_get_size = -1"

subsection \<open>serializer_qbytearray\<close>

definition qbytearray_serialize :: "('qs, 'qb) qt_api \<Rightarrow> ('qs, 'qb) prop_view \<Rightarrow> byte list" where
  "qbytearray_serialize q c = (case prop_value c of VQByteArray b \<Rightarrow> qb_to_std q b | _ \<Rightarrow> [])"

definition qbytearray_serialize_raw ::
  "('qs, 'qb) qt_api \<Rightarrow> ('qs, 'qb) pvalue \<Rightarrow> fault + byte list" where
  "qbytearray_serialize_raw q v =
     (case v of VQByteArray b \<Rightarrow> Inr (qb_to_std q b) | _ \<Rightarrow> Inl Out_of_bounds)"

definition qbytearray_serialize_to ::
  "('qs, 'qb) qt_api \<Rightarrow> ('qs, 'qb) prop_view \<Rightarrow> byte list option" where
  "qbytearray_serialize_to q c =
     (case prop_value c of VQByteArray b \<Rightarrow> Some (qb_to_std q b) | _ \<Rightarrow> None)"

definition qbytearray_deserialize ::
  "('qs, 'qb) qt_api \<Rightarrow> byte list \<Rightarrow> ('qs, 'qb) prop_view \<Rightarrow> ('qs, 'qb) store_call option" where
  "qbytearray_deserialize q buf c =
     (case prop_value c of
        VQByteArray _ \<Rightarrow> Some (Sync_value (VQByteArray (qb_of_data q buf))) | _ \<Rightarrow> None)"

definition qbytearray_deserialize_raw ::
  "('qs, 'qb) qt_api \<Rightarrow> byte list \<Rightarrow> ('qs, 'qb) pvalue \<Rightarrow> bool \<times> ('qs, 'qb) pvalue" where
  "qbytearray_deserialize_raw q buf old = (False, VQByteArray (qb_of_data q buf))"

definition qbytearray_get_size :: int where
  "qbytearray_get_size = -1"

lemmas serializer_defs =
  plain_serialize_def plain_serialize_raw_def plain_serialize_to_def plain_deserialize_def
  plain_deserialize_raw_def plain_get_size_def
  qstring_serialize_def qstring_serialize_raw_def qstring_serialize_to_def
  qstring_deserialize_def qstring_deserialize_raw_def qstring_get_size_def
  qbytearray_serialize_def qbytearray_serialize_raw_def qbytearray_serialize_to_def
  qbytearray_deserialize_def qbytearray_deserialize_raw_def qbytearray_get_size_def

declare serializer_defs [simp]

subsection \<open>The virtual functions of serializer_base\<close>

fun serialize_prop ::
  "('qs, 'qb) qt_api \<Rightarrow> serializer \<Rightarrow> ('qs, 'qb) prop_view \<Rightarrow> byte list" where
  "serialize_prop q (Plain t) c = plain_serialize t c"
| "serialize_prop q Ser_qstring c = qstring_serialize q c"
| "serialize_prop q Ser_qbytearray c = qbytearray_serialize q c"

fun serialize_raw ::
  "('qs, 'qb) qt_api \<Rightarrow> serializer \<Rightarrow> ('qs, 'qb) pvalue \<Rightarrow> fault + byte list" where
  "serialize_raw q (Plain t) v = plain_serialize_raw t v"
| "serialize_raw q Ser_qstring v = qstring_serialize_raw q v"
| "serialize_raw q Ser_qbytearray v = qbytearray_serialize_raw q v"

fun serialize_to ::
  "('qs, 'qb) qt_api \<Rightarrow> serializer \<Rightarrow> ('qs, 'qb) prop_view \<Rightarrow> byte list option" where
  "serialize_to q (Plain t) c = plain_serialize_to t c"
| "serialize_to q Ser_qstring c = qstring_serialize_to q c"
| "serialize_to q Ser_qbytearray c = qbytearray_serialize_to q c"

fun deserialize_prop ::
  "('qs, 'qb) qt_api \<Rightarrow> serializer \<Rightarrow> byte list \<Rightarrow> ('qs, 'qb) prop_view
     \<Rightarrow> ('qs, 'qb) store_call option" where
  "deserialize_prop q (Plain t) buf c = plain_deserialize t buf c"
| "deserialize_prop q Ser_qstring buf c = qstring_deserialize q buf c"
| "deserialize_prop q Ser_qbytearray buf c = qbytearray_deserialize q buf c"

fun deserialize_raw ::
  "('qs, 'qb) qt_api \<Rightarrow> serializer \<Rightarrow> byte list \<Rightarrow> ('qs, 'qb) pvalue \<Rightarrow> bool \<times> ('qs, 'qb) pvalue" where
  "deserialize_raw q (Plain t) buf old = plain_deserialize_raw t buf old"
| "deserialize_raw q Ser_qstring buf old = qstring_deserialize_raw q buf old"
| "deserialize_raw q Ser_qbytearray buf old = qbytearray_deserialize_raw q buf old"

fun ser_get_size :: "serializer \<Rightarrow> int" where
  "ser_get_size (Plain t) = plain_get_size t"
| "ser_get_size Ser_qstring = qstring_get_size"
| "ser_get_size Ser_qbytearray = qbytearray_get_size"

section \<open>serializer_machine\<close>

type_synonym machine = "string \<Rightarrow> serializer option"

definition add_serializer :: "string \<Rightarrow> serializer \<Rightarrow> machine \<Rightarrow> machine" where
  "add_serializer type s m = m(type \<mapsto> s)"

definition add_plain_serializer :: "string \<Rightarrow> plain_type \<Rightarrow> machine \<Rightarrow> machine" where
  "add_plain_serializer type t m = m(type \<mapsto> Plain t)"

text \<open>\<^verbatim>\<open>init()\<close>, in its order.\<close>

definition machine_init :: machine where
  "machine_init =
     add_serializer type_QByteArray Ser_qbytearray
      (add_serializer type_QString Ser_qstring
       (add_plain_serializer type_bool PBool
        (add_plain_serializer type_int PInt
         (add_plain_serializer type_float PFloat
          (add_plain_serializer type_double PDouble Map.empty)))))"

text \<open>The constructor; the program calls it without an argument, which is \<open>True\<close>.\<close>

definition serializer_machine_new :: "bool \<Rightarrow> machine" where
  "serializer_machine_new do_init = (if do_init then machine_init else Map.empty)"

definition machine_serialize ::
  "('qs, 'qb) qt_api \<Rightarrow> machine \<Rightarrow> ('qs, 'qb) prop_view \<Rightarrow> byte list" where
  "machine_serialize q m c =
     (case m (prop_type c) of None \<Rightarrow> [] | Some s \<Rightarrow> serialize_prop q s c)"

definition machine_serialize_raw ::
  "('qs, 'qb) qt_api \<Rightarrow> machine \<Rightarrow> string \<Rightarrow> ('qs, 'qb) pvalue \<Rightarrow> fault + byte list" where
  "machine_serialize_raw q m type v =
     (case m type of None \<Rightarrow> Inr [] | Some s \<Rightarrow> serialize_raw q s v)"

definition machine_serialize_to ::
  "('qs, 'qb) qt_api \<Rightarrow> machine \<Rightarrow> ('qs, 'qb) prop_view \<Rightarrow> byte list option" where
  "machine_serialize_to q m c =
     (case m (prop_type c) of None \<Rightarrow> None | Some s \<Rightarrow> serialize_to q s c)"

definition machine_deserialize ::
  "('qs, 'qb) qt_api \<Rightarrow> machine \<Rightarrow> byte list \<Rightarrow> ('qs, 'qb) prop_view
     \<Rightarrow> ('qs, 'qb) store_call option" where
  "machine_deserialize q m buf c =
     (case m (prop_type c) of None \<Rightarrow> None | Some s \<Rightarrow> deserialize_prop q s buf c)"

definition machine_deserialize_raw ::
  "('qs, 'qb) qt_api \<Rightarrow> machine \<Rightarrow> string \<Rightarrow> byte list \<Rightarrow> ('qs, 'qb) pvalue
     \<Rightarrow> bool \<times> ('qs, 'qb) pvalue" where
  "machine_deserialize_raw q m type buf old =
     (case m type of None \<Rightarrow> (False, old) | Some s \<Rightarrow> deserialize_raw q s buf old)"

definition machine_get_size :: "machine \<Rightarrow> string \<Rightarrow> int" where
  "machine_get_size m type = (case m type of None \<Rightarrow> -1 | Some s \<Rightarrow> ser_get_size s)"

section \<open>Buffers in packets\<close>

text \<open>
  Values travel in packets as a 32-bit length and the bytes of the serializer; the same statements
  occur in the handlers that answer a read and that publish an update, and in those that read them.
\<close>

definition append_buffer :: "byte list \<Rightarrow> package \<Rightarrow> fault + package" where
  "append_buffer buf p = append_data buf (append_u32 (of_nat (length buf)) p)"

definition read_buffer :: "package \<Rightarrow> fault + byte list" where
  "read_buffer p =
     andThen (read_u32 p 0) (\<lambda>sz.
       let buf = vec_resize (unat sz) []
       in andThen (package_read p 4 (of_nat (unat sz))) (\<lambda>r.
            Inr (case r of None \<Rightarrow> buf | Some bs \<Rightarrow> bs)))"

lemma append_buffer_mk:
  "fits_int buf \<Longrightarrow> append_buffer buf (mk_package n c pl)
     = Inr (mk_package n c (pl @ bytes_u32 (of_nat (length buf)) @ buf))"
  by (simp add: append_buffer_def)

lemma read_buffer_mk:
  assumes "fits_int (bytes_u32 (of_nat (length buf)) @ buf @ post)"
  shows "read_buffer (mk_package n c (bytes_u32 (of_nat (length buf)) @ buf @ post)) = Inr buf"
proof -
  define p where "p = mk_package n c (bytes_u32 (of_nat (length buf)) @ buf @ post)"
  have sz: "read_u32 p 0 = Inr (of_nat (length buf))"
    using read_u32_at [of "[]" "of_nat (length buf)" "buf @ post" n c] assms by (simp add: p_def)
  have data: "package_read p 4 (of_nat (length buf)) = Inr (Some buf)"
    using package_read_at
      [of "bytes_u32 (of_nat (length buf))" buf post "length buf" n c] assms by (simp add: p_def)
  have len: "unat (of_nat (length buf) :: u32) = length buf"
    using assms by (intro unat_of_nat_u32) simp
  have "read_buffer p = Inr buf"
    unfolding read_buffer_def sz andThen.simps Let_def len data by simp
  then show ?thesis by (simp only: p_def)
qed

lemma read_buffer_zeros:
  assumes "k + 9 < 2 ^ 64"
  shows "read_buffer (mk_package n c (replicate k 0)) = Inr []"
proof (cases "k < 4")
  case True
  have sz: "read_u32 (mk_package n c (replicate k 0)) 0 = Inr 0"
    using package_read_mk [of 0 4 "replicate k 0" n c] True by (simp add: read_u32_def)
  have "package_read (mk_package n c (replicate k 0)) 4 0 = Inr None"
    using package_read_mk [of 4 0 "replicate k 0" n c] True by simp
  with sz show ?thesis by (simp add: read_buffer_def)
next
  case False
  have sz: "read_u32 (mk_package n c (replicate k 0)) 0 = Inr 0"
    using package_read_mk [of 0 4 "replicate k 0" n c] assms False
    by (simp add: read_u32_def min_absorb1)
  have "package_read (mk_package n c (replicate k 0)) 4 0 = Inr (Some [])"
    using package_read_mk [of 4 0 "replicate k 0" n c] assms False by simp
  with sz show ?thesis by (simp add: read_buffer_def)
qed

section \<open>What the protocol relies on\<close>

text \<open>
  A codec of values: on the values it is good for, decoding undoes encoding. The packets that carry
  a value then carry it whole, with whatever follows it in the packet.
\<close>

locale value_codec =
  fixes ser :: "'v \<Rightarrow> byte list"
    and des :: "byte list \<Rightarrow> 'v option"
    and good :: "'v \<Rightarrow> bool"
  assumes des_ser: "good v \<Longrightarrow> des (ser v) = Some v"
begin

lemma ser_inj: "good v \<Longrightarrow> good w \<Longrightarrow> ser v = ser w \<Longrightarrow> v = w"
  by (metis des_ser option.inject)

lemma packet_value:
  assumes "good v" and "length (ser v) + 4 + length post < 2 ^ 31"
  shows "\<exists>p. append_buffer (ser v) (mk_package n c []) = Inr p
     \<and> andThen (read_buffer (mk_package n c (payload p @ post))) (\<lambda>buf. Inr (des buf)) = Inr (Some v)"
  using assms read_buffer_mk [of "ser v" post n c]
  by (simp add: append_buffer_mk des_ser)

end

text \<open>The type name of a value, and the properties whose value has the type they declare.\<close>

fun value_type :: "('qs, 'qb) pvalue \<Rightarrow> string" where
  "value_type (VDouble _) = type_double"
| "value_type (VFloat _) = type_float"
| "value_type (VInt _) = type_int"
| "value_type (VBool _) = type_bool"
| "value_type (VQString _) = type_QString"
| "value_type (VQByteArray _) = type_QByteArray"

text \<open>The template \<^verbatim>\<open>serialize(type val)\<close> of the machine.\<close>

definition machine_serialize_val ::
  "('qs, 'qb) qt_api \<Rightarrow> machine \<Rightarrow> ('qs, 'qb) pvalue \<Rightarrow> fault + byte list" where
  "machine_serialize_val q m v =
     (case m (value_type v) of None \<Rightarrow> Inr [] | Some s \<Rightarrow> serialize_raw q s v)"

definition prop_typed :: "('qs, 'qb) prop_view \<Rightarrow> bool" where
  "prop_typed c \<longleftrightarrow> value_type (prop_value c) = prop_type c"

text \<open>
  What Qt documents: a \<^verbatim>\<open>QString\<close> made from its own \<^verbatim>\<open>toStdString()\<close>, which is UTF-8, is the same
  string, and so for \<^verbatim>\<open>QByteArray\<close>. Of \<^verbatim>\<open>QString\<close>, \<open>'qs\<close> holds the well-formed ones: a string with
  an unpaired surrogate has no UTF-8 form.
\<close>

definition qt_laws :: "('qs, 'qb) qt_api \<Rightarrow> bool" where
  "qt_laws q \<longleftrightarrow> (\<forall>s. qs_of_cstr q (qs_to_std q s) = s) \<and> (\<forall>b. qb_of_data q (qb_to_std q b) = b)"

text \<open>A string value without a NUL character.\<close>

fun no_nul :: "('qs, 'qb) qt_api \<Rightarrow> ('qs, 'qb) pvalue \<Rightarrow> bool" where
  "no_nul q (VQString s) = (0 \<notin> set (qs_to_std q s))"
| "no_nul q _ = True"

lemma c_str_no_nul: "0 \<notin> set bs \<Longrightarrow> c_str bs = bs"
  by (auto simp: c_str_def takeWhile_eq_all_conv)

lemma value_type_eq:
  "value_type v = type_double \<longleftrightarrow> (\<exists>w. v = VDouble w)"
  "value_type v = type_float \<longleftrightarrow> (\<exists>w. v = VFloat w)"
  "value_type v = type_int \<longleftrightarrow> (\<exists>w. v = VInt w)"
  "value_type v = type_bool \<longleftrightarrow> (\<exists>w. v = VBool w)"
  "value_type v = type_QString \<longleftrightarrow> (\<exists>s. v = VQString s)"
  "value_type v = type_QByteArray \<longleftrightarrow> (\<exists>b. v = VQByteArray b)"
  by (cases v, simp_all)+

lemma machine_init_lookup [simp]:
  "machine_init type_double = Some (Plain PDouble)"
  "machine_init type_float = Some (Plain PFloat)"
  "machine_init type_int = Some (Plain PInt)"
  "machine_init type_bool = Some (Plain PBool)"
  "machine_init type_QString = Some Ser_qstring"
  "machine_init type_QByteArray = Some Ser_qbytearray"
  by (simp_all add: machine_init_def add_serializer_def add_plain_serializer_def)

interpretation mach: value_codec
  "\<lambda>v. machine_serialize q machine_init (c\<lparr>prop_value := v\<rparr>)"
  "\<lambda>bs. map_option stored (machine_deserialize q machine_init bs c)"
  "\<lambda>v. qt_laws q \<and> prop_typed c \<and> value_type v = prop_type c \<and> no_nul q v" for q c
proof unfold_locales
  fix v :: "('a, 'b) pvalue"
  assume good: "qt_laws q \<and> prop_typed c \<and> value_type v = prop_type c \<and> no_nul q v"
  then have "prop_type c = value_type v" "value_type (prop_value c) = value_type v"
    by (simp_all add: prop_typed_def)
  with good show "map_option stored
      (machine_deserialize q machine_init (machine_serialize q machine_init (c\<lparr>prop_value := v\<rparr>)) c)
      = Some v"
    by (cases v)
      (auto simp: machine_serialize_def machine_deserialize_def value_type_eq qt_laws_def c_str_no_nul)
qed

section \<open>Properties\<close>

text \<open>
  C28: what the machine serializes it can store again. For a property of any supported type and
  a new value of that type (a string without NUL characters), the bytes of the value, sent to a
  property of that type, store exactly the value.
\<close>

theorem serializer_roundtrip:
  assumes "qt_laws q" and "prop_typed c" and "value_type v = prop_type c" and "no_nul q v"
  shows "map_option stored
     (machine_deserialize q machine_init (machine_serialize q machine_init (c\<lparr>prop_value := v\<rparr>)) c)
     = Some v"
  using assms by (intro mach.des_ser) simp

definition plain_qt :: "(byte list, byte list) qt_api" where
  "plain_qt = \<lparr>qs_to_std = id, qs_of_cstr = id, qb_to_std = id, qb_of_data = id\<rparr>"

lemma plain_qt_laws: "qt_laws plain_qt"
  by (simp add: qt_laws_def plain_qt_def)

theorem serializer_roundtrip_witness:
  "map_option stored (machine_deserialize plain_qt machine_init
      (machine_serialize plain_qt machine_init \<lparr>prop_type = type_QString, prop_value = VQString [104, 105]\<rparr>)
      \<lparr>prop_type = type_QString, prop_value = VQString []\<rparr>) = Some (VQString [104, 105])"
  using serializer_roundtrip
    [OF plain_qt_laws, of "\<lparr>prop_type = type_QString, prop_value = VQString []\<rparr>" "VQString [104, 105]"]
  by (simp add: prop_typed_def plain_qt_def)

text \<open>
  A string with a NUL character does not survive: the serializer sends all of its bytes, but
  the receiver builds the string from the bytes before the first NUL.
\<close>

theorem qstring_cut_at_nul:
  assumes "qs_to_std q s = a @ 0 # b" and "0 \<notin> set a"
    and "prop_type c = type_QString" and "prop_value c = VQString s0"
  shows "machine_serialize q machine_init (c\<lparr>prop_value := VQString s\<rparr>) = a @ 0 # b
     \<and> machine_deserialize q machine_init (a @ 0 # b) c
         = Some (Sync_value (VQString (qs_of_cstr q a)))"
proof -
  have "takeWhile (\<lambda>b. b \<noteq> 0) (a @ 0 # b) = a"
    using assms(2) by (induction a) auto
  then show ?thesis using assms
    by (simp add: machine_serialize_def machine_deserialize_def c_str_def)
qed

theorem qstring_cut_at_nul_witness:
  "machine_deserialize plain_qt machine_init [104, 0, 105]
     \<lparr>prop_type = type_QString, prop_value = VQString []\<rparr> = Some (Sync_value (VQString [104]))"
  using qstring_cut_at_nul
    [of plain_qt "[104, 0, 105]" "[104]" "[105]" "\<lparr>prop_type = type_QString, prop_value = VQString []\<rparr>" "[]"]
  by (simp add: plain_qt_def)

text \<open>
  C36: a buffer that is not exactly as long as the value of a fixed-size type is refused: nothing is
  stored. A value that is stored always has the type of the property.
\<close>

theorem deserialize_type_safe:
  "(case machine_deserialize q machine_init buf c of
      None \<Rightarrow> True
    | Some st \<Rightarrow> (machine_get_size machine_init (prop_type c) = -1
                  \<or> machine_get_size machine_init (prop_type c) = int (length buf))
                \<and> value_type (stored st) = value_type (prop_value c))"
proof (cases "machine_init (prop_type c)")
  case None
  then show ?thesis by (simp add: machine_deserialize_def)
next
  case (Some s)
  then show ?thesis
  proof (cases s)
    case (Plain t)
    with Some show ?thesis
      by (cases t; cases "prop_value c") (auto simp: machine_deserialize_def machine_get_size_def)
  qed (auto simp: machine_deserialize_def machine_get_size_def split: pvalue.splits)
qed

text \<open>
  The templates of the machine that serialize a variable and store into one are inverse to each
  other: a value (a string without NUL characters) serialized and deserialized into any variable
  of its type is in the variable. But the result is \<^verbatim>\<open>false\<close> for the two Qt types,
  although the value was stored.
\<close>

theorem variable_roundtrip:
  assumes "qt_laws q" and "no_nul q v" and "value_type old = value_type v"
  shows "\<exists>bs. machine_serialize_val q machine_init v = Inr bs
     \<and> machine_deserialize_raw q machine_init (value_type v) bs old
         = (value_type v \<noteq> type_QString \<and> value_type v \<noteq> type_QByteArray, v)"
  using assms(1,2)
  by (cases v) (simp_all add: machine_serialize_val_def machine_deserialize_raw_def qt_laws_def c_str_no_nul)

theorem variable_roundtrip_witness:
  "\<exists>bs. machine_serialize_val plain_qt machine_init (VQString [104, 105]) = Inr bs
     \<and> machine_deserialize_raw plain_qt machine_init type_QString bs (VQString [])
         = (False, VQString [104, 105])"
  using variable_roundtrip [OF plain_qt_laws, of "VQString [104, 105]" "VQString []"]
  by (simp add: plain_qt_def)

end
