(* ===== verification/Tree_Api.thy ===== *)
theory Tree_Api
  imports Serializer
begin

text \<open>
  The boundary to the \<^verbatim>\<open>tree\<close> library (a git submodule, not part of this repository): nodes, their
  names, owners and children, the property objects some nodes are, and the listeners. Its state has
  the unspecified type \<open>'t\<close>, and what the program calls is a field of the record \<open>tree_api\<close>, the
  parameter \<open>T\<close> of every definition that uses the tree.

  A node is \<open>App i\<close> when the application made it, and \<open>Proxy i\<close> when this library did: then it is a
  \<^verbatim>\<open>client_node\<close>, which is what \<^verbatim>\<open>dynamic_cast<client_node *>\<close> tests. A call into the tree may notify
  the node_sync that makes it, as a listener; the tree reports these notifications as the list of
  events, in the order they are made.
\<close>

datatype node_ref = App nat | Proxy nat

datatype tree_event =
    Child_added node_ref node_ref            \<comment> \<open>parent, child\<close>
  | Child_removed node_ref string node_ref   \<comment> \<open>parent, name, child\<close>
  | Removed node_ref                         \<comment> \<open>the node, from its destructor\<close>
  | Updated node_ref                         \<comment> \<open>the property\<close>

record ('t, 'qs, 'qb) tree_api =
  t_name :: "'t \<Rightarrow> node_ref \<Rightarrow> string"
  t_owner :: "'t \<Rightarrow> node_ref \<Rightarrow> node_ref option"
  t_set_owner :: "node_ref \<Rightarrow> node_ref \<Rightarrow> 't \<Rightarrow> 't"
  t_children :: "'t \<Rightarrow> node_ref \<Rightarrow> string \<Rightarrow> node_ref option"
  t_ls :: "'t \<Rightarrow> node_ref \<Rightarrow> string list"
  t_at :: "node_ref \<Rightarrow> string \<Rightarrow> 't \<Rightarrow> node_ref option \<times> 't"
  t_split :: "string \<Rightarrow> string \<times> string"
  t_get :: "node_ref \<Rightarrow> string \<Rightarrow> bool \<Rightarrow> 't \<Rightarrow> node_ref option \<times> 't \<times> tree_event list"
  t_attach :: "node_ref \<Rightarrow> string \<Rightarrow> node_ref \<Rightarrow> 't \<Rightarrow> 't \<times> tree_event list"
  t_insert :: "node_ref \<Rightarrow> string \<Rightarrow> node_ref \<Rightarrow> 't \<Rightarrow> bool \<times> 't \<times> tree_event list"
  t_remove :: "node_ref \<Rightarrow> string \<Rightarrow> bool \<Rightarrow> 't \<Rightarrow> int \<times> 't \<times> tree_event list"
  t_detach :: "node_ref \<Rightarrow> node_ref \<Rightarrow> 't \<Rightarrow> 't"
  t_new :: "node_ref \<Rightarrow> string \<Rightarrow> 't \<Rightarrow> 't"
  t_delete :: "node_ref \<Rightarrow> 't \<Rightarrow> 't"
  t_prop :: "'t \<Rightarrow> node_ref \<Rightarrow> ('qs, 'qb) prop_view option"
  t_store :: "node_ref \<Rightarrow> ('qs, 'qb) store_call \<Rightarrow> 't \<Rightarrow> 't \<times> tree_event list"
  t_notify_change :: "node_ref \<Rightarrow> 't \<Rightarrow> 't \<times> tree_event list"
  t_listen :: "node_ref \<Rightarrow> bool option \<Rightarrow> 't \<Rightarrow> 't \<times> tree_event list"
  t_listen_prop :: "node_ref \<Rightarrow> 't \<Rightarrow> 't"
  t_unlisten_prop :: "node_ref \<Rightarrow> 't \<Rightarrow> 't"
  t_prop_listeners :: "'t \<Rightarrow> node_ref \<Rightarrow> nat"

text \<open>
  The fields stand for: \<^verbatim>\<open>get_name\<close>, \<^verbatim>\<open>get_owner\<close>, \<^verbatim>\<open>set_owner\<close>, \<^verbatim>\<open>get_children()[name]\<close>, \<^verbatim>\<open>ls\<close> and
  \<^verbatim>\<open>at\<close> of a node; \<^verbatim>\<open>extract_next_level_name\<close> and \<^verbatim>\<open>tree_node::get\<close>; \<^verbatim>\<open>tree_node::attach\<close>, \<^verbatim>\<open>tree_node::insert\<close>,
  \<^verbatim>\<open>tree_node::remove\<close> and \<^verbatim>\<open>detach\<close>; the base-class part of
  constructing and destroying a proxy; a property's type and value when \<^verbatim>\<open>dynamic_cast<property_base *>\<close>
  succeeds; \<^verbatim>\<open>set_value\<close> or \<^verbatim>\<open>sync_value\<close> of the property class of the tree; \<^verbatim>\<open>notify_change\<close>;
  \<^verbatim>\<open>add_listener\<close> of a node, with its second argument where one is given; \<^verbatim>\<open>add_listener\<close>,
  \<^verbatim>\<open>remove_listener\<close> and the number of listeners of a property. For a proxy that belongs to another
  node_sync of the process, \<open>t_ls\<close> is the list that node_sync gets from its peer.
\<close>

end
