(* ===== verification/Std_Map.thy ===== *)
theory Std_Map
  imports Ipc_Prelude
begin

text \<open>
  \<^verbatim>\<open>std::map\<close> as the program uses it: key-value pairs in the order of their keys, which is the
  order of iteration. \<^verbatim>\<open>begin()\<close> is the head of the list, \<^verbatim>\<open>find\<close> is \<^const>\<open>map_of\<close>, \<open>map_put\<close> is
  \<^verbatim>\<open>m[k] = v\<close> and \<open>map_del\<close> is \<^verbatim>\<open>erase(k)\<close>. \<open>find_key\<close> is the program's search for the first key
  of a value. The locale \<open>map_laws\<close> collects what the users of a map rely on.
\<close>

fun map_put :: "'k::linorder \<Rightarrow> 'v \<Rightarrow> ('k \<times> 'v) list \<Rightarrow> ('k \<times> 'v) list" where
  "map_put k v [] = [(k, v)]"
| "map_put k v ((k', v') # m) =
     (if k < k' then (k, v) # (k', v') # m
      else if k = k' then (k, v) # m
      else (k', v') # map_put k v m)"

definition map_del :: "'k \<Rightarrow> ('k \<times> 'v) list \<Rightarrow> ('k \<times> 'v) list" where
  "map_del k m = filter (\<lambda>x. fst x \<noteq> k) m"

fun find_key :: "'v \<Rightarrow> ('k \<times> 'v) list \<Rightarrow> 'k option" where
  "find_key v [] = None"
| "find_key v ((k, v') # m) = (if v' = v then Some k else find_key v m)"

definition sorted_map :: "('k::linorder \<times> 'v) list \<Rightarrow> bool" where
  "sorted_map m \<longleftrightarrow> sorted_wrt (<) (map fst m)"

section \<open>Laws\<close>

lemma map_of_map_put: "sorted_map m \<Longrightarrow> map_of (map_put k v m) = (map_of m)(k \<mapsto> v)"
  by (induction k v m rule: map_put.induct) (auto simp: sorted_map_def fun_eq_iff)

lemma set_map_put: "fst ` set (map_put k v m) = insert k (fst ` set m)"
  by (induction k v m rule: map_put.induct) auto

lemma map_put_keys: "x \<in> set (map_put k v m) \<Longrightarrow> fst x = k \<or> fst x \<in> fst ` set m"
  using set_map_put [of k v m] by (metis image_eqI insert_iff)

lemma sorted_map_put: "sorted_map m \<Longrightarrow> sorted_map (map_put k v m)"
  by (induction k v m rule: map_put.induct)
    (auto simp: sorted_map_def dest!: map_put_keys)

lemma map_of_map_del: "map_of (map_del k m) = (map_of m)(k := None)"
  by (induction m) (auto simp: map_del_def fun_eq_iff)

lemma sorted_map_del: "sorted_map m \<Longrightarrow> sorted_map (map_del k m)"
  unfolding sorted_map_def map_del_def
  by (induction m) auto

lemma sorted_map_Nil [simp]: "sorted_map []"
  by (simp add: sorted_map_def)

lemma sorted_map_Cons: "sorted_map ((k, v) # m) \<longleftrightarrow> (\<forall>k' \<in> fst ` set m. k < k') \<and> sorted_map m"
  by (simp add: sorted_map_def)

lemma sorted_map_distinct: "sorted_map m \<Longrightarrow> distinct (map fst m)"
  by (simp add: sorted_map_def strict_sorted_iff)

lemma sorted_map_in_set: "sorted_map m \<Longrightarrow> (k, v) \<in> set m \<longleftrightarrow> map_of m k = Some v"
  by (auto dest: sorted_map_distinct map_of_SomeD)

lemma map_del_head: "sorted_map ((k, v) # m) \<Longrightarrow> map_del k ((k, v) # m) = m"
  by (auto simp: sorted_map_Cons map_del_def filter_id_conv)

lemma length_map_del_le: "length (map_del k m) \<le> length m"
  by (simp add: map_del_def)

lemma length_map_del_less: "map_of m k = Some v \<Longrightarrow> length (map_del k m) < length m"
  by (induction m) (auto simp: map_del_def le_imp_less_Suc split: if_splits)

lemma length_map_put_le: "length m \<le> length (map_put k v m)"
  by (induction k v m rule: map_put.induct) auto

lemma length_map_put_new: "map_of m k = None \<Longrightarrow> length (map_put k v m) = Suc (length m)"
  by (induction k v m rule: map_put.induct) (auto split: if_splits)

lemma length_map_put_old:
  "sorted_map m \<Longrightarrow> map_of m k = Some w \<Longrightarrow> length (map_put k v m) = length m"
  by (induction k v m rule: map_put.induct)
    (auto simp: sorted_map_Cons split: if_splits, metis map_of_SomeD fst_conv order_less_asym)

lemma find_key_SomeD: "find_key v m = Some k \<Longrightarrow> (k, v) \<in> set m"
  by (induction v m rule: find_key.induct) (auto split: if_splits)

lemma find_key_NoneD: "find_key v m = None \<Longrightarrow> (k, v) \<notin> set m"
  by (induction v m rule: find_key.induct) (auto split: if_splits)

lemma find_key_Some: "sorted_map m \<Longrightarrow> find_key v m = Some k \<Longrightarrow> map_of m k = Some v"
  by (simp add: find_key_SomeD flip: sorted_map_in_set)

lemma find_key_None: "sorted_map m \<Longrightarrow> find_key v m = None \<Longrightarrow> map_of m k \<noteq> Some v"
  by (simp add: find_key_NoneD flip: sorted_map_in_set)

lemma find_key_put_other:
  "sorted_map m \<Longrightarrow> map_of m k \<noteq> Some v \<Longrightarrow> v' \<noteq> v \<Longrightarrow> find_key v (map_put k v' m) = find_key v m"
  by (induction k v' m rule: map_put.induct) (auto simp: sorted_map_Cons split: if_splits)

section \<open>What users rely on\<close>

locale map_laws =
  fixes find :: "'m \<Rightarrow> 'k \<Rightarrow> 'v option"
    and put :: "'k \<Rightarrow> 'v \<Rightarrow> 'm \<Rightarrow> 'm"
    and del :: "'k \<Rightarrow> 'm \<Rightarrow> 'm"
    and rev_find :: "'v \<Rightarrow> 'm \<Rightarrow> 'k option"
    and invar :: "'m \<Rightarrow> bool"
  assumes find_put: "invar m \<Longrightarrow> find (put k v m) = (find m)(k \<mapsto> v)"
    and find_del: "invar m \<Longrightarrow> find (del k m) = (find m)(k := None)"
    and invar_put: "invar m \<Longrightarrow> invar (put k v m)"
    and invar_del: "invar m \<Longrightarrow> invar (del k m)"
    and rev_find_Some: "invar m \<Longrightarrow> rev_find v m = Some k \<Longrightarrow> find m k = Some v"
    and rev_find_None: "invar m \<Longrightarrow> rev_find v m = None \<Longrightarrow> find m k \<noteq> Some v"
begin

text \<open>No value under two keys.\<close>

definition injective :: "'m \<Rightarrow> bool" where
  "injective m \<longleftrightarrow> (\<forall>k k' v. find m k = Some v \<longrightarrow> find m k' = Some v \<longrightarrow> k = k')"

lemma rev_find_found:
  assumes "invar m" and "injective m" and "find m k = Some v"
  shows "rev_find v m = Some k"
proof (cases "rev_find v m")
  case None
  with assms show ?thesis using rev_find_None by blast
next
  case (Some k')
  with assms rev_find_Some [of m v k'] show ?thesis unfolding injective_def by blast
qed

lemma injective_put_new:
  assumes "invar m" and "injective m" and "rev_find v m = None"
  shows "injective (put k v m)"
  using assms rev_find_None [OF assms(1,3)]
  by (auto simp: injective_def find_put split: if_splits)

lemma injective_del: "invar m \<Longrightarrow> injective m \<Longrightarrow> injective (del k m)"
  by (auto simp: injective_def find_del split: if_splits)

end

interpretation smap: map_laws map_of map_put map_del find_key sorted_map
  by unfold_locales
    (simp_all add: map_of_map_put map_of_map_del sorted_map_put sorted_map_del
      find_key_Some find_key_None)

end
