(* ===== verification/Package_Codec.thy ===== *)
theory Package_Codec
  imports Ipc_Prelude
begin

text \<open>
  The framing layer: class \<^verbatim>\<open>package_codec\<close> of \<^verbatim>\<open>package_stream.h\<close> and \<^verbatim>\<open>package_stream.cpp\<close>.
  Frames travel over a byte stream as a 32-bit length and that many bytes. The receiving side gets
  the stream in chunks of any size and calls the virtual \<^verbatim>\<open>process_notification\<close> (the argument
  \<open>deliver\<close>) once for each complete frame; the sending side calls the transport twice.

  The receiving loop is proved to implement a parser of the whole stream (\<open>parse_stream\<close>), whatever
  the chunks; the sending side is verified in a locale over the contract of a transport.
\<close>

section \<open>State\<close>

record codec =
  buffer :: "byte list"
  pack_size :: u32
  has_transport :: bool

definition codec_new :: codec where
  "codec_new = \<lparr>buffer = [], pack_size = 0, has_transport = False\<rparr>"

definition set_transport :: "codec \<Rightarrow> codec" where
  "set_transport c = c\<lparr>has_transport := True\<rparr>"

definition get_transport :: "codec \<Rightarrow> bool" where
  "get_transport c = has_transport c"

section \<open>Receiving\<close>

text \<open>
  First statement of the loop body: take the length of the next frame off the buffer, if it is not
  known yet and there are enough bytes for it.
\<close>

definition take_size :: "codec \<Rightarrow> codec" where
  "take_size c =
     (if pack_size c = 0 \<and> length (buffer c) \<ge> 4
      then c\<lparr>pack_size := u32_of (take 4 (buffer c)), buffer := drop 4 (buffer c)\<rparr>
      else c)"

text \<open>
  The loop of \<^verbatim>\<open>process_notification(data, size)\<close>. The callback runs before the frame is erased
  from the buffer, so an exception in it leaves the loop at that point.
\<close>

function codec_loop ::
  "(byte list \<Rightarrow> 's \<Rightarrow> fault + 's) \<Rightarrow> codec \<Rightarrow> 's \<Rightarrow> fault + (codec \<times> 's)" where
  "codec_loop deliver c s =
     (let c1 = take_size c; n = unat (pack_size c1)
      in if pack_size c1 = 0 \<or> length (buffer c1) < n then Inr (c1, s)
         else andThen (deliver (take n (buffer c1)) s) (\<lambda>s'.
           codec_loop deliver (c1\<lparr>buffer := drop n (buffer c1), pack_size := 0\<rparr>) s'))"
  by pat_completeness auto
termination
proof (relation "measure (\<lambda>(_, c, _). length (buffer c))", simp, goal_cases)
  case (1 deliver c s c1 n a)
  have "unat (pack_size c1) \<noteq> 0" "unat (pack_size c1) \<le> length (buffer c1)"
    using 1 by (auto simp: unat_eq_zero)
  moreover have "length (buffer c1) \<le> length (buffer c)"
    by (simp add: 1 take_size_def)
  ultimately show ?case using 1 by auto
qed

declare codec_loop.simps [simp del]

definition codec_feed ::
  "(byte list \<Rightarrow> 's \<Rightarrow> fault + 's) \<Rightarrow> byte list \<Rightarrow> codec \<Rightarrow> 's \<Rightarrow> fault + (codec \<times> 's)" where
  "codec_feed deliver data c s = codec_loop deliver (c\<lparr>buffer := buffer c @ data\<rparr>) s"

text \<open>The chunks of a stream, one call for each.\<close>

fun codec_feeds ::
  "(byte list \<Rightarrow> 's \<Rightarrow> fault + 's) \<Rightarrow> byte list list \<Rightarrow> codec \<Rightarrow> 's \<Rightarrow> fault + (codec \<times> 's)" where
  "codec_feeds deliver [] c s = Inr (c, s)"
| "codec_feeds deliver (ch # chs) c s =
     andThen (codec_feed deliver ch c s) (\<lambda>(c, s). codec_feeds deliver chs c s)"

text \<open>A callback that only records the frames it gets.\<close>

definition collect :: "byte list \<Rightarrow> byte list list \<Rightarrow> fault + byte list list" where
  "collect f fs = Inr (fs @ [f])"

section \<open>Sending\<close>

text \<open>
  \<^verbatim>\<open>write(p)\<close>; \<open>tw\<close> is the transport's \<^verbatim>\<open>write\<close>, which returns how many bytes it took. The size is
  computed as an \<^verbatim>\<open>int\<close> and goes to the transport as a \<^verbatim>\<open>size_t\<close>.
\<close>

definition codec_write ::
  "(byte list \<Rightarrow> 'tr \<Rightarrow> nat \<times> 'tr) \<Rightarrow> codec \<Rightarrow> byte list \<Rightarrow> 'tr \<Rightarrow> fault + (bool \<times> 'tr)" where
  "codec_write tw c p tr =
     (if \<not> has_transport c then Inr (False, tr)
      else let size = (of_nat (length p) :: u32);
               (w1, tr1) = tw (bytes_u32 size) tr;
               n = unat (scast size :: u64)
           in if length p < n then Inl Out_of_bounds
              else let (w2, tr2) = tw (take n p) tr1
                   in Inr (w1 + w2 = length p + 4, tr2))"

definition encode_frame :: "byte list \<Rightarrow> byte list" where
  "encode_frame f = bytes_u32 (of_nat (length f)) @ f"

section \<open>The stream parser\<close>

text \<open>
  Specification of the receiving side, on the bytes of the stream not yet turned into frames: the
  complete frames at its front, and what is left. A zero length ends the parse; its four bytes
  are gone.
\<close>

function parse_stream :: "byte list \<Rightarrow> byte list list \<times> byte list" where
  "parse_stream bs =
     (if length bs < 4 then ([], bs)
      else let n = le_dec (take 4 bs); rest = drop 4 bs
           in if n = 0 then ([], rest)
              else if length rest < n then ([], bs)
              else let (fs, r) = parse_stream (drop n rest) in (take n rest # fs, r))"
  by pat_completeness auto
termination
  by (relation "measure length") auto

declare parse_stream.simps [simp del]

text \<open>The unparsed bytes a codec holds, with the length it has already taken off the buffer.\<close>

definition pending :: "codec \<Rightarrow> byte list" where
  "pending c = (if pack_size c = 0 then [] else bytes_u32 (pack_size c)) @ buffer c"

fun deliver_all :: "('f \<Rightarrow> 's \<Rightarrow> fault + 's) \<Rightarrow> 'f list \<Rightarrow> 's \<Rightarrow> fault + 's" where
  "deliver_all d [] s = Inr s"
| "deliver_all d (f # fs) s = andThen (d f s) (deliver_all d fs)"

lemma deliver_all_append:
  "deliver_all d (fs @ gs) s = andThen (deliver_all d fs s) (deliver_all d gs)"
proof (induction fs arbitrary: s)
  case Nil
  then show ?case by simp
next
  case (Cons f fs)
  then show ?case by (cases "d f s") simp_all
qed

lemma deliver_all_collect: "deliver_all collect fs acc = Inr (acc @ fs)"
  by (induction fs arbitrary: acc) (simp_all add: collect_def)

lemma has_transport_take_size [simp]: "has_transport (take_size c) = has_transport c"
  by (simp add: take_size_def)

lemma parse_stream_short: "length bs < 4 \<Longrightarrow> parse_stream bs = ([], bs)"
  by (simp add: parse_stream.simps)

lemma parse_stream_header:
  "parse_stream (bytes_u32 w @ rest) =
     (if w = 0 then ([], rest)
      else if length rest < unat w then ([], bytes_u32 w @ rest)
      else (take (unat w) rest # fst (parse_stream (drop (unat w) rest)),
            snd (parse_stream (drop (unat w) rest))))"
proof -
  have "unat w < 2 ^ 32" by (rule order.strict_trans2 [OF unsigned_less]) simp
  then have "le_dec (bytes_u32 w) = unat w" by (simp add: le_dec_le_enc)
  then show ?thesis
    by (subst parse_stream.simps) (simp add: Let_def case_prod_unfold unat_eq_zero)
qed

text \<open>
  After the first statement either no length is known - because too little is there, or because
  the length was zero - or the known length is the head of what was pending.
\<close>

lemma take_size_zero:
  assumes "pack_size (take_size c) = 0"
  shows "parse_stream (pending c) = ([], pending (take_size c))"
proof (cases "pack_size c = 0 \<and> length (buffer c) \<ge> 4")
  case True
  have "buffer c = bytes_u32 (u32_of (take 4 (buffer c))) @ drop 4 (buffer c)"
    using True by (simp add: unat_u32_of le_enc_le_dec')
  moreover have "u32_of (take 4 (buffer c)) = 0"
    using assms True by (simp add: take_size_def)
  ultimately have "parse_stream (buffer c) = ([], drop 4 (buffer c))"
    using parse_stream_header [of 0 "drop 4 (buffer c)"] by simp
  with True assms show ?thesis by (simp add: pending_def take_size_def)
next
  case False
  then have c: "take_size c = c" by (auto simp: take_size_def)
  with assms False have "pack_size c = 0" "length (buffer c) < 4" by auto
  then show ?thesis by (simp add: c pending_def parse_stream_short)
qed

lemma take_size_nonzero:
  assumes "pack_size (take_size c) \<noteq> 0"
  shows "pending c = bytes_u32 (pack_size (take_size c)) @ buffer (take_size c)"
  using assms by (auto simp: take_size_def pending_def unat_u32_of le_enc_le_dec')

text \<open>The loop implements the parser.\<close>

lemma codec_loop_parse:
  "\<exists>c'. pending c' = snd (parse_stream (pending c)) \<and> has_transport c' = has_transport c
     \<and> (\<forall>s. codec_loop d c s =
            andThen (deliver_all d (fst (parse_stream (pending c))) s) (\<lambda>s'. Inr (c', s')))"
proof (induction "length (pending c)" arbitrary: c rule: less_induct)
  case less
  let ?c1 = "take_size c"
  let ?n = "unat (pack_size ?c1)"
  let ?c2 = "?c1\<lparr>buffer := drop ?n (buffer ?c1), pack_size := 0\<rparr>"
  consider (zero) "pack_size ?c1 = 0"
    | (wait) "pack_size ?c1 \<noteq> 0" "length (buffer ?c1) < ?n"
    | (frame) "pack_size ?c1 \<noteq> 0" "?n \<le> length (buffer ?c1)"
    by linarith
  then show ?case
  proof cases
    case zero
    then have "codec_loop d c s = Inr (?c1, s)" for s by (simp add: codec_loop.simps)
    then show ?thesis using take_size_zero [OF zero] by (intro exI [of _ ?c1]) simp
  next
    case wait
    then have "codec_loop d c s = Inr (?c1, s)" for s by (simp add: codec_loop.simps)
    moreover have "pending ?c1 = pending c" using take_size_nonzero [OF wait(1)] wait(1)
      by (simp add: pending_def)
    ultimately show ?thesis using wait take_size_nonzero [OF wait(1)]
      by (intro exI [of _ ?c1]) (simp add: parse_stream_header)
  next
    case frame
    have p: "pending c = bytes_u32 (pack_size ?c1) @ buffer ?c1"
      using frame(1) by (rule take_size_nonzero)
    have p2: "pending ?c2 = drop ?n (buffer ?c1)" by (simp add: pending_def)
    have "length (pending ?c2) < length (pending c)" by (simp only: p p2) simp
    from less [OF this] obtain c' where c': "pending c' = snd (parse_stream (pending ?c2))"
      "has_transport c' = has_transport ?c2"
      "\<forall>s. codec_loop d ?c2 s =
         andThen (deliver_all d (fst (parse_stream (pending ?c2))) s) (\<lambda>s'. Inr (c', s'))"
      by blast
    have step: "codec_loop d c s =
        andThen (d (take ?n (buffer ?c1)) s) (\<lambda>s'. codec_loop d ?c2 s')" for s
      using frame by (subst codec_loop.simps) (simp add: Let_def)
    have parse: "parse_stream (pending c) =
        (take ?n (buffer ?c1) # fst (parse_stream (pending ?c2)), snd (parse_stream (pending ?c2)))"
      using frame by (simp add: p p2 parse_stream_header)
    show ?thesis
      using c' by (intro exI [of _ c']) (simp add: step parse andThen_assoc)
  qed
qed

lemma codec_feed_parse:
  "\<exists>c'. pending c' = snd (parse_stream (pending c @ data)) \<and> has_transport c' = has_transport c
     \<and> (\<forall>s. codec_feed d data c s =
            andThen (deliver_all d (fst (parse_stream (pending c @ data))) s) (\<lambda>s'. Inr (c', s')))"
proof -
  have "pending (c\<lparr>buffer := buffer c @ data\<rparr>) = pending c @ data" by (simp add: pending_def)
  then show ?thesis
    using codec_loop_parse [of "c\<lparr>buffer := buffer c @ data\<rparr>" d] by (simp add: codec_feed_def)
qed

section \<open>Streams of frames\<close>

text \<open>A frame that the wire format can carry: neither empty nor longer than the length field says.\<close>

definition frame_ok :: "byte list \<Rightarrow> bool" where
  "frame_ok f \<longleftrightarrow> f \<noteq> [] \<and> length f < 2 ^ 32"

definition encode_frames :: "byte list list \<Rightarrow> byte list" where
  "encode_frames fs = concat (map encode_frame fs)"

lemma encode_frames_simps [simp]:
  "encode_frames [] = []"
  "encode_frames (f # fs) = encode_frame f @ encode_frames fs"
  by (simp_all add: encode_frames_def)

lemma parse_stream_frame:
  assumes "frame_ok f"
  shows "parse_stream (encode_frame f @ rest) = (f # fst (parse_stream rest), snd (parse_stream rest))"
proof -
  have "unat (of_nat (length f) :: u32) = length f"
    using assms by (simp add: frame_ok_def unat_of_nat take_bit_eq_mod)
  moreover from this have "(of_nat (length f) :: u32) \<noteq> 0"
    using assms by (metis frame_ok_def length_0_conv unat_0)
  ultimately show ?thesis
    using parse_stream_header [of "of_nat (length f)" "f @ rest"] by (simp add: encode_frame_def)
qed

lemma parse_stream_frames:
  "list_all frame_ok fs \<Longrightarrow>
   parse_stream (encode_frames fs @ rest) = (fs @ fst (parse_stream rest), snd (parse_stream rest))"
  by (induction fs) (simp_all add: parse_stream_frame)

text \<open>
  A prefix of a stream of frames parses to the frames that are complete in it, and what is left
  continues with the rest of the stream to the remaining frames.
\<close>

lemma parse_stream_incomplete:
  assumes "frame_ok f" and "encode_frame f = a @ b" and "b \<noteq> []"
  shows "parse_stream a = ([], a)"
proof (cases "length a < 4")
  case True
  then show ?thesis by (rule parse_stream_short)
next
  case False
  let ?w = "of_nat (length f) :: u32"
  have w: "unat ?w = length f" "?w \<noteq> 0"
    using assms(1) by (auto simp: frame_ok_def unat_of_nat take_bit_eq_mod dest: arg_cong [of _ _ unat])
  have "a = take 4 a @ drop 4 a" by simp
  moreover have "take 4 (a @ b) = bytes_u32 ?w"
    using assms(2) by (simp add: encode_frame_def flip: assms(2))
  then have "take 4 a = bytes_u32 ?w" using False by simp
  ultimately have a: "a = bytes_u32 ?w @ drop 4 a" by simp
  have "length (a @ b) = 4 + length f" using assms(2) by (simp add: encode_frame_def flip: assms(2))
  then have "length (drop 4 a) < unat ?w"
    using False assms(3) w(1) by (cases b) auto
  then show ?thesis
    using parse_stream_header [of ?w "drop 4 a"] w(2) a by simp
qed

lemma parse_stream_prefix:
  assumes "list_all frame_ok fs" and "encode_frames fs = a @ b"
  shows "\<exists>ds es r. fs = ds @ es \<and> parse_stream a = (ds, r) \<and> r @ b = encode_frames es
     \<and> parse_stream r = ([], r)"
  using assms
proof (induction fs arbitrary: a)
  case Nil
  then show ?case by (simp add: parse_stream_short)
next
  case (Cons f fs)
  from Cons.prems have ok: "frame_ok f" and oks: "list_all frame_ok fs" by simp_all
  from Cons.prems(2) have "encode_frame f @ encode_frames fs = a @ b" by simp
  then consider (inside) m where "encode_frame f = a @ m" "m \<noteq> []" "m @ encode_frames fs = b"
    | (past) a' where "a = encode_frame f @ a'" "encode_frames fs = a' @ b"
    by (auto simp: append_eq_append_conv2) (metis append_Nil2 append_self_conv2)
  then show ?case
  proof cases
    case inside
    have "parse_stream a = ([], a)" using ok inside(1,2) by (rule parse_stream_incomplete)
    moreover have "a @ b = encode_frames (f # fs)" using inside by (simp flip: inside(3))
    ultimately show ?thesis
      by - (rule exI [of _ "[]"], rule exI [of _ "f # fs"], rule exI [of _ a], simp)
  next
    case past
    from Cons.IH [OF oks past(2)] obtain ds es r where
      "fs = ds @ es" "parse_stream a' = (ds, r)" "r @ b = encode_frames es"
      "parse_stream r = ([], r)" by blast
    with past(1) ok show ?thesis
      by (intro exI [of _ "f # ds"] exI [of _ es]) (simp add: parse_stream_frame)
  qed
qed

lemma parse_stream_Nil [simp]: "parse_stream [] = ([], [])"
  by (simp add: parse_stream_short)

lemma pending_eq_Nil: "pending c = [] \<longleftrightarrow> pack_size c = 0 \<and> buffer c = []"
  by (simp add: pending_def)

lemma pending_codec_new [simp]: "pending codec_new = []"
  by (simp add: pending_eq_Nil codec_new_def)

lemma codec_feeds_frames:
  assumes "list_all frame_ok fs" and "pending c @ concat chs = encode_frames fs"
    and "parse_stream (pending c) = ([], pending c)"
  shows "\<exists>c'. pending c' = [] \<and> has_transport c' = has_transport c
     \<and> (\<forall>s. codec_feeds d chs c s = andThen (deliver_all d fs s) (\<lambda>s'. Inr (c', s')))"
  using assms
proof (induction chs arbitrary: c fs)
  case Nil
  then have "fs = []"
    using parse_stream_frames [of fs "[]"] by simp
  with Nil show ?case by (intro exI [of _ c]) simp
next
  case (Cons ch chs)
  have "encode_frames fs = (pending c @ ch) @ concat chs" using Cons.prems(2) by simp
  from parse_stream_prefix [OF Cons.prems(1) this] obtain ds es r where
    fs: "fs = ds @ es" and p: "parse_stream (pending c @ ch) = (ds, r)"
    and r: "r @ concat chs = encode_frames es" "parse_stream r = ([], r)" by blast
  from codec_feed_parse [of c ch d] p obtain c1 where c1: "pending c1 = r"
    "has_transport c1 = has_transport c"
    "\<And>s. codec_feed d ch c s = andThen (deliver_all d ds s) (\<lambda>s'. Inr (c1, s'))"
    by auto
  have "list_all frame_ok es" using Cons.prems(1) fs by simp
  with r obtain c' where c': "pending c' = []" "has_transport c' = has_transport c1"
    "\<And>s. codec_feeds d chs c1 s = andThen (deliver_all d es s) (\<lambda>s'. Inr (c', s'))"
    using Cons.IH [of es c1] c1(1) r by auto
  have "codec_feeds d (ch # chs) c s = andThen (deliver_all d fs s) (\<lambda>s'. Inr (c', s'))" for s
    by (cases "deliver_all d ds s") (simp_all add: c1(3) c'(3) fs deliver_all_append)
  with c' c1(2) show ?case by (intro exI [of _ c']) simp
qed

lemma codec_feeds_collect:
  assumes "list_all frame_ok fs" and "concat chunks = encode_frames fs"
  shows "codec_feeds collect chunks codec_new [] = Inr (codec_new, fs)"
proof -
  obtain c' where c': "pending c' = []" "has_transport c' = has_transport codec_new"
    "codec_feeds collect chunks codec_new [] = Inr (c', fs)"
    using codec_feeds_frames [of fs codec_new chunks collect] assms
    by (auto simp: deliver_all_collect)
  from c'(1,2) have "c' = codec_new" by (simp add: pending_eq_Nil codec_new_def)
  with c'(3) show ?thesis by simp
qed

section \<open>The transport's contract\<close>

lemma scast_size:
  assumes "m < 2 ^ 31"
  shows "unat (scast (of_nat m :: u32) :: u64) = m"
proof -
  have "sint (of_nat m :: u32) = int m"
    using assms by (simp add: signed_of_nat signed_take_bit_int_eq_self)
  then have "(of_int (sint (of_nat m :: u32)) :: u64) = of_nat m" by simp
  then have "(scast (of_nat m :: u32) :: u64) = of_nat m" by (simp only: of_int_sint)
  then show ?thesis using assms by (simp add: unat_of_nat take_bit_eq_mod)
qed

text \<open>
  What the codec relies on in \<^verbatim>\<open>reliable_bytestream_base::write\<close>: \<open>sent\<close> is the byte stream the
  transport has taken so far; a write takes a prefix of its data and returns how long it is.
\<close>

locale bytestream =
  fixes tw :: "byte list \<Rightarrow> 'tr \<Rightarrow> nat \<times> 'tr"
    and sent :: "'tr \<Rightarrow> byte list"
  assumes write_le: "tw d tr = (n, tr') \<Longrightarrow> n \<le> length d"
    and write_sent: "tw d tr = (n, tr') \<Longrightarrow> sent tr' = sent tr @ take n d"
begin

lemma codec_write_parts:
  assumes "has_transport c" and "length p < 2 ^ 31"
  obtains w1 tr1 w2 tr2 where "tw (bytes_u32 (of_nat (length p))) tr = (w1, tr1)"
    and "tw p tr1 = (w2, tr2)" and "w1 \<le> 4" and "w2 \<le> length p"
    and "codec_write tw c p tr = Inr (w1 + w2 = length p + 4, tr2)"
    and "sent tr2 = sent tr @ take w1 (bytes_u32 (of_nat (length p))) @ take w2 p"
proof -
  obtain w1 tr1 where w1: "tw (bytes_u32 (of_nat (length p))) tr = (w1, tr1)" by fastforce
  obtain w2 tr2 where w2: "tw p tr1 = (w2, tr2)" by fastforce
  have "codec_write tw c p tr = Inr (w1 + w2 = length p + 4, tr2)"
    using assms w1 w2 by (simp add: codec_write_def scast_size)
  with that w1 w2 write_le [OF w1] write_le [OF w2] write_sent [OF w1] write_sent [OF w2]
  show ?thesis by simp
qed

text \<open>A write that reports success put the whole frame on the stream, and nothing else.\<close>

lemma codec_write_True:
  assumes "codec_write tw c p tr = Inr (True, tr')" and "length p < 2 ^ 31"
  shows "sent tr' = sent tr @ encode_frame p"
proof -
  have "has_transport c" using assms(1) by (auto simp: codec_write_def split: if_splits)
  then obtain w1 tr1 w2 tr2 where w: "w1 \<le> 4" "w2 \<le> length p"
    and cw: "codec_write tw c p tr = Inr (w1 + w2 = length p + 4, tr2)"
    and st: "sent tr2 = sent tr @ take w1 (bytes_u32 (of_nat (length p))) @ take w2 p"
    using assms(2) by (rule codec_write_parts) blast
  from cw assms(1) have "w1 + w2 = length p + 4" and "tr2 = tr'" by simp_all
  moreover from this w have "w1 = 4" "w2 = length p" by simp_all
  ultimately show ?thesis using st by (simp add: encode_frame_def)
qed

text \<open>A write that reports failure left an incomplete frame, or nothing.\<close>

lemma codec_write_False:
  assumes "codec_write tw c p tr = Inr (False, tr')" and "length p < 2 ^ 31"
  shows "\<exists>w1 w2. w1 \<le> 4 \<and> w2 \<le> length p \<and> w1 + w2 < length p + 4
     \<and> sent tr' = sent tr @ take w1 (bytes_u32 (of_nat (length p))) @ take w2 p"
proof (cases "has_transport c")
  case True
  obtain w1 tr1 w2 tr2 where w: "w1 \<le> 4" "w2 \<le> length p"
    and cw: "codec_write tw c p tr = Inr (w1 + w2 = length p + 4, tr2)"
    and st: "sent tr2 = sent tr @ take w1 (bytes_u32 (of_nat (length p))) @ take w2 p"
    using True assms(2) by (rule codec_write_parts) blast
  from cw assms(1) have "w1 + w2 \<noteq> length p + 4" and "tr2 = tr'" by simp_all
  with w st show ?thesis by - (rule exI [of _ w1], rule exI [of _ w2], simp)
next
  case False
  then have "tr' = tr" using assms(1) by (simp add: codec_write_def)
  then show ?thesis by - (rule exI [of _ 0], rule exI [of _ 0], simp)
qed

end

section \<open>Properties\<close>

text \<open>
  C9: the receiving loop implements the stream parser: a chunk, fed to a codec that holds pending
  bytes, delivers exactly the frames that the parser finds in the pending bytes followed by the
  chunk, in order and up to the first callback that faults, and leaves pending what the parser
  leaves over.
\<close>

theorem codec_feed_refines_parser:
  "\<exists>c'. pending c' = snd (parse_stream (pending c @ data))
     \<and> (\<forall>s. codec_feed d data c s =
            andThen (deliver_all d (fst (parse_stream (pending c @ data))) s) (\<lambda>s'. Inr (c', s')))"
  using codec_feed_parse [of c data d] by blast

text \<open>
  C20: however the transport cuts the stream into chunks, a stream of frames is received as exactly
  those frames, each once and in order, and afterwards the codec is back in its initial state.
\<close>

theorem codec_chunking_irrelevant:
  assumes "list_all frame_ok fs" and "concat chunks = encode_frames fs"
  shows "codec_feeds collect chunks codec_new [] = Inr (codec_new, fs)"
  using assms by (rule codec_feeds_collect)

theorem codec_chunking_irrelevant_witness:
  "codec_feeds collect [[2, 0], [0, 0, 7], [8, 1, 0, 0, 0, 9]] codec_new []
     = Inr (codec_new, [[7, 8], [9]])"
  by (rule codec_chunking_irrelevant) (simp_all add: frame_ok_def encode_frame_def eval_bytes)

text \<open>
  A frame of length zero holds up the frames behind it. Received in one chunk with the next
  frame, nothing is delivered; the same bytes in two chunks deliver that frame.
\<close>

theorem zero_length_frame_stalls:
  assumes "frame_ok f"
  shows "(\<exists>c. codec_feed collect (replicate 4 0 @ encode_frame f) codec_new [] = Inr (c, []))
       \<and> codec_feeds collect [replicate 4 0, encode_frame f] codec_new [] = Inr (codec_new, [f])"
proof
  have "parse_stream (replicate 4 0 @ encode_frame f) = ([], encode_frame f)"
    using parse_stream_header [of 0 "encode_frame f"] by simp
  then show "\<exists>c. codec_feed collect (replicate 4 0 @ encode_frame f) codec_new [] = Inr (c, [])"
    using codec_feed_parse [of codec_new "replicate 4 0 @ encode_frame f" collect] by auto
  have "parse_stream (replicate 4 0) = ([], [])"
    using parse_stream_header [of 0 "[]"] by simp
  then obtain c1 where c1: "pending c1 = []" "has_transport c1 = has_transport codec_new"
    "codec_feed collect (replicate 4 0) codec_new [] = Inr (c1, [])"
    using codec_feed_parse [of codec_new "replicate 4 0" collect] by auto
  from c1(1,2) have new: "c1 = codec_new" by (simp add: pending_eq_Nil codec_new_def)
  have "codec_feeds collect [encode_frame f] codec_new [] = Inr (codec_new, [f])"
    using assms by (intro codec_feeds_collect) simp_all
  then show "codec_feeds collect [replicate 4 0, encode_frame f] codec_new [] = Inr (codec_new, [f])"
    using c1(3) by (simp add: new)
qed

theorem zero_length_frame_stalls_witness:
  "frame_ok [5] \<and>
   codec_feeds collect [[0, 0, 0, 0], [1, 0, 0, 0, 5]] codec_new [] = Inr (codec_new, [[5]])"
  using zero_length_frame_stalls [of "[5]"]
  by (simp add: frame_ok_def encode_frame_def eval_bytes del: codec_feeds.simps)

end
