(* ===== verification/Dispatcher.thy ===== *)
theory Dispatcher
  imports Ipc_Package Package_Codec "HOL-Library.Multiset"
begin

unbundle bit_operations_syntax

text \<open>
  Requests and replies over frames: class \<^verbatim>\<open>request_reply_dispatcher\<close> (\<^verbatim>\<open>package_stream.h\<close>,
  \<^verbatim>\<open>package_stream.cpp\<close>). A frame is a 16-bit message id followed by a packet; the highest bit of
  the id marks a reply, and id 0 a packet nobody waits for. Packets made with \<^verbatim>\<open>new\<close> live in a heap
  (\<open>pkgs\<close>) under addresses, since requests are known by their address.

  \<^verbatim>\<open>send\<close> blocks, and is modelled as the two critical sections of the mutex \<^verbatim>\<open>senders_mutex\<close> it
  consists of: up to the wait on the condition variable, and from the wake-up on. The relation
  \<open>rr_step\<close> interleaves them with the receiving thread. \<open>w\<close> stands for \<^verbatim>\<open>package_codec::write\<close>.
\<close>

section \<open>State and message ids\<close>

type_synonym msgid = u16
type_synonym addr = nat

record dispatcher =
  in_package :: package
  next_msgid :: msgid
  response_received :: "msgid \<Rightarrow> bool option"
  request_msgids :: "addr \<Rightarrow> msgid option"
  released :: "msgid list"
  pkgs :: "addr \<Rightarrow> package option"
  next_addr :: addr

definition reply_flag :: msgid where
  "reply_flag = push_bit 15 1"

definition generate_msgid :: "dispatcher \<Rightarrow> msgid \<times> dispatcher" where
  "generate_msgid d =
     (if released d \<noteq> [] then (last (released d), d\<lparr>released := butlast (released d)\<rparr>)
      else (next_msgid d, d\<lparr>next_msgid := next_msgid d + 1\<rparr>))"

definition release_msgid :: "msgid \<Rightarrow> dispatcher \<Rightarrow> dispatcher" where
  "release_msgid m d = d\<lparr>released := released d @ [m]\<rparr>"

text \<open>The constructor burns id 0.\<close>

definition dispatcher_new :: dispatcher where
  "dispatcher_new = snd (generate_msgid
     \<lparr>in_package = package_new, next_msgid = 0, response_received = Map.empty,
      request_msgids = Map.empty, released = [], pkgs = Map.empty, next_addr = 0\<rparr>)"

section \<open>Operations\<close>

text \<open>
  \<^verbatim>\<open>process_notification(p)\<close>. The result names the packet passed to the listener, if one is. The id
  is copied out of the frame before its size is tested, so a frame of less than two bytes is read
  out of bounds; assigning a reply without header to \<^verbatim>\<open>in\<close> reads its header out of bounds.
\<close>

definition dispatch :: "byte list \<Rightarrow> dispatcher \<Rightarrow> fault + (dispatcher \<times> addr option)" where
  "dispatch p d =
     (if length p < 2 then Inl Out_of_bounds
      else let m = u16_of (take 2 p);
               res = package_new;
               res = res\<lparr>vec := vec_resize (length p - 2) (vec res)\<rparr>;
               res = res\<lparr>vec := memcpy_at 0 (drop 2 p) (vec res)\<rparr>;
               is_reply = (m AND reply_flag \<noteq> 0);
               m = m AND NOT reply_flag;
               a = next_addr d;
               alloc = d\<lparr>pkgs := (pkgs d)(a \<mapsto> res), next_addr := Suc a\<rparr>
           in if m \<noteq> 0
              then if is_reply
                   then if \<not> has_header res then Inl Out_of_bounds
                        else Inr (d\<lparr>in_package := package_assign (in_package d) res,
                                    response_received := (response_received d)(m \<mapsto> True),
                                    next_addr := Suc a\<rparr>, None)
                   else Inr (alloc\<lparr>request_msgids := (request_msgids alloc)(a \<mapsto> m)\<rparr>, Some a)
              else Inr (alloc, Some a))"

text \<open>\<^verbatim>\<open>write(p, msgid)\<close> sends this frame.\<close>

definition message :: "package \<Rightarrow> msgid \<Rightarrow> byte list" where
  "message p m = bytes_u16 m @ vec p"

definition dispatcher_write ::
  "(byte list \<Rightarrow> 'tr \<Rightarrow> fault + (bool \<times> 'tr)) \<Rightarrow> package \<Rightarrow> 'tr \<Rightarrow> fault + (bool \<times> 'tr)" where
  "dispatcher_write w p tr = w (message p 0) tr"

text \<open>\<^verbatim>\<open>send\<close> up to the wait: the id to wait for, or \<open>None\<close> for the return value \<^verbatim>\<open>false\<close>.\<close>

definition send_begin ::
  "(byte list \<Rightarrow> 'tr \<Rightarrow> fault + (bool \<times> 'tr)) \<Rightarrow> package \<Rightarrow> dispatcher \<Rightarrow> 'tr
     \<Rightarrow> fault + (msgid option \<times> dispatcher \<times> 'tr)" where
  "send_begin w req d tr =
     (let req = package_copy req;
          (m, d) = generate_msgid d;
          d = d\<lparr>response_received := (response_received d)(m \<mapsto> False)\<rparr>
      in andThen (w (message req m) tr) (\<lambda>(ok, tr).
           if ok then Inr (Some m, d, tr) else Inr (None, release_msgid m d, tr)))"

text \<open>\<^verbatim>\<open>send\<close> from the wake-up on; the loop has seen \<^verbatim>\<open>sender_response_received[msgid]\<close> true.\<close>

definition send_finish :: "msgid \<Rightarrow> package \<Rightarrow> dispatcher \<Rightarrow> package \<times> dispatcher" where
  "send_finish m resp d =
     (let d = release_msgid m d in (package_assign resp (in_package d), d))"

definition reply ::
  "(byte list \<Rightarrow> 'tr \<Rightarrow> fault + (bool \<times> 'tr)) \<Rightarrow> addr \<Rightarrow> package \<Rightarrow> dispatcher \<Rightarrow> 'tr
     \<Rightarrow> fault + (bool \<times> dispatcher \<times> 'tr)" where
  "reply w req rep d tr =
     (case request_msgids d req of
        None \<Rightarrow> Inr (False, d, tr)
      | Some m \<Rightarrow>
          andThen (w (message rep (m OR reply_flag)) tr) (\<lambda>(ok, tr).
            Inr (ok, d\<lparr>request_msgids := (request_msgids d)(req := None),
                       pkgs := (pkgs d)(req := None)\<rparr>, tr)))"

section \<open>Messages\<close>

lemma reply_flag_eq: "reply_flag = 32768"
  by (simp add: reply_flag_def)

text \<open>The ids a request may carry: not zero and without the reply bit.\<close>

definition request_id :: "msgid \<Rightarrow> bool" where
  "request_id m \<longleftrightarrow> m \<noteq> 0 \<and> m AND reply_flag = 0"

lemma bit_reply_flag: "bit reply_flag i \<longleftrightarrow> i = 15"
  unfolding reply_flag_def by (auto simp only: bit_push_bit_iff bit_1_iff) simp_all

lemma bit_15: "bit i 15 \<longleftrightarrow> (i :: msgid) AND reply_flag \<noteq> 0"
  unfolding reply_flag_def by (rule bit_iff_and_push_bit_not_eq_0)

lemma flag_bits:
  assumes "m AND reply_flag = (0 :: msgid)"
  shows "(m OR reply_flag) AND reply_flag = reply_flag" and "(m OR reply_flag) AND NOT reply_flag = m"
    and "m AND NOT reply_flag = m"
proof -
  have b: "\<not> bit m 15" using assms by (simp only: bit_15)
  show "(m OR reply_flag) AND reply_flag = reply_flag"
    by (rule bit_word_eqI) (auto simp: bit_simps)
  have nb: "bit m i \<Longrightarrow> i \<noteq> 15" for i using b by auto
  show "(m OR reply_flag) AND NOT reply_flag = m" and "m AND NOT reply_flag = m"
    by (rule bit_word_eqI, auto simp: bit_simps bit_reply_flag dest: nb)+
qed

lemma reply_flag_nonzero [simp]: "reply_flag \<noteq> 0"
  by (simp add: reply_flag_eq)

lemma memcpy_resize [simp]: "memcpy_at 0 xs (vec_resize (length xs) ys) = xs"
  by (simp add: memcpy_at_def)

lemma memcpy_resize_drop [simp]: "memcpy_at 0 (drop k xs) (vec_resize (length xs - k) ys) = drop k xs"
  by (simp add: memcpy_at_def)

lemma package_vec_update [simp]: "(p :: package)\<lparr>vec := v\<rparr> = \<lparr>vec = v\<rparr>"
  by (cases p) simp

lemma dispatch_message:
  "dispatch (message q m) d =
     (let a = next_addr d;
          alloc = d\<lparr>pkgs := (pkgs d)(a \<mapsto> q), next_addr := Suc a\<rparr>;
          m' = m AND NOT reply_flag
      in if m' = 0 then Inr (alloc, Some a)
         else if m AND reply_flag = 0
           then Inr (alloc\<lparr>request_msgids := (request_msgids d)(a \<mapsto> m')\<rparr>, Some a)
         else if \<not> has_header q then Inl Out_of_bounds
         else Inr (d\<lparr>in_package := package_assign (in_package d) q,
                     response_received := (response_received d)(m' \<mapsto> True),
                     next_addr := Suc a\<rparr>, None))"
  by (cases q) (simp add: dispatch_def message_def Let_def)

lemma dispatch_request:
  assumes "request_id m"
  shows "dispatch (message q m) d =
     Inr (d\<lparr>pkgs := (pkgs d)(next_addr d \<mapsto> q), next_addr := Suc (next_addr d),
            request_msgids := (request_msgids d)(next_addr d \<mapsto> m)\<rparr>, Some (next_addr d))"
  using assms by (simp add: dispatch_message request_id_def flag_bits(3) Let_def)

lemma dispatch_reply:
  assumes "request_id m" and "has_header q"
  shows "dispatch (message q (m OR reply_flag)) d =
     Inr (d\<lparr>in_package := package_assign (in_package d) q,
            response_received := (response_received d)(m \<mapsto> True),
            next_addr := Suc (next_addr d)\<rparr>, None)"
  using assms by (simp add: dispatch_message request_id_def flag_bits Let_def)

lemma dispatch_plain:
  "dispatch (message q 0) d =
     Inr (d\<lparr>pkgs := (pkgs d)(next_addr d \<mapsto> q), next_addr := Suc (next_addr d)\<rparr>, Some (next_addr d))"
  by (simp add: dispatch_message Let_def)

section \<open>Senders, the receiver and repliers in any order\<close>

text \<open>
  A system is the dispatcher, the threads blocked in \<^verbatim>\<open>send\<close> with the id each waits for, the packets
  that returned from \<^verbatim>\<open>send\<close>, and the frames written. A frame is written whole or the codec
  reports failure; which of the two happens is part of the event.
\<close>

type_synonym thread = nat

record rr_system =
  disp :: dispatcher
  waiting :: "(thread \<times> msgid) list"
  results :: "(thread \<times> package) list"
  outgoing :: "byte list list"

definition rr_init :: rr_system where
  "rr_init = \<lparr>disp = dispatcher_new, waiting = [], results = [], outgoing = []\<rparr>"

definition env_write :: "bool \<Rightarrow> byte list \<Rightarrow> byte list list \<Rightarrow> fault + (bool \<times> byte list list)" where
  "env_write ok f out = Inr (ok, if ok then out @ [f] else out)"

datatype rr_event = Send thread package bool | Recv "byte list" | Wake thread | Reply addr package bool

inductive rr_step :: "rr_system \<Rightarrow> rr_event \<Rightarrow> rr_system \<Rightarrow> bool" where
  send: "t \<notin> fst ` set (waiting s)
    \<Longrightarrow> send_begin (env_write True) req (disp s) (outgoing s) = Inr (Some m, d, out)
    \<Longrightarrow> rr_step s (Send t req True) (s\<lparr>disp := d, waiting := waiting s @ [(t, m)], outgoing := out\<rparr>)"
| send_failed: "t \<notin> fst ` set (waiting s)
    \<Longrightarrow> send_begin (env_write False) req (disp s) (outgoing s) = Inr (None, d, out)
    \<Longrightarrow> rr_step s (Send t req False) (s\<lparr>disp := d, outgoing := out\<rparr>)"
| recv: "dispatch f (disp s) = Inr (d, n) \<Longrightarrow> rr_step s (Recv f) (s\<lparr>disp := d\<rparr>)"
| wake: "(t, m) \<in> set (waiting s) \<Longrightarrow> response_received (disp s) m = Some True
    \<Longrightarrow> send_finish m resp (disp s) = (p, d)
    \<Longrightarrow> rr_step s (Wake t) (s\<lparr>disp := d, waiting := filter (\<lambda>x. fst x \<noteq> t) (waiting s),
                              results := results s @ [(t, p)]\<rparr>)"
| reply: "reply (env_write ok) a rep (disp s) (outgoing s) = Inr (b, d, out)
    \<Longrightarrow> rr_step s (Reply a rep ok) (s\<lparr>disp := d, outgoing := out\<rparr>)"

text \<open>Runs in which never more than \<open>n\<close> threads are inside \<^verbatim>\<open>send\<close> at once.\<close>

inductive rr_reach :: "nat \<Rightarrow> rr_system \<Rightarrow> bool" for n where
  start: "rr_reach n rr_init"
| step: "rr_reach n s \<Longrightarrow> rr_step s e s' \<Longrightarrow> (\<And>t req ok. e = Send t req ok \<Longrightarrow> length (waiting s) < n)
    \<Longrightarrow> rr_reach n s'"

text \<open>
  Every id below the next fresh one is either free or held by exactly one waiting thread.
\<close>

definition ids_ok :: "nat \<Rightarrow> rr_system \<Rightarrow> bool" where
  "ids_ok n s \<longleftrightarrow> distinct (map fst (waiting s))
     \<and> mset (released (disp s)) + mset (map snd (waiting s))
         = mset (map of_nat [1..<unat (next_msgid (disp s))])
     \<and> 1 \<le> unat (next_msgid (disp s)) \<and> unat (next_msgid (disp s)) \<le> Suc n"

lemma generate_msgid_ids:
  assumes "generate_msgid d = (m, d')" and "unat (next_msgid d) + 1 < 2 ^ 16"
    and "mset (released d) + W = mset (map of_nat [1..<unat (next_msgid d)])"
    and "1 \<le> unat (next_msgid d)"
  shows "add_mset m (mset (released d') + W) = mset (map of_nat [1..<unat (next_msgid d')])
     \<and> 1 \<le> unat (next_msgid d')
     \<and> unat (next_msgid d') \<le> max (unat (next_msgid d)) (size W + 2)"
proof (cases "released d = []")
  case True
  with assms(1) have d': "m = next_msgid d" "next_msgid d' = next_msgid d + 1" "released d' = []"
    by (auto simp: generate_msgid_def)
  have next': "unat (next_msgid d + 1) = Suc (unat (next_msgid d))"
    using assms(2) by (simp add: unat_word_ariths)
  have "size W = unat (next_msgid d) - 1"
    using arg_cong [OF assms(3), of size] True by simp
  with assms(3,4) True show ?thesis
    by (simp add: d' next')
next
  case False
  with assms(1) have d': "m = last (released d)" "next_msgid d' = next_msgid d"
    "released d' = butlast (released d)"
    by (auto simp: generate_msgid_def)
  have "mset (released d) = add_mset m (mset (released d'))"
    using False d' by (metis append_butlast_last_id mset.simps mset_append union_mset_add_mset_right add.right_neutral)
  with assms(3,4) show ?thesis by (simp add: d'(2))
qed

lemma mset_remove_thread:
  assumes "distinct (map fst w)" and "(t, m) \<in> set w"
  shows "mset (map snd w) = add_mset m (mset (map snd (filter (\<lambda>x. fst x \<noteq> t) w)))"
  using assms
proof (induction w)
  case Nil
  then show ?case by simp
next
  case (Cons x w)
  show ?case
  proof (cases "fst x = t")
    case True
    with Cons.prems(1) have fresh: "t \<notin> fst ` set w" by auto
    with Cons.prems(2) have "x = (t, m)" by (metis fst_conv image_eqI set_ConsD)
    moreover have "filter (\<lambda>x. fst x \<noteq> t) w = w"
      using fresh by (metis (mono_tags, lifting) filter_True imageI)
    ultimately show ?thesis by simp
  next
    case False
    with Cons show ?thesis by auto
  qed
qed

lemma send_begin_env:
  "send_begin (env_write ok) req d out =
     (let (m, d') = generate_msgid d;
          d' = d'\<lparr>response_received := (response_received d')(m \<mapsto> False)\<rparr>
      in if ok then Inr (Some m, d', out @ [message (package_copy req) m])
         else Inr (None, release_msgid m d', out))"
  by (simp add: send_begin_def env_write_def case_prod_unfold Let_def)

lemma dispatch_ids:
  "dispatch f d = Inr (d', n) \<Longrightarrow> released d' = released d \<and> next_msgid d' = next_msgid d"
  by (auto simp: dispatch_def Let_def split: if_splits)

lemma reply_ids:
  "reply (env_write ok) a rep d out = Inr (b, d', out') \<Longrightarrow>
     released d' = released d \<and> next_msgid d' = next_msgid d
     \<and> response_received d' = response_received d"
  by (auto simp: reply_def env_write_def split: option.splits)

lemma generate_msgid_frame:
  "generate_msgid d = (m, d') \<Longrightarrow> response_received d' = response_received d \<and> in_package d' = in_package d"
  by (auto simp: generate_msgid_def split: if_splits)

lemma rr_step_ids_ok:
  assumes "rr_step s e s'" and "ids_ok n s" and "n < 2 ^ 15"
    and room: "\<And>t req ok. e = Send t req ok \<Longrightarrow> length (waiting s) < n"
  shows "ids_ok n s'"
  using assms(1)
proof cases
  case (send t req m d out)
  obtain m' d' where g: "generate_msgid (disp s) = (m', d')" by fastforce
  have W: "size (mset (map snd (waiting s))) < n" using room [OF send(1)] by simp
  with assms(2,3) have "unat (next_msgid (disp s)) + 1 < 2 ^ 16" by (simp add: ids_ok_def)
  from generate_msgid_ids [OF g this, of "mset (map snd (waiting s))"] assms(2) W send g
  show ?thesis by (auto simp: ids_ok_def send_begin_env)
next
  case (send_failed t req d out)
  obtain m' d' where g: "generate_msgid (disp s) = (m', d')" by fastforce
  have W: "size (mset (map snd (waiting s))) < n" using room [OF send_failed(1)] by simp
  with assms(2,3) have "unat (next_msgid (disp s)) + 1 < 2 ^ 16" by (simp add: ids_ok_def)
  from generate_msgid_ids [OF g this, of "mset (map snd (waiting s))"] assms(2) W send_failed g
  show ?thesis by (auto simp: ids_ok_def send_begin_env release_msgid_def)
next
  case (recv f d k)
  with assms(2) show ?thesis by (auto simp: ids_ok_def dest: dispatch_ids)
next
  case (wake t m resp p d)
  have d: "released d = released (disp s) @ [m]" "next_msgid d = next_msgid (disp s)"
    using wake by (auto simp: send_finish_def release_msgid_def)
  have "mset (map snd (waiting s)) =
      add_mset m (mset (map snd (filter (\<lambda>x. fst x \<noteq> t) (waiting s))))"
    using assms(2) wake by (intro mset_remove_thread) (simp_all add: ids_ok_def)
  then show ?thesis using assms(2) wake(2) by (simp add: ids_ok_def d distinct_map_filter)
next
  case (reply ok a rep b d out)
  with assms(2) show ?thesis by (auto simp: ids_ok_def dest: reply_ids)
qed

lemma rr_reach_ids_ok:
  assumes "rr_reach n s" and "n < 2 ^ 15"
  shows "ids_ok n s"
  using assms(1)
proof induction
  case start
  show ?case
    by (simp add: ids_ok_def rr_init_def dispatcher_new_def generate_msgid_def)
next
  case (step s e s')
  show ?case by (rule rr_step_ids_ok [OF step.hyps(2) step.IH assms(2) step.hyps(3)])
qed

lemma request_id_small:
  assumes "0 < unat m" and "unat m < 2 ^ 15"
  shows "request_id m"
proof -
  have "unat m div 2 ^ 15 = 0" using assms(2) by simp
  then have "\<not> bit (unat m) 15" by (simp only: bit_iff_odd) simp
  then have "\<not> bit m 15" by (simp add: bit_unsigned_iff)
  then have "m AND reply_flag = 0" using bit_15 [of m] by blast
  moreover from assms(1) have "m \<noteq> 0" by auto
  ultimately show ?thesis by (simp add: request_id_def)
qed

lemma ids_okD:
  assumes "ids_ok n s" and "n < 2 ^ 15" and "(t, m) \<in> set (waiting s)"
  shows "request_id m" and "unat m \<le> n" and "m \<notin> set (released (disp s))"
    and "distinct (map snd (waiting s))"
proof -
  let ?k = "unat (next_msgid (disp s))"
  let ?ids = "map of_nat [1..<?k] :: msgid list"
  have k: "?k \<le> Suc n" and
    eq: "mset (released (disp s) @ map snd (waiting s)) = mset ?ids"
    using assms(1) by (simp_all add: ids_ok_def)
  have small: "unat (of_nat i :: msgid) = i" if "i < ?k" for i
    using that k assms(2) by (simp add: unat_of_nat take_bit_eq_mod)
  have "distinct ?ids"
    by (auto simp: distinct_map intro!: inj_onI) (metis small)
  then have dist: "distinct (released (disp s) @ map snd (waiting s))"
    using eq by (metis mset_eq_imp_distinct_iff)
  then show "distinct (map snd (waiting s))" by simp
  show "m \<notin> set (released (disp s))" using dist assms(3) by force
  have "m \<in># mset (released (disp s) @ map snd (waiting s))" using assms(3) by force
  then have "m \<in> set ?ids" by (simp only: eq set_mset_mset)
  then obtain i where "m = of_nat i" "1 \<le> i" "i < ?k" by auto
  then have "unat m = i" using small by simp
  with \<open>1 \<le> i\<close> \<open>i < ?k\<close> k show "unat m \<le> n" by simp
  with assms(2) \<open>unat m = i\<close> \<open>1 \<le> i\<close> show "request_id m" by (intro request_id_small) simp_all
qed

lemma u16_of_take_message:
  assumes "2 \<le> length f"
  shows "f = message \<lparr>vec = drop 2 f\<rparr> (u16_of (take 2 f))"
proof -
  have "unat (u16_of (take 2 f)) = le_dec (take 2 f)"
    by (rule unat_word_le_dec [of _ 2]) (use assms in simp_all)
  moreover have "le_enc 2 (le_dec (take 2 f)) = take 2 f"
    by (rule le_enc_le_dec') (use assms in simp)
  ultimately show ?thesis by (simp add: message_def)
qed

text \<open>A frame that changes what a sender waits for is a reply with the sender's id.\<close>

lemma dispatch_response_received:
  assumes "dispatch f d = Inr (d', a)" and "response_received d' m \<noteq> response_received d m"
  shows "\<exists>q. f = message q (m OR reply_flag)"
proof -
  have len: "2 \<le> length f" using assms(1) by (auto simp: dispatch_def split: if_splits)
  let ?i = "u16_of (take 2 f)"
  have "?i AND reply_flag \<noteq> 0" "m = ?i AND NOT reply_flag"
    using assms by (auto simp: dispatch_def Let_def split: if_splits)
  moreover have "(i AND NOT reply_flag) OR reply_flag = i" if "i AND reply_flag \<noteq> 0" for i :: msgid
  proof -
    have "bit i 15" using that bit_15 [of i] by blast
    then show ?thesis by (intro bit_word_eqI) (auto simp: bit_simps bit_reply_flag)
  qed
  ultimately have "?i = m OR reply_flag" by simp
  with u16_of_take_message [OF len] show ?thesis by auto
qed

text \<open>A run for the examples: thread 1 asks, thread 2 asks.\<close>

definition rr_one :: rr_system where
  "rr_one = \<lparr>disp = dispatcher_new\<lparr>next_msgid := 2, response_received := [1 \<mapsto> False]\<rparr>,
     waiting = [(1, 1)], results = [], outgoing = [message (package_copy package_new) 1]\<rparr>"

lemma dispatcher_new_eq:
  "dispatcher_new = \<lparr>in_package = package_new, next_msgid = 1, response_received = Map.empty,
      request_msgids = Map.empty, released = [], pkgs = Map.empty, next_addr = 0\<rparr>"
  by (simp add: dispatcher_new_def generate_msgid_def)

lemma rr_one_reachable: "rr_reach 2 rr_one"
proof (rule rr_reach.step [OF rr_reach.start])
  show "rr_step rr_init (Send 1 package_new True) rr_one"
    using rr_step.send [of 1 rr_init package_new 1 "disp rr_one" "outgoing rr_one"]
    by (simp add: rr_init_def rr_one_def send_begin_env dispatcher_new_eq generate_msgid_def)
qed (simp add: rr_init_def)

section \<open>Packets and their addresses\<close>

text \<open>No request is known under an address still to be given out.\<close>

definition fresh_addrs :: "dispatcher \<Rightarrow> bool" where
  "fresh_addrs d \<longleftrightarrow> (\<forall>a \<ge> next_addr d. request_msgids d a = None)"

text \<open>The packet at an address is allocated, and no message id is kept for it.\<close>

definition abandoned :: "addr \<Rightarrow> dispatcher \<Rightarrow> bool" where
  "abandoned a d \<longleftrightarrow> a < next_addr d \<and> pkgs d a \<noteq> None \<and> request_msgids d a = None"

lemma generate_msgid_pkgs:
  "generate_msgid d = (m, d') \<Longrightarrow>
     pkgs d' = pkgs d \<and> next_addr d' = next_addr d \<and> request_msgids d' = request_msgids d"
  by (auto simp: generate_msgid_def split: if_splits)

lemma rr_step_pkgs:
  assumes "rr_step s e s'"
  shows "(fresh_addrs (disp s) \<longrightarrow> fresh_addrs (disp s')) \<and> (abandoned a (disp s) \<longrightarrow> abandoned a (disp s'))"
  using assms
proof cases
  case (send t req m d out)
  then show ?thesis
    by (auto simp: send_begin_env Let_def fresh_addrs_def abandoned_def dest: generate_msgid_pkgs
        split: prod.splits)
next
  case (send_failed t req d out)
  then show ?thesis
    by (auto simp: send_begin_env Let_def release_msgid_def fresh_addrs_def abandoned_def
        dest: generate_msgid_pkgs split: prod.splits)
next
  case (recv f d n)
  from recv(3) show ?thesis
    by (auto simp: recv(2) dispatch_def fresh_addrs_def abandoned_def Let_def less_Suc_eq split: if_splits)
next
  case (wake t m resp p d)
  then show ?thesis by (auto simp: send_finish_def release_msgid_def fresh_addrs_def abandoned_def)
next
  case (reply ok b rep r d out)
  from reply(3) show ?thesis
    by (auto simp: reply(2) reply_def env_write_def fresh_addrs_def abandoned_def split: option.splits if_splits)
qed

lemma rr_reach_fresh_addrs: "rr_reach n s \<Longrightarrow> fresh_addrs (disp s)"
proof (induction rule: rr_reach.induct)
  case start
  show ?case by (simp add: rr_init_def dispatcher_new_def generate_msgid_def fresh_addrs_def)
next
  case (step s e s')
  with rr_step_pkgs [OF step.hyps(2)] show ?case by blast
qed

section \<open>Properties\<close>

text \<open>
  C11: with at most \<open>n\<close> threads inside \<^verbatim>\<open>send\<close> at once and \<open>n\<close> below 2^15, in any interleaving with
  replies and received frames, no two waiting threads share an id, every id in use is between 1
  and \<open>n\<close>, and none has the reply bit.
\<close>

theorem message_ids_unique:
  assumes "rr_reach n s" and "n < 2 ^ 15"
  shows "distinct (map snd (waiting s))
     \<and> (\<forall>(t, m) \<in> set (waiting s). request_id m \<and> unat m \<le> n)"
proof -
  have ok: "ids_ok n s" using assms by (rule rr_reach_ids_ok)
  have "distinct (map snd (waiting s))"
    using ids_okD(4) [OF ok assms(2)] by (cases "waiting s") auto
  then show ?thesis using ids_okD(1,2) [OF ok assms(2)] by auto
qed

theorem message_ids_unique_witness:
  "distinct (map snd (waiting rr_one)) \<and> request_id 1"
  using message_ids_unique [OF rr_one_reachable] by (simp add: rr_one_def)

text \<open>
  C19: one call over the wire. The request that arrives is the copy \<^verbatim>\<open>send\<close> made of it; the reply
  wakes the sender, who gets a packet with the id, the command and the bytes of the reply,
  followed by the 18 zero bytes of two more copies; the server has forgotten and freed the
  request, and a second reply to it is refused.
\<close>

theorem request_reply_roundtrip:
  assumes "send_begin (env_write True) q dc [] = Inr (Some m, dc1, out)"
    and "request_id m" and "has_header r"
  shows "\<exists>f1 ds1 a ds2 f2 dc2. out = [f1]
     \<and> dispatch f1 ds = Inr (ds1, Some a) \<and> pkgs ds1 a = Some (package_copy q)
     \<and> reply (env_write True) a r ds1 [] = Inr (True, ds2, [f2])
     \<and> dispatch f2 dc1 = Inr (dc2, None) \<and> response_received dc2 m = Some True
     \<and> vec (fst (send_finish m resp dc2)) = vec r @ replicate 18 0
     \<and> get_nid (fst (send_finish m resp dc2)) = get_nid r
     \<and> get_cmd (fst (send_finish m resp dc2)) = get_cmd r
     \<and> pkgs ds2 a = None \<and> reply (env_write True) a r ds2 [] = Inr (False, ds2, [])"
proof -
  from assms(3) obtain n c pl where r: "r = mk_package n c pl" by (rule has_headerE)
  have out: "out = [message (package_copy q) m]"
    using assms(1) by (auto simp: send_begin_env Let_def split: prod.splits)
  have zeros: "replicate 9 (0::byte) @ replicate 9 0 = replicate 18 0"
    by (simp flip: replicate_add)
  show ?thesis
    unfolding out
    by (simp add: dispatch_request [OF assms(2)] reply_def env_write_def
        dispatch_reply [OF assms(2,3)] send_finish_def release_msgid_def Let_def)
      (simp add: r vec_mk_package zeros)
qed

theorem request_reply_roundtrip_witness:
  "\<exists>dc1 f1 ds1 a ds2 f2 dc2.
       send_begin (env_write True) package_new dispatcher_new [] = Inr (Some 1, dc1, [f1])
     \<and> dispatch f1 dispatcher_new = Inr (ds1, Some a)
     \<and> reply (env_write True) a (mk_package 7 CMD_LS_SUCCESS [3]) ds1 [] = Inr (True, ds2, [f2])
     \<and> dispatch f2 dc1 = Inr (dc2, None)
     \<and> get_nid (fst (send_finish 1 package_new dc2)) = 7"
proof -
  obtain dc1 out where s: "send_begin (env_write True) package_new dispatcher_new [] = Inr (Some 1, dc1, out)"
    by (simp add: send_begin_env dispatcher_new_eq generate_msgid_def)
  show ?thesis
    using request_reply_roundtrip [OF s request_id_small, of "mk_package 7 CMD_LS_SUCCESS [3]"
        dispatcher_new package_new] s by auto
qed

text \<open>
  \<^verbatim>\<open>in\<close> holds one reply only. Two senders whose replies both arrive before either has woken up
  both return the second reply; for the first one it is the answer to somebody else's request.
\<close>

theorem reply_overwritten_before_wakeup:
  assumes "request_id m1" and "request_id m2" and "has_header a" and "has_header b"
    and "dispatch (message a (m1 OR reply_flag)) d = Inr (d1, n1)"
    and "dispatch (message b (m2 OR reply_flag)) d1 = Inr (d2, n2)"
  shows "response_received d2 m1 = Some True \<and> response_received d2 m2 = Some True
     \<and> vec (fst (send_finish m1 resp d2)) = vec b @ replicate 18 0
     \<and> vec (fst (send_finish m2 resp d2)) = vec b @ replicate 18 0"
proof -
  from assms(4) obtain n c pl where b: "b = mk_package n c pl" by (rule has_headerE)
  have zeros: "replicate 9 (0::byte) @ replicate 9 0 = replicate 18 0"
    by (simp flip: replicate_add)
  have d1: "d1 = d\<lparr>in_package := package_assign (in_package d) a,
      response_received := (response_received d)(m1 \<mapsto> True), next_addr := Suc (next_addr d)\<rparr>"
    using assms(5) by (simp add: dispatch_reply [OF assms(1,3)])
  have d2: "d2 = d1\<lparr>in_package := package_assign (in_package d1) b,
      response_received := (response_received d1)(m2 \<mapsto> True), next_addr := Suc (next_addr d1)\<rparr>"
    using assms(6) by (simp add: dispatch_reply [OF assms(2,4)])
  show ?thesis
    by (simp add: d2 d1 send_finish_def release_msgid_def) (simp add: b vec_mk_package zeros)
qed

theorem reply_overwritten_before_wakeup_witness:
  "\<exists>d1 d2. dispatch (message (mk_package 5 2 []) (1 OR reply_flag)) dispatcher_new = Inr (d1, None)
     \<and> dispatch (message (mk_package 6 3 []) (2 OR reply_flag)) d1 = Inr (d2, None)
     \<and> vec (fst (send_finish 1 package_new d2)) = vec (mk_package 6 3 []) @ replicate 18 0"
proof -
  have ids: "request_id 1" "request_id 2" by (rule request_id_small; simp)+
  obtain d1 where d1: "dispatch (message (mk_package 5 2 []) (1 OR reply_flag)) dispatcher_new = Inr (d1, None)"
    using dispatch_reply [OF ids(1)] by auto
  obtain d2 where d2: "dispatch (message (mk_package 6 3 []) (2 OR reply_flag)) d1 = Inr (d2, None)"
    using dispatch_reply [OF ids(2)] by auto
  show ?thesis
    using reply_overwritten_before_wakeup [OF ids has_header_mk_package has_header_mk_package d1 d2]
      d1 d2 by blast
qed

text \<open>
  A thread blocked in \<^verbatim>\<open>send\<close> stays blocked through every event except the arrival of a reply
  with its own id; nothing else, the closing of the stream included, wakes it.
\<close>

theorem only_own_reply_wakes:
  assumes "rr_reach n s" and "n < 2 ^ 15" and "(t, m) \<in> set (waiting s)"
    and "response_received (disp s) m = Some False" and "rr_step s e s'"
    and "\<And>t req ok. e = Send t req ok \<Longrightarrow> length (waiting s) < n"
    and "\<And>q. e \<noteq> Recv (message q (m OR reply_flag))"
  shows "(t, m) \<in> set (waiting s') \<and> response_received (disp s') m = Some False"
  using assms(5)
proof cases
  case (send t' req m' d out)
  then show ?thesis using assms(3,4)
    by (auto simp: send_begin_env Let_def dest: generate_msgid_frame split: prod.splits)
next
  case (send_failed t' req d out)
  then show ?thesis using assms(3,4)
    by (auto simp: send_begin_env Let_def release_msgid_def dest: generate_msgid_frame split: prod.splits)
next
  case (recv f d a)
  have "response_received d m = response_received (disp s) m"
    using dispatch_response_received [OF recv(3)] assms(7) recv(1) by blast
  then show ?thesis using recv assms(3,4) by simp
next
  case (wake t' m' resp p d)
  have ok: "ids_ok n s" using assms(1,2) by (rule rr_reach_ids_ok)
  have "t \<noteq> t'"
  proof
    assume "t = t'"
    then have "m = m'" using wake(3) assms(3) ok by (auto simp: ids_ok_def dest: eq_key_imp_eq_value)
    with wake(4) assms(4) show False by simp
  qed
  then show ?thesis using wake assms(3,4) by (auto simp: send_finish_def release_msgid_def)
next
  case (reply ok a rep b d out)
  then show ?thesis using assms(3,4) by (auto dest: reply_ids)
qed

theorem only_own_reply_wakes_witness:
  "\<exists>s. rr_step rr_one (Reply 0 package_new True) s \<and> (1, 1) \<in> set (waiting s)"
proof -
  have r: "rr_step rr_one (Reply 0 package_new True) rr_one"
    using rr_step.reply [of True 0 package_new rr_one False "disp rr_one" "outgoing rr_one"]
    by (simp add: rr_one_def reply_def dispatcher_new_eq)
  have "(1, 1) \<in> set (waiting rr_one) \<and> response_received (disp rr_one) 1 = Some False"
    using only_own_reply_wakes [OF rr_one_reachable _ _ _ r, of 1 1] by (simp add: rr_one_def)
  with r show ?thesis by blast
qed

text \<open>
  A packet nobody waits for is never freed: the listener gets its address, and whatever happens
  afterwards, an attempt to reply to it included, it stays allocated. All updates, subscriptions and
  announcements of nodes travel in such packets.
\<close>

theorem one_way_packet_leaks:
  assumes "rr_reach n s" and "dispatch (message p 0) (disp s) = Inr (d, Some a)"
    and "(\<lambda>x y. \<exists>e. rr_step x e y)\<^sup>*\<^sup>* (s\<lparr>disp := d\<rparr>) s'"
  shows "pkgs (disp s') a \<noteq> None"
proof -
  have "fresh_addrs (disp s)" using assms(1) by (rule rr_reach_fresh_addrs)
  then have "request_msgids (disp s) (next_addr (disp s)) = None"
    unfolding fresh_addrs_def by blast
  then have "abandoned a (disp (s\<lparr>disp := d\<rparr>))"
    using assms(2) by (auto simp: dispatch_def message_def abandoned_def Let_def split: if_splits)
  with assms(3) have "abandoned a (disp s')"
    by (induction rule: rtranclp_induct) (auto dest: rr_step_pkgs)
  then show ?thesis by (simp add: abandoned_def)
qed

theorem one_way_packet_leaks_witness:
  "\<exists>d a s. dispatch (message package_new 0) (disp rr_one) = Inr (d, Some a)
     \<and> rr_step (rr_one\<lparr>disp := d\<rparr>) (Reply a package_new True) s \<and> pkgs (disp s) a \<noteq> None"
proof -
  obtain d where d: "dispatch (message package_new 0) (disp rr_one) = Inr (d, Some 0)" "request_msgids d 0 = None"
    by (simp add: rr_one_def dispatcher_new_eq dispatch_def message_def Let_def)
  let ?s = "rr_one\<lparr>disp := d\<rparr>"
  have step: "rr_step ?s (Reply 0 package_new True) ?s"
    using rr_step.reply [of True 0 package_new ?s False d "outgoing rr_one"] d(2) by (simp add: reply_def)
  then have "pkgs (disp ?s) 0 \<noteq> None"
    by (intro one_way_packet_leaks [OF rr_one_reachable d(1)] r_into_rtranclp) blast
  with d step show ?thesis by blast
qed

end
