(* ===== verification/Locking_Queue.thy ===== *)
theory Locking_Queue
  imports Ipc_Prelude
begin

text \<open>
  Class \<^verbatim>\<open>locking_queue\<close> of \<^verbatim>\<open>locking_queue.h\<close>, the hand-over point between the thread that
  receives packets and the thread that processes them. The operations are given as functions on
  the list of elements; \<^verbatim>\<open>pop\<close> on an empty queue does not return, which is the result \<open>None\<close>.
  The step relation \<open>lq_step\<close> adds the condition variable: threads asleep in \<^verbatim>\<open>wait\<close>, threads that
  have been notified and will re-check, and the critical sections of all operations in any order.
\<close>

section \<open>Operations\<close>

record 'a locking_queue =
  elements :: "'a list"

definition locking_queue_new :: "'a locking_queue" where
  "locking_queue_new = \<lparr>elements = []\<rparr>"

definition push :: "'a \<Rightarrow> 'a locking_queue \<Rightarrow> 'a locking_queue" where
  "push v q = q\<lparr>elements := elements q @ [v]\<rparr>"

definition push_front :: "'a \<Rightarrow> 'a locking_queue \<Rightarrow> 'a locking_queue" where
  "push_front v q = q\<lparr>elements := v # elements q\<rparr>"

definition pop :: "'a locking_queue \<Rightarrow> ('a \<times> 'a locking_queue) option" where
  "pop q = (case elements q of
              [] \<Rightarrow> None
            | x # xs \<Rightarrow> Some (x, q\<lparr>elements := xs\<rparr>))"

section \<open>What a client relies on\<close>

text \<open>Popping \<open>n\<close> times, as long as there is something to pop.\<close>

fun drain :: "('q \<Rightarrow> ('a \<times> 'q) option) \<Rightarrow> nat \<Rightarrow> 'q \<Rightarrow> 'a list \<times> 'q" where
  "drain take_one 0 q = ([], q)"
| "drain take_one (Suc n) q =
     (case take_one q of
        None \<Rightarrow> ([], q)
      | Some (x, q) \<Rightarrow> let (xs, q) = drain take_one n q in (x # xs, q))"

locale fifo =
  fixes push :: "'a \<Rightarrow> 'q \<Rightarrow> 'q"
    and pop :: "'q \<Rightarrow> ('a \<times> 'q) option"
    and contents :: "'q \<Rightarrow> 'a list"
  assumes contents_push: "contents (push x q) = contents q @ [x]"
    and pop_empty: "contents q = [] \<Longrightarrow> pop q = None"
    and pop_cons: "contents q = x # xs \<Longrightarrow> \<exists>q'. pop q = Some (x, q') \<and> contents q' = xs"
begin

lemma contents_pushes: "contents (fold push xs q) = contents q @ xs"
  by (induction xs arbitrary: q) (simp_all add: contents_push)

lemma drain_contents:
  "fst (drain pop n q) = take n (contents q)
   \<and> contents (snd (drain pop n q)) = drop n (contents q)"
proof (induction n arbitrary: q)
  case 0
  then show ?case by simp
next
  case (Suc n)
  show ?case
  proof (cases "contents q")
    case Nil
    then show ?thesis by (simp add: pop_empty)
  next
    case (Cons x xs)
    with pop_cons obtain q' where "pop q = Some (x, q')" "contents q' = xs" by blast
    with Cons Suc [of q'] show ?thesis by (simp add: case_prod_unfold Let_def)
  qed
qed

lemma pushed_then_drained:
  assumes "contents q = []"
  shows "fst (drain pop (length xs) (fold push xs q)) = xs"
  by (simp add: drain_contents contents_pushes assms)

end

interpretation lq: fifo push pop elements
  by unfold_locales (auto simp: push_def pop_def)

section \<open>Producers, consumers and the condition variable\<close>

text \<open>
  \<open>sleepers\<close> threads wait on the condition variable without having been notified, \<open>woken\<close> threads
  have been notified and have not re-acquired the mutex yet.
\<close>

record 'a lq_state =
  queue :: "'a locking_queue"
  sleepers :: nat
  woken :: nat

definition lq_init :: "'a lq_state" where
  "lq_init = \<lparr>queue = locking_queue_new, sleepers = 0, woken = 0\<rparr>"

text \<open>\<^verbatim>\<open>notify_one\<close>: wakes a sleeper if there is one.\<close>

definition notify_one :: "'a lq_state \<Rightarrow> 'a lq_state" where
  "notify_one s =
     (if sleepers s = 0 then s else s\<lparr>sleepers := sleepers s - 1, woken := Suc (woken s)\<rparr>)"

datatype 'a lq_event = Pushed 'a | Pushed_front 'a | Popped 'a | Slept

text \<open>
  One rule per critical section: the two pushes; a consumer that comes in and finds an element, or
  goes to sleep; a notified consumer that re-checks and finds an element, or goes back to sleep.
\<close>

inductive lq_step :: "'a lq_state \<Rightarrow> 'a lq_event \<Rightarrow> 'a lq_state \<Rightarrow> bool" where
  push: "lq_step s (Pushed v) (notify_one (s\<lparr>queue := push v (queue s)\<rparr>))"
| push_front: "lq_step s (Pushed_front v) (notify_one (s\<lparr>queue := push_front v (queue s)\<rparr>))"
| pop: "pop (queue s) = Some (x, q) \<Longrightarrow> lq_step s (Popped x) (s\<lparr>queue := q\<rparr>)"
| wait: "pop (queue s) = None \<Longrightarrow> lq_step s Slept (s\<lparr>sleepers := Suc (sleepers s)\<rparr>)"
| wake_pop: "woken s = Suc n \<Longrightarrow> pop (queue s) = Some (x, q)
    \<Longrightarrow> lq_step s (Popped x) (s\<lparr>queue := q, woken := n\<rparr>)"
| wake_wait: "woken s = Suc n \<Longrightarrow> pop (queue s) = None
    \<Longrightarrow> lq_step s Slept (s\<lparr>sleepers := Suc (sleepers s), woken := n\<rparr>)"

inductive_cases lq_stepE: "lq_step s e s'"

inductive lq_run :: "'a lq_event list \<Rightarrow> 'a lq_state \<Rightarrow> bool" where
  start: "lq_run [] lq_init"
| step: "lq_run es s \<Longrightarrow> lq_step s e s' \<Longrightarrow> lq_run (es @ [e]) s'"

definition no_lost_wakeup :: "'a lq_state \<Rightarrow> bool" where
  "no_lost_wakeup s \<longleftrightarrow> sleepers s = 0 \<or> length (elements (queue s)) \<le> woken s"

lemma queue_notify_one [simp]: "queue (notify_one s) = queue s"
  by (simp add: notify_one_def)

lemma pop_Some_elements: "pop q = Some (x, q') \<longleftrightarrow> elements q = x # elements q' \<and> q' = q\<lparr>elements := elements q'\<rparr>"
  by (cases q; cases q') (auto simp: pop_def split: list.splits)

lemma pop_None_elements: "pop q = None \<longleftrightarrow> elements q = []"
  by (auto simp: pop_def split: list.splits)

lemmas queue_ops = push_def push_front_def pop_Some_elements pop_None_elements

lemma lq_step_no_lost_wakeup:
  assumes "lq_step s e s'" and "no_lost_wakeup s"
  shows "no_lost_wakeup s'"
  using assms
  by cases (auto simp: no_lost_wakeup_def notify_one_def queue_ops)

lemma lq_run_no_lost_wakeup: "lq_run es s \<Longrightarrow> no_lost_wakeup s"
proof (induction rule: lq_run.induct)
  case start
  show ?case by (simp add: no_lost_wakeup_def lq_init_def)
next
  case (step es s e s')
  then show ?case by (blast intro: lq_step_no_lost_wakeup)
qed

fun pushes :: "'a lq_event list \<Rightarrow> 'a list" where
  "pushes [] = []"
| "pushes (Pushed v # es) = v # pushes es"
| "pushes (_ # es) = pushes es"

fun pops :: "'a lq_event list \<Rightarrow> 'a list" where
  "pops [] = []"
| "pops (Popped v # es) = v # pops es"
| "pops (_ # es) = pops es"

lemma pushes_append [simp]: "pushes (es @ es') = pushes es @ pushes es'"
  by (induction es rule: pushes.induct) simp_all

lemma pops_append [simp]: "pops (es @ es') = pops es @ pops es'"
  by (induction es rule: pops.induct) simp_all

lemma lq_run_fifo:
  "lq_run es s \<Longrightarrow> (\<And>v. Pushed_front v \<notin> set es) \<Longrightarrow> pushes es = pops es @ elements (queue s)"
proof (induction rule: lq_run.induct)
  case start
  show ?case by (simp add: lq_init_def locking_queue_new_def)
next
  case (step es s e s')
  have "Pushed_front v \<notin> set es" for v using step.prems [of v] by simp
  then have IH: "pushes es = pops es @ elements (queue s)" by (rule step.IH)
  have "Pushed_front v \<noteq> e" for v using step.prems [of v] by simp
  with step.hyps(2) IH show ?case by cases (auto simp: queue_ops)
qed

section \<open>Properties\<close>

text \<open>
  Packets pushed to an empty queue come out of it in the order they went in, each once.
\<close>

theorem locking_queue_fifo:
  "fst (drain pop (length xs) (fold push xs locking_queue_new)) = xs"
  by (rule lq.pushed_then_drained) (simp add: locking_queue_new_def)

text \<open>
  C30: with any number of producers and consumers in any interleaving of their critical sections,
  whatever has been popped followed by what is queued is what has been pushed, as long as nobody
  pushes to the front.
\<close>

theorem concurrent_fifo:
  assumes "lq_run es s" and "\<And>v. Pushed_front v \<notin> set es"
  shows "pushes es = pops es @ elements (queue s)"
  using assms by (rule lq_run_fifo)

theorem concurrent_fifo_witness:
  "\<exists>s. lq_run [Slept, Pushed (7::nat), Popped 7] s \<and> elements (queue s) = []"
proof -
  let ?s1 = "lq_init\<lparr>sleepers := 1\<rparr> :: nat lq_state"
  let ?s2 = "\<lparr>queue = \<lparr>elements = [7]\<rparr>, sleepers = 0, woken = 1\<rparr> :: nat lq_state"
  let ?s3 = "\<lparr>queue = \<lparr>elements = []\<rparr>, sleepers = 0, woken = 0\<rparr> :: nat lq_state"
  have r0: "lq_run [] lq_init" by (rule lq_run.start)
  have s1: "lq_step lq_init Slept ?s1"
    using lq_step.wait [of "lq_init :: nat lq_state"]
    by (simp add: lq_init_def locking_queue_new_def pop_def)
  have s2: "lq_step ?s1 (Pushed 7) ?s2"
    using lq_step.push [of ?s1 7]
    by (simp add: lq_init_def locking_queue_new_def push_def notify_one_def)
  have s3: "lq_step ?s2 (Popped 7) ?s3"
    using lq_step.wake_pop [of ?s2 0 7 "\<lparr>elements = []\<rparr>"] by (simp add: pop_def)
  have run: "lq_run [Slept, Pushed 7, Popped 7] ?s3"
    using lq_run.step [OF lq_run.step [OF lq_run.step [OF r0 s1] s2] s3] by simp
  have "pushes [Slept, Pushed (7::nat), Popped 7] = pops [Slept, Pushed (7::nat), Popped 7] @ elements (queue ?s3)"
    by (rule concurrent_fifo [OF run]) simp
  with run show ?thesis by auto
qed

text \<open>
  C21: no wakeup is lost. In every reachable state in which an element is queued while a consumer
  sleeps, a notified consumer is on its way to it.
\<close>

theorem no_consumer_sleeps_forever:
  assumes "lq_run es s" and "elements (queue s) \<noteq> []" and "sleepers s \<noteq> 0"
  shows "woken s > 0 \<and> (\<exists>x s'. lq_step s (Popped x) s' \<and> woken s' < woken s)"
proof -
  from assms(1) have "no_lost_wakeup s" by (rule lq_run_no_lost_wakeup)
  with assms(2,3) have "length (elements (queue s)) \<le> woken s" by (simp add: no_lost_wakeup_def)
  with assms(2) obtain n where n: "woken s = Suc n" by (cases "woken s") simp_all
  from assms(2) obtain x q where "pop (queue s) = Some (x, q)"
    by (cases "pop (queue s)") (auto simp: pop_None_elements)
  with n have "lq_step s (Popped x) (s\<lparr>queue := q, woken := n\<rparr>)" by (rule lq_step.wake_pop)
  with n show ?thesis by (intro conjI) (simp, intro exI, rule conjI, assumption, simp)
qed

theorem no_consumer_sleeps_forever_witness:
  "\<exists>s. lq_run [Slept, Slept, Pushed (7::nat)] s \<and> sleepers s = 1 \<and> woken s > 0"
proof -
  let ?s1 = "lq_init\<lparr>sleepers := 1\<rparr> :: nat lq_state"
  let ?s2 = "lq_init\<lparr>sleepers := 2\<rparr> :: nat lq_state"
  let ?s3 = "\<lparr>queue = \<lparr>elements = [7]\<rparr>, sleepers = 1, woken = 1\<rparr> :: nat lq_state"
  have s1: "lq_step lq_init Slept ?s1"
    using lq_step.wait [of "lq_init :: nat lq_state"]
    by (simp add: lq_init_def locking_queue_new_def pop_def)
  have s2: "lq_step ?s1 Slept ?s2"
    using lq_step.wait [of ?s1]
    by (simp add: lq_init_def locking_queue_new_def pop_def numeral_2_eq_2)
  have s3: "lq_step ?s2 (Pushed 7) ?s3"
    using lq_step.push [of ?s2 7]
    by (simp add: lq_init_def locking_queue_new_def push_def notify_one_def)
  have run: "lq_run [Slept, Slept, Pushed 7] ?s3"
    using lq_run.step [OF lq_run.step [OF lq_run.step [OF lq_run.start s1] s2] s3] by simp
  have "woken ?s3 > 0" using no_consumer_sleeps_forever [OF run] by simp
  with run show ?thesis by (intro exI [of _ ?s3]) simp
qed

end
