(* ===== verification/Sync_State.thy ===== *)
theory Sync_State
  imports Tree_Api Std_Map Dispatcher Locking_Queue
begin

text \<open>
  The state of a \<^verbatim>\<open>node_sync\<close> and its table of tracked nodes (\<^verbatim>\<open>node_sync.h\<close>, and the tracking
  functions of \<^verbatim>\<open>node_sync.cpp\<close>), the proxy nodes with the factories that make them
  (\<^verbatim>\<open>proxy_node_generator.cpp\<close>, \<^verbatim>\<open>proxy_node_factory.h\<close>, \<^verbatim>\<open>client_node_value.h\<close>), and the calls on
  the packet stream. The invariant of the table is \<open>sync_ok\<close>, in the theory Sync_Invariant.
\<close>

section \<open>State\<close>

type_synonym sync_id = nat

text \<open>
  The members of \<^verbatim>\<open>client_node\<close>, and of \<^verbatim>\<open>property_fake\<close> for a proxy of a property. A node_sync is
  known by a number; \<open>None\<close> is a null pointer. The constructor of \<^verbatim>\<open>property_fake\<close> leaves \<^verbatim>\<open>nid\<close> unset.
\<close>

record fake =
  fk_nid :: "nid option"
  fk_deserialization :: bool
  fk_client :: "sync_id option"

record proxy =
  cn_nid :: nid
  cn_client :: "sync_id option"
  cn_fake :: "fake option"

text \<open>Calls on the packet stream in order, and calls on other node_syncs.\<close>

datatype dev_call =
    Write package
  | Reply_to addr package
  | Ask package
  | Foreign sync_id package
  | Foreign_attach sync_id nid string node_ref

text \<open>
  \<open>tracked\<close> is the \<^verbatim>\<open>std::map\<close> of the same name; its values are pointers and may be null. \<open>answers\<close>
  is what the coming calls of \<^verbatim>\<open>dev->send\<close> will get from the peer (\<open>None\<close>: the call returns false).
  \<open>proxies\<close> holds the proxy nodes that exist in the process.
\<close>

record 't sync =
  self :: sync_id
  is_server :: bool
  has_dev :: bool
  root_node :: "node_ref option"
  tracked :: "(nid \<times> node_ref option) list"
  pkg_queue :: "(addr \<times> package) option locking_queue"
  current_nid :: nid
  update_in_process :: bool
  tree :: 't
  proxies :: "nat \<Rightarrow> proxy option"
  next_proxy :: nat
  answers :: "package option list"
  dev_calls :: "dev_call list"

text \<open>The constructor.\<close>

definition sync_new :: "sync_id \<Rightarrow> bool \<Rightarrow> 't \<Rightarrow> 't sync" where
  "sync_new i server t =
     \<lparr>self = i, is_server = server, has_dev = False, root_node = None, tracked = [],
      pkg_queue = locking_queue_new, current_nid = 0, update_in_process = False, tree = t,
      proxies = Map.empty, next_proxy = 0, answers = [], dev_calls = []\<rparr>"

definition set_device :: "bool \<Rightarrow> 't sync \<Rightarrow> 't sync" where
  "set_device d s = s\<lparr>has_dev := d\<rparr>"

definition sync_set_root :: "node_ref option \<Rightarrow> 't sync \<Rightarrow> 't sync" where
  "sync_set_root r s = s\<lparr>root_node := r\<rparr>"

section \<open>The packet stream\<close>

definition dev_write :: "package \<Rightarrow> 't sync \<Rightarrow> fault + 't sync" where
  "dev_write p s =
     (if has_dev s then Inr (s\<lparr>dev_calls := dev_calls s @ [Write p]\<rparr>) else Inl Null_deref)"

definition dev_reply :: "addr \<Rightarrow> package \<Rightarrow> 't sync \<Rightarrow> fault + 't sync" where
  "dev_reply a p s =
     (if has_dev s then Inr (s\<lparr>dev_calls := dev_calls s @ [Reply_to a p]\<rparr>) else Inl Null_deref)"

text \<open>\<^verbatim>\<open>dev->send(req, rep)\<close>: when it fails, \<^verbatim>\<open>rep\<close> stays as it was constructed.\<close>

definition dev_send :: "package \<Rightarrow> 't sync \<Rightarrow> fault + (package \<times> 't sync)" where
  "dev_send req s =
     (if \<not> has_dev s then Inl Null_deref
      else let s = s\<lparr>dev_calls := dev_calls s @ [Ask req]\<rparr>
           in case answers s of
                [] \<Rightarrow> Inr (package_new, s)
              | None # as \<Rightarrow> Inr (package_new, s\<lparr>answers := as\<rparr>)
              | Some rep # as \<Rightarrow> Inr (rep, s\<lparr>answers := as\<rparr>))"

section \<open>Node ids and tracking\<close>

definition generate_nid :: "'t sync \<Rightarrow> fault + (nid \<times> 't sync)" where
  "generate_nid s =
     (if is_server s
      then Inr (current_nid s, s\<lparr>current_nid := current_nid s + 1\<rparr>)
      else let req = set_cmd CMD_GENERATE_NID package_new
           in andThen (dev_send req s) (\<lambda>(rep, s). Inr (get_nid rep, s)))"

text \<open>\<^verbatim>\<open>do_track(n, nid)\<close> and \<^verbatim>\<open>do_track(n)\<close>.\<close>

definition do_track_as :: "node_ref option \<Rightarrow> nid \<Rightarrow> 't sync \<Rightarrow> 't sync" where
  "do_track_as n nid s = s\<lparr>tracked := map_put nid n (tracked s)\<rparr>"

definition do_track :: "node_ref option \<Rightarrow> 't sync \<Rightarrow> fault + (nid \<times> 't sync)" where
  "do_track n s = andThen (generate_nid s) (\<lambda>(nid, s). Inr (nid, do_track_as n nid s))"

definition untrack :: "node_ref option \<Rightarrow> 't sync \<Rightarrow> 't sync" where
  "untrack n s = s"

definition get_node :: "nid \<Rightarrow> 't sync \<Rightarrow> node_ref option" where
  "get_node nid s = (case map_of (tracked s) nid of None \<Rightarrow> None | Some n \<Rightarrow> n)"

text \<open>\<^verbatim>\<open>get_nid(n, nid, track)\<close>: the id, or \<open>None\<close> for \<^verbatim>\<open>false\<close>.\<close>

definition get_nid_of ::
  "node_ref option \<Rightarrow> bool \<Rightarrow> 't sync \<Rightarrow> fault + (nid option \<times> 't sync)" where
  "get_nid_of n track s =
     (case find_key n (tracked s) of
        Some nid \<Rightarrow> Inr (Some nid, s)
      | None \<Rightarrow> (if track then andThen (do_track n s) (\<lambda>(nid, s). Inr (Some nid, s))
                else Inr (None, s)))"

text \<open>
  \<^verbatim>\<open>get_nid(p, nid)\<close> of a property: \<open>n\<close> is what \<^verbatim>\<open>dynamic_cast<tree_node *>(p)\<close> gives.
\<close>

definition prop_nid :: "node_ref option \<Rightarrow> 't sync \<Rightarrow> fault + (nid option \<times> 't sync)" where
  "prop_nid n s = (case n of None \<Rightarrow> Inr (None, s) | Some n \<Rightarrow> get_nid_of (Some n) False s)"

lemma prop_nid_Some [simp]: "prop_nid (Some n) s = get_nid_of (Some n) False s"
  by (simp add: prop_nid_def)

text \<open>\<^verbatim>\<open>get_nid(n)\<close>, which tracks the node if need be.\<close>

definition node_nid :: "node_ref \<Rightarrow> 't sync \<Rightarrow> fault + (nid \<times> 't sync)" where
  "node_nid n s =
     andThen (get_nid_of (Some n) True s) (\<lambda>(nid, s). Inr (case nid of Some k \<Rightarrow> k | None \<Rightarrow> 0, s))"

text \<open>
  \<^verbatim>\<open>remove_client_node\<close>: its log line evaluates \<^verbatim>\<open>tracked[nid]\<close>, which may insert a null entry; the
  erase removes that entry again.
\<close>

definition remove_client_node :: "nid \<Rightarrow> 't sync \<Rightarrow> 't sync" where
  "remove_client_node nid s =
     (let s = (if map_of (tracked s) nid = None then s\<lparr>tracked := map_put nid None (tracked s)\<rparr> else s)
      in s\<lparr>tracked := map_del nid (tracked s)\<rparr>)"

section \<open>Proxy nodes\<close>

definition proxy_of :: "'t sync \<Rightarrow> node_ref \<Rightarrow> proxy option" where
  "proxy_of s n = (case n of App _ \<Rightarrow> None | Proxy i \<Rightarrow> proxies s i)"

text \<open>Nodes of the application are taken to exist; a proxy may have been deleted.\<close>

definition alive :: "'t sync \<Rightarrow> node_ref \<Rightarrow> bool" where
  "alive s n \<longleftrightarrow> (case n of App _ \<Rightarrow> True | Proxy i \<Rightarrow> proxies s i \<noteq> None)"

text \<open>Dereferencing a node pointer of the table.\<close>

definition deref :: "'t sync \<Rightarrow> node_ref option \<Rightarrow> fault + node_ref" where
  "deref s m =
     (case m of
        None \<Rightarrow> Inl Null_deref
      | Some n \<Rightarrow> if alive s n then Inr n else Inl Use_after_free)"

text \<open>\<^verbatim>\<open>dynamic_cast<property_base *>\<close> of a node pointer, which may be null.\<close>

definition cast_prop ::
  "('t, 'qs, 'qb) tree_api \<Rightarrow> node_ref option \<Rightarrow> 't sync
     \<Rightarrow> fault + (node_ref \<times> ('qs, 'qb) prop_view) option" where
  "cast_prop T m s =
     (case m of
        None \<Rightarrow> Inr None
      | Some n \<Rightarrow> if alive s n then Inr (map_option (\<lambda>v. (n, v)) (t_prop T (tree s) n))
                  else Inl Use_after_free)"

definition get_prop ::
  "('t, 'qs, 'qb) tree_api \<Rightarrow> nid \<Rightarrow> 't sync
     \<Rightarrow> fault + (node_ref \<times> ('qs, 'qb) prop_view) option" where
  "get_prop T nid s =
     (case map_of (tracked s) nid of None \<Rightarrow> Inr None | Some m \<Rightarrow> cast_prop T m s)"

text \<open>\<^verbatim>\<open>client_node::get_client\<close>.\<close>

definition get_client :: "proxy \<Rightarrow> sync_id option" where [simp]:
  "get_client c = cn_client c"

text \<open>\<^verbatim>\<open>cn != nullptr && cn->get_client() == this\<close> for a node that exists.\<close>

definition own_proxy :: "'t sync \<Rightarrow> node_ref \<Rightarrow> bool" where
  "own_proxy s n \<longleftrightarrow> (case proxy_of s n of None \<Rightarrow> False | Some c \<Rightarrow> get_client c = Some (self s))"

definition update_proxy :: "node_ref \<Rightarrow> (proxy \<Rightarrow> proxy) \<Rightarrow> 't sync \<Rightarrow> 't sync" where
  "update_proxy n f s =
     (case n of App _ \<Rightarrow> s | Proxy i \<Rightarrow> s\<lparr>proxies := (proxies s)(i := map_option f (proxies s i))\<rparr>)"

text \<open>
  The setters of \<^verbatim>\<open>property_fake\<close>. The fields \<open>fk_deserialization\<close> and \<open>fk_nid\<close> are its
  \<^verbatim>\<open>is_deserialization_in_process\<close> and \<^verbatim>\<open>get_nid\<close>.
\<close>

definition fake_set_client :: "sync_id option \<Rightarrow> fake \<Rightarrow> fake" where [simp]:
  "fake_set_client i = (\<lambda>f. f\<lparr>fk_client := i\<rparr>)"

definition fake_set_nid :: "nid \<Rightarrow> fake \<Rightarrow> fake" where [simp]:
  "fake_set_nid k = (\<lambda>f. f\<lparr>fk_nid := Some k\<rparr>)"

text \<open>
  \<^verbatim>\<open>set_nid\<close>, virtual: of \<^verbatim>\<open>client_node\<close>, and of \<^verbatim>\<open>client_node_value\<close>, which also sets the id of its
  \<^verbatim>\<open>property_fake\<close> part.
\<close>

definition proxy_set_nid :: "nid \<Rightarrow> node_ref \<Rightarrow> 't sync \<Rightarrow> 't sync" where
  "proxy_set_nid nid n =
     update_proxy n (\<lambda>c. c\<lparr>cn_nid := nid, cn_fake := map_option (fake_set_nid nid) (cn_fake c)\<rparr>)"

definition proxy_set_client :: "sync_id option \<Rightarrow> node_ref \<Rightarrow> 't sync \<Rightarrow> 't sync" where
  "proxy_set_client i n = update_proxy n (\<lambda>c. c\<lparr>cn_client := i\<rparr>)"

definition set_deserialization :: "bool \<Rightarrow> node_ref \<Rightarrow> 't sync \<Rightarrow> 't sync" where
  "set_deserialization b n =
     update_proxy n (\<lambda>c. c\<lparr>cn_fake := map_option (\<lambda>f. f\<lparr>fk_deserialization := b\<rparr>) (cn_fake c)\<rparr>)"

text \<open>\<^verbatim>\<open>new client_node(n)\<close>, the tree's part of the construction included; \<open>fk\<close> says whether the object
  also is a \<^verbatim>\<open>property_fake\<close>.\<close>

definition new_proxy ::
  "('t, 'qs, 'qb) tree_api \<Rightarrow> nid \<Rightarrow> string \<Rightarrow> fake option \<Rightarrow> 't sync \<Rightarrow> node_ref \<times> 't sync" where
  "new_proxy T nid type fk s =
     (let i = next_proxy s
      in (Proxy i, s\<lparr>next_proxy := Suc i,
                     proxies := (proxies s)(i \<mapsto> \<lparr>cn_nid = nid, cn_client = None, cn_fake = fk\<rparr>),
                     tree := t_new T (Proxy i) type (tree s)\<rparr>))"

text \<open>The table \<^verbatim>\<open>property_factories\<close>: the untyped factory, and one for each type below.\<close>

datatype factory = Untyped | Typed string

definition property_factories :: "string \<Rightarrow> factory option" where
  "property_factories =
     [[] \<mapsto> Untyped, type_double \<mapsto> Typed type_double, type_int \<mapsto> Typed type_int,
      type_bool \<mapsto> Typed type_bool, type_QString \<mapsto> Typed type_QString,
      type_QByteArray \<mapsto> Typed type_QByteArray]"

fun factory_generate ::
  "('t, 'qs, 'qb) tree_api \<Rightarrow> factory \<Rightarrow> 't sync \<Rightarrow> node_ref \<times> 't sync" where
  "factory_generate T Untyped s =
     (let (n, s) = new_proxy T 0 [] None s in (n, proxy_set_client (Some (self s)) n s))"
| "factory_generate T (Typed type) s =
     (let (n, s) = new_proxy T 0 type
            (Some \<lparr>fk_nid = None, fk_deserialization = False, fk_client = None\<rparr>) s;
          s = update_proxy n (\<lambda>c. c\<lparr>cn_fake :=
                map_option (fake_set_client (Some (self s))) (cn_fake c)\<rparr>) s
      in (n, proxy_set_client (Some (self s)) n s))"

text \<open>\<^verbatim>\<open>proxy_node_generator::generate\<close>; \<open>None\<close> is a null pointer.\<close>

definition generate ::
  "('t, 'qs, 'qb) tree_api \<Rightarrow> string \<Rightarrow> 't sync \<Rightarrow> node_ref option \<times> 't sync" where
  "generate T type s =
     (case property_factories type of
        None \<Rightarrow> (None, s)
      | Some f \<Rightarrow> (let (n, s) = factory_generate T f s in (Some n, s)))"

end
