(* ===== verification/Sync_Client.thy ===== *)
theory Sync_Client
  imports Sync_State
begin

text \<open>
  What a \<^verbatim>\<open>node_sync\<close> does on behalf of its own process: the callbacks it gets from the tree as a
  listener (\<^verbatim>\<open>child_added\<close>, \<^verbatim>\<open>updated\<close>), the requests it makes to the peer (\<^verbatim>\<open>node_sync.cpp\<close>), and
  the proxies that make them: \<^verbatim>\<open>property_fake\<close>, \<^verbatim>\<open>property_value_fake\<close> and \<^verbatim>\<open>client_node\<close>.

  A proxy may belong to another node_sync of the same process (a server has one for each
  connection). Calls it makes on its own node_sync are then recorded, as \<open>Foreign\<close> and
  \<open>Foreign_attach\<close>, and their effects are outside the state modelled here.
\<close>

section \<open>Callbacks from the tree\<close>

text \<open>
  \<^verbatim>\<open>child_added(p, n)\<close>. Its log line reads both nodes. A child that this node_sync made itself is not
  reported back.
\<close>

definition child_added ::
  "('t, 'qs, 'qb) tree_api \<Rightarrow> node_ref \<Rightarrow> node_ref \<Rightarrow> 't sync \<Rightarrow> fault + 't sync" where
  "child_added T p n s =
     (if \<not> alive s p \<or> \<not> alive s n then Inl Use_after_free
      else if \<not> has_dev s then Inr s
      else andThen (node_nid p s) (\<lambda>(parent_nid, s).
        if own_proxy s n then Inr s
        else andThen (node_nid n s) (\<lambda>(nid, s).
          let pack = append_nid nid (Ipc_Package.set_nid parent_nid (set_cmd CMD_CHILD_ADDED package_new));
              type = (case t_prop T (tree s) n of None \<Rightarrow> [] | Some v \<Rightarrow> prop_type v)
          in andThen (append_string (t_name T (tree s) n) pack) (\<lambda>pack.
             andThen (append_string type pack) (\<lambda>pack.
               dev_write (append_bool (t_owner T (tree s) n = Some p) pack) s)))))"

text \<open>\<^verbatim>\<open>child_removed\<close> and \<^verbatim>\<open>on_remove\<close> only print, but what they print they read from a node.\<close>

definition child_removed :: "node_ref \<Rightarrow> string \<Rightarrow> node_ref \<Rightarrow> 't sync \<Rightarrow> fault + 't sync" where
  "child_removed parent name n s = (if alive s parent then Inr s else Inl Use_after_free)"

definition on_remove :: "node_ref \<Rightarrow> 't sync \<Rightarrow> fault + 't sync" where
  "on_remove n s = (if alive s n then Inr s else Inl Use_after_free)"

text \<open>\<^verbatim>\<open>cn_fake\<close> of a node: \<^verbatim>\<open>dynamic_cast<property_fake *>\<close>.\<close>

definition fake_of :: "'t sync \<Rightarrow> node_ref \<Rightarrow> fake option" where
  "fake_of s n = Option.bind (proxy_of s n) cn_fake"

text \<open>
  \<^verbatim>\<open>updated(prop)\<close>: the result of \<^verbatim>\<open>get_nid\<close> is not tested, so for a property that is not tracked the
  id is an unset variable. Serializing calls the virtual \<^verbatim>\<open>get_value()\<close>, which for a proxy fetches
  the value first; that call is the argument \<open>refresh\<close>.
\<close>

definition updated_with ::
  "('qs, 'qb) qt_api \<Rightarrow> ('t, 'qs, 'qb) tree_api \<Rightarrow> (node_ref \<Rightarrow> 't sync \<Rightarrow> fault + 't sync)
     \<Rightarrow> node_ref \<Rightarrow> 't sync \<Rightarrow> fault + 't sync" where
  "updated_with q T refresh n s =
     andThen (prop_nid (Some n) s) (\<lambda>(nid, s).
     andThen (refresh n s) (\<lambda>s.
       let buf = (case t_prop T (tree s) n of None \<Rightarrow> [] | Some v \<Rightarrow> machine_serialize q machine_init v)
       in case nid of
            None \<Rightarrow> Inl Uninitialised
          | Some nid \<Rightarrow>
              let resp = Ipc_Package.set_nid nid (set_cmd CMD_PROP_VALUE_UPDATED package_new)
              in andThen (append_buffer buf resp) (\<lambda>resp. dev_write resp s)))"

fun events_with ::
  "('qs, 'qb) qt_api \<Rightarrow> ('t, 'qs, 'qb) tree_api \<Rightarrow> (node_ref \<Rightarrow> 't sync \<Rightarrow> fault + 't sync)
     \<Rightarrow> tree_event list \<Rightarrow> 't sync \<Rightarrow> fault + 't sync" where
  "events_with q T refresh [] s = Inr s"
| "events_with q T refresh (Child_added p n # es) s =
     andThen (child_added T p n s) (events_with q T refresh es)"
| "events_with q T refresh (Child_removed p name n # es) s =
     andThen (child_removed p name n s) (events_with q T refresh es)"
| "events_with q T refresh (Removed n # es) s =
     andThen (on_remove n s) (events_with q T refresh es)"
| "events_with q T refresh (Updated n # es) s =
     andThen (updated_with q T refresh n s) (events_with q T refresh es)"

text \<open>
  A value is fetched while another fetch is being stored: for a proxy of this node_sync
  \<^verbatim>\<open>update_prop\<close> returns at once, because \<^verbatim>\<open>update_in_process\<close> is set.
\<close>

definition prop_request :: "nid \<Rightarrow> cmd \<Rightarrow> package" where
  "prop_request nid c = set_cmd c (Ipc_Package.set_nid nid package_new)"

definition refresh_foreign :: "node_ref \<Rightarrow> 't sync \<Rightarrow> fault + 't sync" where
  "refresh_foreign n s =
     (case fake_of s n of
        None \<Rightarrow> Inr s
      | Some f \<Rightarrow>
          (case (fk_client f, fk_nid f) of
             (None, _) \<Rightarrow> Inl Null_deref
           | (_, None) \<Rightarrow> Inl Uninitialised
           | (Some i, Some nid) \<Rightarrow>
               if i = self s then Inr s
               else Inr (s\<lparr>dev_calls := dev_calls s @ [Foreign i (prop_request nid CMD_PROP_GET_VALUE)]\<rparr>)))"

section \<open>Requests to the peer\<close>

text \<open>
  \<^verbatim>\<open>request_prop_set_value(p, value)\<close>: the packet it writes, if any. The value is serialized by the
  type name of the property; an empty buffer sends nothing.
\<close>

definition set_value_request ::
  "('qs, 'qb) qt_api \<Rightarrow> ('qs, 'qb) prop_view \<Rightarrow> fake option \<Rightarrow> ('qs, 'qb) pvalue
     \<Rightarrow> fault + package option" where
  "set_value_request q p pr v =
     andThen (machine_serialize_raw q machine_init (prop_type p) v) (\<lambda>buf.
       if length buf = 0 then Inr None
       else case pr of
              None \<Rightarrow> Inr None
            | Some f \<Rightarrow>
                (case fk_nid f of
                   None \<Rightarrow> Inl Uninitialised
                 | Some nid \<Rightarrow> andThen (append_data buf (prop_request nid CMD_PROP_SET_VALUE))
                     (\<lambda>req. Inr (Some req))))"

definition request_prop_set_value ::
  "('qs, 'qb) qt_api \<Rightarrow> ('t, 'qs, 'qb) tree_api \<Rightarrow> node_ref \<Rightarrow> ('qs, 'qb) pvalue \<Rightarrow> 't sync
     \<Rightarrow> fault + 't sync" where
  "request_prop_set_value q T n v s =
     (case t_prop T (tree s) n of
        None \<Rightarrow> Inr s
      | Some p \<Rightarrow>
          andThen (set_value_request q p (fake_of s n) v) (\<lambda>req.
            case req of None \<Rightarrow> Inr s | Some req \<Rightarrow> dev_write req s))"

text \<open>\<^verbatim>\<open>property_fake::request_set\<close>, on the node_sync the proxy belongs to.\<close>

definition request_set ::
  "('qs, 'qb) qt_api \<Rightarrow> ('t, 'qs, 'qb) tree_api \<Rightarrow> node_ref \<Rightarrow> fake \<Rightarrow> ('qs, 'qb) pvalue \<Rightarrow> 't sync
     \<Rightarrow> fault + 't sync" where
  "request_set q T n f v s =
     (case t_prop T (tree s) n of
        None \<Rightarrow> Inr s
      | Some p \<Rightarrow>
          (case fk_client f of
             None \<Rightarrow> Inl Null_deref
           | Some i \<Rightarrow>
               if i = self s then request_prop_set_value q T n v s
               else andThen (set_value_request q p (Some f) v) (\<lambda>req.
                      case req of
                        None \<Rightarrow> Inr s
                      | Some req \<Rightarrow> Inr (s\<lparr>dev_calls := dev_calls s @ [Foreign i req]\<rparr>))))"

text \<open>
  Storing into a property through the virtual \<^verbatim>\<open>set_value\<close> or \<^verbatim>\<open>sync_value\<close>. Of the two,
  \<^verbatim>\<open>property_value_fake\<close> overrides \<^verbatim>\<open>set_value\<close>: after the base class, which notifies the listeners, it
  asks the peer to set the value, unless the proxy is in deserialization.
\<close>

definition store_with ::
  "('qs, 'qb) qt_api \<Rightarrow> ('t, 'qs, 'qb) tree_api \<Rightarrow> (node_ref \<Rightarrow> 't sync \<Rightarrow> fault + 't sync)
     \<Rightarrow> node_ref \<Rightarrow> ('qs, 'qb) store_call \<Rightarrow> 't sync \<Rightarrow> fault + 't sync" where
  "store_with q T refresh n call s =
     (let (t, evs) = t_store T n call (tree s)
      in andThen (events_with q T refresh evs (s\<lparr>tree := t\<rparr>)) (\<lambda>s.
           case (fake_of s n, call) of
             (Some f, Set_value v) \<Rightarrow>
               if fk_deserialization f then Inr s else request_set q T n f v s
           | _ \<Rightarrow> Inr s))"

text \<open>
  \<^verbatim>\<open>update_prop(nid)\<close>: the answer is stored like any other value, through the virtual \<^verbatim>\<open>set_value\<close> or
  \<^verbatim>\<open>sync_value\<close> of the proxy. That the store sends nothing back is the effect of the flag that \<^verbatim>\<open>update_prop\<close>
  sets before it.
\<close>

definition store_fetched ::
  "('qs, 'qb) qt_api \<Rightarrow> ('t, 'qs, 'qb) tree_api \<Rightarrow> byte list \<Rightarrow> node_ref \<times> ('qs, 'qb) prop_view
     \<Rightarrow> 't sync \<Rightarrow> fault + 't sync" where
  "store_fetched q T buf np s =
     (case machine_deserialize q machine_init buf (snd np) of
        None \<Rightarrow> Inr s
      | Some call \<Rightarrow> store_with q T refresh_foreign (fst np) call s)"

definition update_prop ::
  "('qs, 'qb) qt_api \<Rightarrow> ('t, 'qs, 'qb) tree_api \<Rightarrow> nid \<Rightarrow> 't sync \<Rightarrow> fault + 't sync" where
  "update_prop q T nid s =
     (if update_in_process s then Inr s
      else andThen (get_prop T nid s) (\<lambda>p.
        case p of
          None \<Rightarrow> Inr s
        | Some (n, prop) \<Rightarrow>
            (case fake_of s n of
               None \<Rightarrow> Inr s
             | Some pvf \<Rightarrow>
                 if fk_deserialization pvf then Inr s
                 else andThen (dev_send (prop_request nid CMD_PROP_GET_VALUE) s) (\<lambda>(rep, s).
                      andThen (read_buffer rep) (\<lambda>buf.
                        let s = set_deserialization True n (s\<lparr>update_in_process := True\<rparr>)
                        in andThen (store_fetched q T buf (n, prop) s) (\<lambda>s.
                           Inr ((set_deserialization False n s)\<lparr>update_in_process := False\<rparr>)))))))"

text \<open>The virtual \<^verbatim>\<open>get_value()\<close> of a property: a \<^verbatim>\<open>property_value_fake\<close> calls \<^verbatim>\<open>update_value()\<close> first.\<close>

definition refresh_value ::
  "('qs, 'qb) qt_api \<Rightarrow> ('t, 'qs, 'qb) tree_api \<Rightarrow> node_ref \<Rightarrow> 't sync \<Rightarrow> fault + 't sync" where
  "refresh_value q T n s =
     (case fake_of s n of
        None \<Rightarrow> Inr s
      | Some f \<Rightarrow>
          (case (fk_client f, fk_nid f) of
             (None, _) \<Rightarrow> Inl Null_deref
           | (_, None) \<Rightarrow> Inl Uninitialised
           | (Some i, Some nid) \<Rightarrow>
               if i = self s then update_prop q T nid s else refresh_foreign n s))"

definition updated ::
  "('qs, 'qb) qt_api \<Rightarrow> ('t, 'qs, 'qb) tree_api \<Rightarrow> node_ref \<Rightarrow> 't sync \<Rightarrow> fault + 't sync" where
  "updated q T = updated_with q T (refresh_value q T)"

abbreviation handle_events where
  "handle_events q T \<equiv> events_with q T (refresh_value q T)"

text \<open>\<^verbatim>\<open>get_value()\<close> as a caller sees it.\<close>

definition fake_get_value ::
  "('qs, 'qb) qt_api \<Rightarrow> ('t, 'qs, 'qb) tree_api \<Rightarrow> node_ref \<Rightarrow> 't sync
     \<Rightarrow> fault + (('qs, 'qb) pvalue option \<times> 't sync)" where
  "fake_get_value q T n s =
     andThen (refresh_value q T n s) (\<lambda>s. Inr (map_option prop_value (t_prop T (tree s) n), s))"

text \<open>A call of a proxy on its node_sync that writes one packet.\<close>

definition client_write :: "sync_id option \<Rightarrow> package \<Rightarrow> 't sync \<Rightarrow> fault + 't sync" where
  "client_write cl p s =
     (case cl of
        None \<Rightarrow> Inl Null_deref
      | Some i \<Rightarrow> if i = self s then dev_write p s
                  else Inr (s\<lparr>dev_calls := dev_calls s @ [Foreign i p]\<rparr>))"

definition subscribe :: "nid \<Rightarrow> 't sync \<Rightarrow> fault + 't sync" where
  "subscribe nid s = dev_write (prop_request nid CMD_SUBSCRIBE) s"

definition subscribe_add_remove :: "nid \<Rightarrow> 't sync \<Rightarrow> fault + 't sync" where
  "subscribe_add_remove nid s = dev_write (prop_request nid CMD_SUBSCRIBE_ADD_REMOVE) s"

definition unsubscribe :: "nid \<Rightarrow> 't sync \<Rightarrow> fault + 't sync" where
  "unsubscribe nid s = dev_write (prop_request nid CMD_UNSUBSCRIBE) s"

text \<open>Storing outside of \<^verbatim>\<open>update_prop\<close>, by the application or for a message of the peer.\<close>

definition store_value ::
  "('qs, 'qb) qt_api \<Rightarrow> ('t, 'qs, 'qb) tree_api \<Rightarrow> node_ref \<Rightarrow> ('qs, 'qb) store_call \<Rightarrow> 't sync
     \<Rightarrow> fault + 't sync" where
  "store_value q T = store_with q T (refresh_value q T)"

text \<open>\<^verbatim>\<open>property_value_fake::add_listener\<close> and \<^verbatim>\<open>remove_listener\<close>, for the property of a node.\<close>

definition prop_add_listener ::
  "('t, 'qs, 'qb) tree_api \<Rightarrow> node_ref \<Rightarrow> 't sync \<Rightarrow> fault + 't sync" where
  "prop_add_listener T n s =
     (let s = s\<lparr>tree := t_listen_prop T n (tree s)\<rparr>
      in case fake_of s n of
           None \<Rightarrow> Inr s
         | Some f \<Rightarrow>
             if t_prop_listeners T (tree s) n = 1
             then (case fk_nid f of
                     None \<Rightarrow> Inl Uninitialised
                   | Some nid \<Rightarrow> client_write (fk_client f) (prop_request nid CMD_SUBSCRIBE) s)
             else Inr s)"

definition prop_remove_listener ::
  "('t, 'qs, 'qb) tree_api \<Rightarrow> node_ref \<Rightarrow> 't sync \<Rightarrow> fault + 't sync" where
  "prop_remove_listener T n s =
     (let s = s\<lparr>tree := t_unlisten_prop T n (tree s)\<rparr>
      in case fake_of s n of
           None \<Rightarrow> Inr s
         | Some f \<Rightarrow>
             if t_prop_listeners T (tree s) n = 0
             then (case fk_nid f of
                     None \<Rightarrow> Inl Uninitialised
                   | Some nid \<Rightarrow> client_write (fk_client f) (prop_request nid CMD_UNSUBSCRIBE) s)
             else Inr s)"

text \<open>\<^verbatim>\<open>fetch_node(nid, name)\<close>.\<close>

definition fetch_node ::
  "('t, 'qs, 'qb) tree_api \<Rightarrow> nid \<Rightarrow> string \<Rightarrow> 't sync \<Rightarrow> fault + (node_ref option \<times> 't sync)" where
  "fetch_node T nid name s =
     andThen (append_string name (Ipc_Package.set_nid nid (set_cmd CMD_AT package_new))) (\<lambda>req.
     andThen (dev_send req s) (\<lambda>(rep, s).
       if get_cmd rep = CMD_AT_ERROR then Inr (None, s)
       else andThen (read_string rep [] 0) (\<lambda>(type, _).
         case generate T type s of
           (None, s) \<Rightarrow> Inr (None, s)
         | (Some cl, s) \<Rightarrow>
             let s = proxy_set_nid (get_nid rep) cl s;
                 s = do_track_as (Some cl) (get_nid rep) s;
                 s = proxy_set_client (Some (self s)) cl s
             in Inr (Some cl, s))))"

text \<open>\<^verbatim>\<open>ls(nid)\<close> and its loop over the names.\<close>

fun read_names :: "nat \<Rightarrow> package \<Rightarrow> u32 \<Rightarrow> fault + string list" where
  "read_names 0 rep pos = Inr []"
| "read_names (Suc n) rep pos =
     andThen (read_string rep [] pos) (\<lambda>(name, pos).
     andThen (read_names n rep pos) (\<lambda>res. Inr (name # res)))"

definition sync_ls :: "nid \<Rightarrow> 't sync \<Rightarrow> fault + (string list \<times> 't sync)" where
  "sync_ls nid s =
     andThen (dev_send (Ipc_Package.set_nid nid (set_cmd CMD_LS package_new)) s) (\<lambda>(rep, s).
       if get_cmd rep \<noteq> CMD_LS_SUCCESS then Inr ([], s)
       else andThen (read_u32 rep 0) (\<lambda>count.
            andThen (read_names (unat count) rep 4) (\<lambda>res. Inr (res, s))))"

text \<open>\<^verbatim>\<open>attach(nid, name, child)\<close>; it always returns \<^verbatim>\<open>true\<close>.\<close>

definition sync_attach ::
  "('t, 'qs, 'qb) tree_api \<Rightarrow> nid \<Rightarrow> node_ref \<Rightarrow> 't sync \<Rightarrow> fault + 't sync" where
  "sync_attach T nid child s =
     (if \<not> alive s child then Inl Use_after_free
      else let req = Ipc_Package.set_nid nid (set_cmd CMD_NODE_ATTACH package_new);
          type = (case t_prop T (tree s) child of None \<Rightarrow> [] | Some v \<Rightarrow> prop_type v)
      in andThen (append_string type req) (\<lambda>req.
         andThen (append_string (t_name T (tree s) child) req) (\<lambda>req.
         andThen (node_nid child s) (\<lambda>(child_nid, s).
           dev_write (append_nid child_nid req) s))))"

section \<open>client_node\<close>

text \<open>\<^verbatim>\<open>tree_node::attach\<close> with the notifications it causes.\<close>

definition base_attach ::
  "('qs, 'qb) qt_api \<Rightarrow> ('t, 'qs, 'qb) tree_api \<Rightarrow> node_ref \<Rightarrow> string \<Rightarrow> node_ref \<Rightarrow> 't sync
     \<Rightarrow> fault + 't sync" where
  "base_attach q T p name n s =
     (let (t, evs) = t_attach T p name n (tree s) in handle_events q T evs (s\<lparr>tree := t\<rparr>))"

text \<open>\<^verbatim>\<open>client_node::attach\<close> on the proxy \<open>p\<close> with members \<open>c\<close>.\<close>

definition client_attach ::
  "('qs, 'qb) qt_api \<Rightarrow> ('t, 'qs, 'qb) tree_api \<Rightarrow> node_ref \<Rightarrow> proxy \<Rightarrow> string \<Rightarrow> node_ref \<Rightarrow> 't sync
     \<Rightarrow> fault + 't sync" where
  "client_attach q T p c name obj s =
     (if t_children T (tree s) p name \<noteq> None then Inr s
      else case cn_client c of
        None \<Rightarrow> Inr s
      | Some i \<Rightarrow>
          andThen (base_attach q T p name obj s) (\<lambda>s.
            if (case proxy_of s obj of None \<Rightarrow> False | Some oc \<Rightarrow> get_client oc = Some i) then Inr s
            else if i = self s then sync_attach T (cn_nid c) obj s
            else Inr (s\<lparr>dev_calls := dev_calls s @ [Foreign_attach i (cn_nid c) name obj]\<rparr>)))"

text \<open>The virtual \<^verbatim>\<open>attach\<close> of a node.\<close>

definition node_attach ::
  "('qs, 'qb) qt_api \<Rightarrow> ('t, 'qs, 'qb) tree_api \<Rightarrow> node_ref \<Rightarrow> string \<Rightarrow> node_ref \<Rightarrow> 't sync
     \<Rightarrow> fault + 't sync" where
  "node_attach q T p name n s =
     (case p of
        App _ \<Rightarrow> base_attach q T p name n s
      | Proxy i \<Rightarrow>
          (case proxies s i of
             None \<Rightarrow> Inl Use_after_free
           | Some c \<Rightarrow> client_attach q T p c name n s))"

text \<open>\<^verbatim>\<open>client_node::at\<close>, and the virtual \<^verbatim>\<open>at\<close> of a node.\<close>

definition client_at ::
  "('t, 'qs, 'qb) tree_api \<Rightarrow> node_ref \<Rightarrow> string \<Rightarrow> 't \<Rightarrow> node_ref option \<times> 't" where
  "client_at T n path t =
     (let (m, t) = t_at T n path t in if m \<noteq> None then (m, t) else (m, t))"

definition node_at ::
  "('t, 'qs, 'qb) tree_api \<Rightarrow> node_ref \<Rightarrow> string \<Rightarrow> 't \<Rightarrow> node_ref option \<times> 't" where
  "node_at T n path t =
     (case n of App _ \<Rightarrow> t_at T n path t | Proxy _ \<Rightarrow> client_at T n path t)"

lemma node_at_eq [simp]: "node_at T n path t = t_at T n path t"
  by (simp add: node_at_def client_at_def split: node_ref.split prod.split)

text \<open>\<^verbatim>\<open>client_node::remove\<close>: the peer is not told.\<close>

definition client_remove ::
  "('qs, 'qb) qt_api \<Rightarrow> ('t, 'qs, 'qb) tree_api \<Rightarrow> node_ref \<Rightarrow> string \<Rightarrow> bool \<Rightarrow> 't sync
     \<Rightarrow> fault + (int \<times> 't sync)" where
  "client_remove q T n path recursive s =
     (let (res, t, evs) = t_remove T n path recursive (tree s)
      in andThen (handle_events q T evs (s\<lparr>tree := t\<rparr>)) (\<lambda>s. Inr (res, s)))"

text \<open>\<^verbatim>\<open>client_node::subscribe_add_remove\<close>.\<close>

definition client_subscribe_add_remove :: "node_ref \<Rightarrow> 't sync \<Rightarrow> fault + 't sync" where
  "client_subscribe_add_remove n s =
     (case proxy_of s n of
        None \<Rightarrow> Inl Use_after_free
      | Some c \<Rightarrow>
          if cn_client c = None then Inr s
          else client_write (cn_client c) (prop_request (cn_nid c) CMD_SUBSCRIBE_ADD_REMOVE) s)"

text \<open>The virtual \<^verbatim>\<open>ls\<close>: of \<^verbatim>\<open>tree_node\<close>, and of \<^verbatim>\<open>client_node\<close>, which asks its node_sync.\<close>

definition node_ls ::
  "('t, 'qs, 'qb) tree_api \<Rightarrow> node_ref \<Rightarrow> 't sync \<Rightarrow> fault + (string list \<times> 't sync)" where
  "node_ls T n s =
     (case n of
        App _ \<Rightarrow> Inr (t_ls T (tree s) n, s)
      | Proxy i \<Rightarrow>
          (case proxies s i of
             None \<Rightarrow> Inl Use_after_free
           | Some c \<Rightarrow>
               (case cn_client c of
                  None \<Rightarrow> Inr ([], s)
                | Some j \<Rightarrow>
                    if j = self s then sync_ls (cn_nid c) s
                    else Inr (t_ls T (tree s) n,
                              s\<lparr>dev_calls := dev_calls s @ [Foreign j (prop_request (cn_nid c) CMD_LS)]\<rparr>))))"

text \<open>The leading slashes \<^verbatim>\<open>client_node::get\<close> drops; a path of slashes only is left as it is.\<close>

definition strip_slashes :: "string \<Rightarrow> string" where
  "strip_slashes path =
     (let rest = dropWhile (\<lambda>c. c = CHR ''/'') path in if rest = [] then path else rest)"

text \<open>One level of \<^verbatim>\<open>client_node::get\<close>: makes sure the child exists, and says whether it does.\<close>

definition client_step ::
  "('qs, 'qb) qt_api \<Rightarrow> ('t, 'qs, 'qb) tree_api \<Rightarrow> node_ref \<Rightarrow> proxy \<Rightarrow> string \<Rightarrow> bool \<Rightarrow> 't sync
     \<Rightarrow> fault + (bool \<times> 't sync)" where
  "client_step q T n c name create s =
     (if t_children T (tree s) n name \<noteq> None then Inr (True, s)
      else if \<not> create then Inr (False, s)
      else andThen (fetch_node T (cn_nid c) name s) (\<lambda>(m, s).
        case m of
          None \<Rightarrow> Inr (False, s)
        | Some m \<Rightarrow>
            let (ok, t, evs) = t_insert T n name m (tree s)
            in andThen (handle_events q T evs (s\<lparr>tree := t\<rparr>)) (\<lambda>s. Inr (ok, s))))"

text \<open>
  \<^verbatim>\<open>client_node::get(path, create)\<close> on a proxy of this node_sync; the \<^verbatim>\<open>get\<close> of a child that is not
  one is \<open>t_get\<close>. Each level consumes one unit of fuel; running out is \<open>None\<close> of the outer option.
\<close>

fun client_get ::
  "('qs, 'qb) qt_api \<Rightarrow> ('t, 'qs, 'qb) tree_api \<Rightarrow> nat \<Rightarrow> node_ref \<Rightarrow> string \<Rightarrow> bool \<Rightarrow> 't sync
     \<Rightarrow> (fault + (node_ref option \<times> 't sync)) option" where
  "client_get q T 0 n path create s = None"
| "client_get q T (Suc fuel) n path create s =
     (case proxy_of s n of
        None \<Rightarrow> Some (Inl Use_after_free)
      | Some c \<Rightarrow>
          if cn_client c = None then Some (Inr (None, s))
          else let path = strip_slashes path
          in if path = ''/'' \<or> path = [] then Some (Inr (Some n, s))
          else let (name, rest_of_path) = t_split T path
          in (case client_step q T n c name create s of
                Inl e \<Rightarrow> Some (Inl e)
              | Inr (False, s) \<Rightarrow> Some (Inr (None, s))
              | Inr (True, s) \<Rightarrow>
                  (case t_children T (tree s) n name of
                     None \<Rightarrow> Some (Inr (None, s))
                   | Some m \<Rightarrow>
                       if \<not> alive s m then Some (Inl Use_after_free)
                       else if own_proxy s m then client_get q T fuel m rest_of_path create s
                       else let (r, t, evs) = t_get T m rest_of_path create (tree s)
                            in Some (andThen (handle_events q T evs (s\<lparr>tree := t\<rparr>)) (\<lambda>s. Inr (r, s))))))"

end
