(* ===== verification/Sync_Server.thy ===== *)
theory Sync_Server
  imports Sync_Client
begin

text \<open>
  What a \<^verbatim>\<open>node_sync\<close> does with the packets of its peer (\<^verbatim>\<open>node_sync.cpp\<close>): the reader thread calls
  \<open>process_notification\<close>, which answers a request for a node id at once and queues everything else;
  the processing thread pops the queue and runs one \<open>cmd_\<close> handler for each packet. A packet comes
  with its address, the \<^verbatim>\<open>package *\<close> that \<^verbatim>\<open>dev->reply\<close> uses to look up the id of the request.
  The end of the theory has the overrides of \<^verbatim>\<open>server\<close>, \<^verbatim>\<open>client\<close> and \<^verbatim>\<open>client_nonroot\<close>.
\<close>

section \<open>Requests\<close>

text \<open>The replies, each built in the order of the code.\<close>

definition response :: "nid \<Rightarrow> cmd \<Rightarrow> package" where
  "response nid c = Ipc_Package.set_nid nid (set_cmd c package_new)"

fun append_strings :: "string list \<Rightarrow> package \<Rightarrow> fault + package" where
  "append_strings [] p = Inr p"
| "append_strings (x # xs) p = andThen (append_string x p) (append_strings xs)"

definition cmd_ls ::
  "('t, 'qs, 'qb) tree_api \<Rightarrow> addr \<Rightarrow> package \<Rightarrow> 't sync \<Rightarrow> fault + 't sync" where
  "cmd_ls T a p s =
     (let nid = get_nid p
      in case get_node nid s of
           None \<Rightarrow> dev_reply a (response (get_nid p) CMD_LS_ERROR) s
         | Some t \<Rightarrow>
             andThen (node_ls T t s) (\<lambda>(list, s).
             andThen (append_strings list (append_u32 (of_nat (length list)) (response nid CMD_LS_SUCCESS)))
               (\<lambda>resp. dev_reply a resp s)))"

definition cmd_at ::
  "('t, 'qs, 'qb) tree_api \<Rightarrow> addr \<Rightarrow> package \<Rightarrow> 't sync \<Rightarrow> fault + 't sync" where
  "cmd_at T a p s =
     (case get_node (get_nid p) s of
        None \<Rightarrow> dev_reply a (response (get_nid p) CMD_AT_ERROR) s
      | Some t \<Rightarrow>
          if \<not> alive s t then Inl Use_after_free
          else andThen (read_string p [] 0) (\<lambda>(path, _).
            let (n, tr) = node_at T t path (tree s); s = s\<lparr>tree := tr\<rparr>
            in case n of
                 None \<Rightarrow> dev_reply a (response (get_nid p) CMD_AT_ERROR) s
               | Some n \<Rightarrow>
                   if \<not> alive s n then Inl Use_after_free
                   else andThen (node_nid n s) (\<lambda>(nid, s).
                     let type = (case t_prop T (tree s) n of None \<Rightarrow> [] | Some v \<Rightarrow> prop_type v)
                     in andThen (append_string type (response nid CMD_AT_SUCCESS))
                          (\<lambda>resp. dev_reply a resp s))))"

definition cmd_get_prop ::
  "('qs, 'qb) qt_api \<Rightarrow> ('t, 'qs, 'qb) tree_api \<Rightarrow> addr \<Rightarrow> package \<Rightarrow> 't sync \<Rightarrow> fault + 't sync" where
  "cmd_get_prop q T a p s =
     (let nid = get_nid p
      in andThen (get_prop T nid s) (\<lambda>prop.
           case prop of
             None \<Rightarrow> dev_reply a (response (get_nid p) CMD_PROP_GET_VALUE_ERROR) s
           | Some (n, _) \<Rightarrow>
               andThen (refresh_value q T n s) (\<lambda>s.
                 let buf = (case t_prop T (tree s) n of
                              None \<Rightarrow> [] | Some v \<Rightarrow> machine_serialize q machine_init v)
                 in andThen (append_buffer buf (response nid CMD_PROP_GET_VALUE_SUCCESS))
                      (\<lambda>resp. dev_reply a resp s))))"

definition cmd_subscribe ::
  "('t, 'qs, 'qb) tree_api \<Rightarrow> package \<Rightarrow> bool \<Rightarrow> 't sync \<Rightarrow> fault + 't sync" where
  "cmd_subscribe T p erase s =
     andThen (get_prop T (get_nid p) s) (\<lambda>pb.
       case pb of
         None \<Rightarrow> Inr s
       | Some (n, _) \<Rightarrow> if erase then prop_remove_listener T n s else prop_add_listener T n s)"

section \<open>Values\<close>

text \<open>\<^verbatim>\<open>tracked[nid]\<close>: a null entry is made for an id that is not in the table.\<close>

definition tracked_at :: "nid \<Rightarrow> 't sync \<Rightarrow> node_ref option \<times> 't sync" where
  "tracked_at nid s =
     (case map_of (tracked s) nid of
        Some m \<Rightarrow> (m, s)
      | None \<Rightarrow> (None, s\<lparr>tracked := map_put nid None (tracked s)\<rparr>))"

definition notify_change ::
  "('qs, 'qb) qt_api \<Rightarrow> ('t, 'qs, 'qb) tree_api \<Rightarrow> node_ref \<Rightarrow> 't sync \<Rightarrow> fault + 't sync" where
  "notify_change q T n s =
     (let (t, evs) = t_notify_change T n (tree s) in handle_events q T evs (s\<lparr>tree := t\<rparr>))"

text \<open>\<^verbatim>\<open>serializer.deserialize(buf, prop)\<close>.\<close>

definition deserialize_into ::
  "('qs, 'qb) qt_api \<Rightarrow> ('t, 'qs, 'qb) tree_api \<Rightarrow> byte list \<Rightarrow> node_ref \<times> ('qs, 'qb) prop_view
     \<Rightarrow> 't sync \<Rightarrow> fault + 't sync" where
  "deserialize_into q T buf np s =
     (case machine_deserialize q machine_init buf (snd np) of
        None \<Rightarrow> Inr s
      | Some call \<Rightarrow> store_value q T (fst np) call s)"

definition cmd_prop_value ::
  "('qs, 'qb) qt_api \<Rightarrow> ('t, 'qs, 'qb) tree_api \<Rightarrow> package \<Rightarrow> 't sync \<Rightarrow> fault + 't sync" where
  "cmd_prop_value q T p s =
     (let (m, s) = tracked_at (get_nid p) s
      in andThen (cast_prop T m s) (\<lambda>pb.
           case pb of
             None \<Rightarrow> Inr s
           | Some pb \<Rightarrow>
               let buf = vec_resize (data_size p) []
               in andThen (package_read p 0 (of_nat (length buf))) (\<lambda>r.
                    let buf = (case r of None \<Rightarrow> buf | Some bs \<Rightarrow> bs);
                        s = s\<lparr>update_in_process := True\<rparr>
                    in andThen (deserialize_into q T buf pb s) (\<lambda>s.
                         let s = s\<lparr>update_in_process := False\<rparr>
                         in notify_change q T (fst pb) s))))"

definition process_prop_value ::
  "('qs, 'qb) qt_api \<Rightarrow> ('t, 'qs, 'qb) tree_api \<Rightarrow> package \<Rightarrow> 't sync \<Rightarrow> fault + 't sync" where
  "process_prop_value q T p s =
     andThen (get_prop T (get_nid p) s) (\<lambda>prop.
       case prop of
         None \<Rightarrow> Inr s
       | Some (n, v) \<Rightarrow>
           (case fake_of s n of
              None \<Rightarrow> Inr s
            | Some pvf \<Rightarrow>
                if fk_deserialization pvf then Inr s
                else andThen (read_buffer p) (\<lambda>buf.
                  let s = set_deserialization True n (s\<lparr>update_in_process := True\<rparr>)
                  in andThen (deserialize_into q T buf (n, v) s) (\<lambda>s.
                     andThen (notify_change q T n s) (\<lambda>s.
                       Inr ((set_deserialization False n s)\<lparr>update_in_process := False\<rparr>))))))"

section \<open>Nodes of the peer\<close>

text \<open>\<^verbatim>\<open>cmd_attach\<close>; the response it builds is not sent.\<close>

definition cmd_attach ::
  "('qs, 'qb) qt_api \<Rightarrow> ('t, 'qs, 'qb) tree_api \<Rightarrow> package \<Rightarrow> 't sync \<Rightarrow> fault + 't sync" where
  "cmd_attach q T p s =
     (case map_of (tracked s) (get_nid p) of
        None \<Rightarrow> Inr s
      | Some parent \<Rightarrow>
          andThen (read_string p [] 0) (\<lambda>(type, pos).
          andThen (read_string p [] pos) (\<lambda>(name, pos).
          andThen (read_nid p (size_of_int pos)) (\<lambda>nid.
            case generate T type s of
              (None, s) \<Rightarrow> Inr s
            | (Some generated, s) \<Rightarrow>
                let s = do_track_as (Some generated) nid (proxy_set_nid nid generated s)
                in andThen (deref s parent) (\<lambda>parent.
                   andThen (node_attach q T parent name generated s)
                     (client_subscribe_add_remove generated))))))"

definition cmd_subscribe_add_remove ::
  "('qs, 'qb) qt_api \<Rightarrow> ('t, 'qs, 'qb) tree_api \<Rightarrow> package \<Rightarrow> bool \<Rightarrow> 't sync \<Rightarrow> fault + 't sync" where
  "cmd_subscribe_add_remove q T p erase s =
     (case map_of (tracked s) (get_nid p) of
        None \<Rightarrow> Inr s
      | Some nd \<Rightarrow>
          if erase then Inr s
          else andThen (deref s nd) (\<lambda>nd.
            let (t, evs) = t_listen T nd None (tree s)
            in handle_events q T evs (s\<lparr>tree := t\<rparr>)))"

text \<open>The node a \<^verbatim>\<open>CMD_CHILD_ADDED\<close> is about: the tracked one, or a new proxy.\<close>

definition found_or_generated ::
  "('t, 'qs, 'qb) tree_api \<Rightarrow> nid \<Rightarrow> string \<Rightarrow> 't sync \<Rightarrow> fault + (node_ref option \<times> 't sync)" where
  "found_or_generated T nid type s =
     (case get_node nid s of
        Some n \<Rightarrow> Inr (Some n, s)
      | None \<Rightarrow>
          (case generate T type s of
             (None, s) \<Rightarrow> Inr (None, s)
           | (Some nd, s) \<Rightarrow>
               let s = do_track_as (Some nd) nid (proxy_set_nid nid nd s)
               in andThen (client_subscribe_add_remove nd s) (\<lambda>s. Inr (Some nd, s))))"

definition cmd_child_added ::
  "('qs, 'qb) qt_api \<Rightarrow> ('t, 'qs, 'qb) tree_api \<Rightarrow> package \<Rightarrow> 't sync \<Rightarrow> fault + 't sync" where
  "cmd_child_added q T p s =
     (case get_node (get_nid p) s of
        None \<Rightarrow> Inr s
      | Some parent \<Rightarrow>
          andThen (read_nid p (size_of_int 0)) (\<lambda>nid.
          andThen (read_string p [] (0 + 8)) (\<lambda>(name, pos).
          andThen (read_string p [] pos) (\<lambda>(type, pos).
          andThen (read_bool p (size_of_int pos)) (\<lambda>is_parent.
          andThen (found_or_generated T nid type s) (\<lambda>(found_node, s).
            case found_node of
              None \<Rightarrow> Inr s
            | Some found_node \<Rightarrow>
                andThen (node_attach q T parent name found_node s) (\<lambda>s.
                  if is_parent then Inr (s\<lparr>tree := t_set_owner T found_node parent (tree s)\<rparr>)
                  else Inr s)))))))"

section \<open>Dispatch\<close>

definition process_package ::
  "('qs, 'qb) qt_api \<Rightarrow> ('t, 'qs, 'qb) tree_api \<Rightarrow> addr \<Rightarrow> package \<Rightarrow> 't sync \<Rightarrow> fault + 't sync" where
  "process_package q T a p s =
     (let c = get_cmd p
      in if c = CMD_AT_SUCCESS
           then (let (n, s) = new_proxy T (get_nid p) [] None s;
                     s = proxy_set_client (Some (self s)) n s
                 in Inr (do_track_as (Some n) (get_nid p) s))
         else if c = CMD_PROP_VALUE_UPDATED then process_prop_value q T p s
         else if c = CMD_AT then cmd_at T a p s
         else if c = CMD_LS then cmd_ls T a p s
         else if c = CMD_PROP_GET_VALUE then cmd_get_prop q T a p s
         else if c = CMD_SUBSCRIBE then cmd_subscribe T p False s
         else if c = CMD_UNSUBSCRIBE then cmd_subscribe T p True s
         else if c = CMD_PROP_SET_VALUE then cmd_prop_value q T p s
         else if c = CMD_NODE_ATTACH then cmd_attach q T p s
         else if c = CMD_SUBSCRIBE_ADD_REMOVE then cmd_subscribe_add_remove q T p False s
         else if c = CMD_CHILD_ADDED then cmd_child_added q T p s
         else Inr s)"

text \<open>
  \<^verbatim>\<open>process_notification\<close>, on the reader thread. The size test admits packets without a whole
  header.
\<close>

definition process_notification :: "(addr \<times> package) option \<Rightarrow> 't sync \<Rightarrow> fault + 't sync" where
  "process_notification m s =
     (case m of
        None \<Rightarrow> Inr s
      | Some (a, p) \<Rightarrow>
          if length (vec p) < 1 then Inr s
          else if \<not> has_header p then Inl Out_of_bounds
          else if get_cmd p = CMD_GENERATE_NID
            then andThen (generate_nid s) (\<lambda>(nid, s).
                   dev_reply a (Ipc_Package.set_nid nid package_new) s)
          else Inr (s\<lparr>pkg_queue := push m (pkg_queue s)\<rparr>))"

text \<open>
  One iteration of \<^verbatim>\<open>package_processing_routine\<close>, with the flag \<^verbatim>\<open>package_processing_thread_run\<close> as
  the thread finds it after the pop: \<open>None\<close> while the queue is empty and the thread sleeps in \<^verbatim>\<open>pop\<close>,
  otherwise whether the loop goes on.
\<close>

definition processing_step ::
  "('qs, 'qb) qt_api \<Rightarrow> ('t, 'qs, 'qb) tree_api \<Rightarrow> bool \<Rightarrow> 't sync \<Rightarrow> (fault + (bool \<times> 't sync)) option" where
  "processing_step q T run s =
     (case pop (pkg_queue s) of
        None \<Rightarrow> None
      | Some (m, qu) \<Rightarrow>
          let s = s\<lparr>pkg_queue := qu\<rparr>
          in Some (case m of
                     None \<Rightarrow> Inr (False, s)
                   | Some (a, p) \<Rightarrow>
                       if \<not> run then Inr (False, s)
                       else andThen (process_package q T a p s) (\<lambda>s. Inr (True, s))))"

text \<open>
  The loop, for at most \<open>fuel\<close> iterations: it stops when the thread sleeps (\<open>True\<close>) or ends
  (\<open>False\<close>); \<open>None\<close> is running out of fuel.
\<close>

fun package_processing_routine ::
  "('qs, 'qb) qt_api \<Rightarrow> ('t, 'qs, 'qb) tree_api \<Rightarrow> nat \<Rightarrow> bool \<Rightarrow> 't sync
     \<Rightarrow> (fault + (bool \<times> 't sync)) option" where
  "package_processing_routine q T 0 run s = None"
| "package_processing_routine q T (Suc fuel) run s =
     (case processing_step q T run s of
        None \<Rightarrow> Some (Inr (True, s))
      | Some (Inl e) \<Rightarrow> Some (Inl e)
      | Some (Inr (False, s)) \<Rightarrow> Some (Inr (False, s))
      | Some (Inr (True, s)) \<Rightarrow> package_processing_routine q T fuel run s)"

text \<open>
  The destructor: it clears the flag, wakes the thread with a null packet, and joins the thread, which
  is then between two packets. \<open>None\<close> would be a thread that never ends.
\<close>

definition sync_destroy :: "'t sync \<Rightarrow> 't sync" where
  "sync_destroy s = s\<lparr>pkg_queue := push None (pkg_queue s)\<rparr>"

definition sync_join ::
  "('qs, 'qb) qt_api \<Rightarrow> ('t, 'qs, 'qb) tree_api \<Rightarrow> 't sync \<Rightarrow> (fault + 't sync) option" where
  "sync_join q T s =
     (case processing_step q T False (sync_destroy s) of
        Some (Inr (False, s)) \<Rightarrow> Some (Inr s)
      | Some (Inl e) \<Rightarrow> Some (Inl e)
      | _ \<Rightarrow> None)"

section \<open>The three kinds of node_sync\<close>

text \<open>
  \<^verbatim>\<open>server::generate_nid\<close>, with the counter of class \<^verbatim>\<open>server\<close> before and after. It hides the
  function of the base class, which is not virtual: \<^verbatim>\<open>do_track\<close> uses the counter of the base class,
  and this one is never used.
\<close>

definition server_generate_nid :: "nid \<Rightarrow> nid \<times> nid" where
  "server_generate_nid counter = (counter, counter + 1)"

text \<open>\<^verbatim>\<open>server::set_root\<close>.\<close>

definition server_set_root :: "node_ref option \<Rightarrow> 't sync \<Rightarrow> fault + 't sync" where
  "server_set_root t s =
     (let s = sync_set_root t s
      in case t of
           None \<Rightarrow> Inr (untrack None s)
         | Some _ \<Rightarrow> andThen (do_track t s) (\<lambda>(_, s). Inr s))"

text \<open>\<^verbatim>\<open>client::get_root\<close>.\<close>

definition client_get_root ::
  "('t, 'qs, 'qb) tree_api \<Rightarrow> 't sync \<Rightarrow> fault + (node_ref option \<times> 't sync)" where
  "client_get_root T s =
     (if root_node s \<noteq> None then Inr (root_node s, s)
      else andThen (fetch_node T 0 ''/'' s) (\<lambda>(root, s). Inr (root, sync_set_root root s)))"

text \<open>\<^verbatim>\<open>client_nonroot::set_root\<close> and \<^verbatim>\<open>client_nonroot::stream_opened\<close>.\<close>

definition nonroot_set_root :: "node_ref option \<Rightarrow> 't sync \<Rightarrow> 't sync" where
  "nonroot_set_root r s = sync_set_root r s"

definition nonroot_stream_opened ::
  "('qs, 'qb) qt_api \<Rightarrow> ('t, 'qs, 'qb) tree_api \<Rightarrow> 't sync \<Rightarrow> fault + 't sync" where
  "nonroot_stream_opened q T s =
     andThen (subscribe_add_remove 0 (do_track_as (root_node s) 0 s)) (\<lambda>s.
       case root_node s of
         None \<Rightarrow> Inr s
       | Some root \<Rightarrow>
           let (t, evs) = t_listen T root (Some False) (tree s)
           in handle_events q T evs (s\<lparr>tree := t\<rparr>))"

text \<open>
  \<^verbatim>\<open>client_nonroot::child_added(p, name, n)\<close>. Its parameters differ from those of the base class, so it
  overrides nothing and the tree never calls it.
\<close>

definition nonroot_child_added ::
  "('t, 'qs, 'qb) tree_api \<Rightarrow> node_ref \<Rightarrow> string \<Rightarrow> node_ref \<Rightarrow> 't sync \<Rightarrow> fault + 't sync" where
  "nonroot_child_added T p name n s =
     (if \<not> alive s n then Inl Use_after_free
      else if own_proxy s n then Inr s
      else if t_owner T (tree s) n = root_node s then Inr s
      else child_added T p n s)"

end
