(* ===== verification/Sample_Tree.thy ===== *)
theory Sample_Tree
  imports Tree_Api
begin

text \<open>
  A small tree that can be evaluated: an instance of \<open>tree_api\<close>, which shows that what the
  development assumes of the \<^verbatim>\<open>tree\<close> library can be met, and on which the properties are applied to
  concrete inputs. It is not a model of that library.
\<close>

record ('qs, 'qb) sample =
  sm_name :: "node_ref \<Rightarrow> string"
  sm_owner :: "node_ref \<Rightarrow> node_ref option"
  sm_kids :: "(node_ref \<times> string \<times> node_ref) list"
  sm_prop :: "node_ref \<Rightarrow> ('qs, 'qb) prop_view option"
  sm_watched :: "node_ref list"
  sm_subscribed :: "node_ref list"

definition kids_of :: "('qs, 'qb) sample \<Rightarrow> node_ref \<Rightarrow> (string \<times> node_ref) list" where
  "kids_of t n = map snd (filter (\<lambda>k. fst k = n) (sm_kids t))"

definition add_kid ::
  "node_ref \<Rightarrow> string \<Rightarrow> node_ref \<Rightarrow> ('qs, 'qb) sample \<Rightarrow> ('qs, 'qb) sample" where
  "add_kid p name n t =
     t\<lparr>sm_kids := sm_kids t @ [(p, name, n)],
       sm_owner := (if sm_owner t n = None then (sm_owner t)(n \<mapsto> p) else sm_owner t),
       sm_name := (sm_name t)(n := name)\<rparr>"

definition drop_kid :: "node_ref \<Rightarrow> ('qs, 'qb) sample \<Rightarrow> ('qs, 'qb) sample" where
  "drop_kid n t =
     t\<lparr>sm_kids := filter (\<lambda>k. snd (snd k) \<noteq> n) (sm_kids t), sm_owner := (sm_owner t)(n := None)\<rparr>"

definition find_at :: "('qs, 'qb) sample \<Rightarrow> node_ref \<Rightarrow> string \<Rightarrow> node_ref option" where
  "find_at t n path = (if path = [] \<or> path = ''/'' then Some n else map_of (kids_of t n) path)"

fun split_path :: "string \<Rightarrow> string \<times> string" where
  "split_path [] = ([], [])"
| "split_path (c # cs) =
     (if c = CHR ''/'' then split_path cs
      else (c # takeWhile (\<lambda>c. c \<noteq> CHR ''/'') cs, dropWhile (\<lambda>c. c \<noteq> CHR ''/'') cs))"

text \<open>The value a new property of a type has.\<close>

definition initial :: "'qs \<Rightarrow> 'qb \<Rightarrow> string \<Rightarrow> ('qs, 'qb) prop_view option" where
  "initial qs qb type =
     map_option (\<lambda>v. \<lparr>prop_type = type, prop_value = v\<rparr>)
       (map_of [(type_double, VDouble 0), (type_float, VFloat 0), (type_int, VInt 0), (type_bool, VBool 0),
                (type_QString, VQString qs), (type_QByteArray, VQByteArray qb)] type)"

definition sample_tree :: "'qs \<Rightarrow> 'qb \<Rightarrow> (('qs, 'qb) sample, 'qs, 'qb) tree_api" where
  "sample_tree qs qb =
     \<lparr>t_name = sm_name, t_owner = sm_owner,
      t_set_owner = (\<lambda>n p t. t\<lparr>sm_owner := (sm_owner t)(n \<mapsto> p)\<rparr>),
      t_children = (\<lambda>t n. map_of (kids_of t n)),
      t_ls = (\<lambda>t n. map fst (kids_of t n)),
      t_at = (\<lambda>n path t. (find_at t n path, t)),
      t_split = split_path,
      t_get = (\<lambda>n path create t. (find_at t n path, t, [])),
      t_attach = (\<lambda>p name n t.
        (add_kid p name n t, if p \<in> set (sm_watched t) then [Child_added p n] else [])),
      t_insert = (\<lambda>p name n t. (True, add_kid p name n t, [])),
      t_remove = (\<lambda>p name recursive t. case map_of (kids_of t p) name of
          None \<Rightarrow> (- 1, t, [])
        | Some n \<Rightarrow> (0, drop_kid n t, if p \<in> set (sm_watched t) then [Child_removed p name n] else [])),
      t_detach = (\<lambda>p n t. drop_kid n t),
      t_new = (\<lambda>n type t. t\<lparr>sm_prop := (sm_prop t)(n := initial qs qb type)\<rparr>),
      t_delete = (\<lambda>n t. (drop_kid n t)
        \<lparr>sm_owner := (\<lambda>m. if sm_owner t m = Some n \<or> m = n then None else sm_owner t m)\<rparr>),
      t_prop = sm_prop,
      t_store = (\<lambda>n call t.
        (t\<lparr>sm_prop := (sm_prop t)(n := map_option (\<lambda>c. c\<lparr>prop_value := stored call\<rparr>) (sm_prop t n))\<rparr>,
         if n \<in> set (sm_subscribed t) then [Updated n] else [])),
      t_notify_change = (\<lambda>n t. (t, if n \<in> set (sm_subscribed t) then [Updated n] else [])),
      t_listen = (\<lambda>n append t.
        (t\<lparr>sm_watched := n # sm_watched t\<rparr>,
         if append = Some False then [] else map (\<lambda>k. Child_added n (snd k)) (kids_of t n))),
      t_listen_prop = (\<lambda>n t. t\<lparr>sm_subscribed := n # sm_subscribed t\<rparr>),
      t_unlisten_prop = (\<lambda>n t. t\<lparr>sm_subscribed := remove1 n (sm_subscribed t)\<rparr>),
      t_prop_listeners = (\<lambda>t n. count_list (sm_subscribed t) n)\<rparr>"

definition no_nodes :: "('qs, 'qb) sample" where
  "no_nodes =
     \<lparr>sm_name = (\<lambda>_. []), sm_owner = Map.empty, sm_kids = [], sm_prop = Map.empty, sm_watched = [],
      sm_subscribed = []\<rparr>"

lemmas sample_defs = sample_tree_def kids_of_def add_kid_def drop_kid_def find_at_def initial_def
  no_nodes_def

end
