(* ===== verification/Sync_Invariant.thy ===== *)
theory Sync_Invariant
  imports Sync_Server Sample_Tree
begin

text \<open>
  What the operations of a \<^verbatim>\<open>node_sync\<close> do to its state as a whole. Every operation is a sequence of a
  few primitive steps; the locale \<open>sync_relation\<close> states them as the contract of a relation between
  the state before and after, and proves once that every handler keeps such a relation. It is
  interpreted twice: with the frame of the handlers (\<open>sync_frame\<close>: what none of them touches and what
  only grows), and with the invariant \<open>sync_ok\<close> of the table of tracked nodes.
\<close>

section \<open>New proxies\<close>

text \<open>A new proxy of this node_sync with its id set, and tracked.\<close>

definition adopt :: "'t \<Rightarrow> fake option \<Rightarrow> nid \<Rightarrow> 't sync \<Rightarrow> 't sync" where
  "adopt t fk nid s =
     s\<lparr>next_proxy := Suc (next_proxy s),
       proxies := (proxies s)(next_proxy s \<mapsto>
         \<lparr>cn_nid = nid, cn_client = Some (self s), cn_fake = fk\<rparr>),
       tree := t,
       tracked := map_put nid (Some (Proxy (next_proxy s))) (tracked s)\<rparr>"

text \<open>The tree after the base-class part of the construction.\<close>

abbreviation born where
  "born T type s \<equiv> t_new T (Proxy (next_proxy s)) type (tree s)"

text \<open>The \<^verbatim>\<open>property_fake\<close> part of a proxy for a type name.\<close>

definition fake_for :: "string \<Rightarrow> sync_id \<Rightarrow> nid \<Rightarrow> fake option" where
  "fake_for type i nid =
     (if type = [] then None
      else Some \<lparr>fk_nid = Some nid, fk_deserialization = False, fk_client = Some i\<rparr>)"

lemmas proxy_defs = update_proxy_def proxy_set_nid_def proxy_set_client_def new_proxy_def
  set_deserialization_def

definition known_types :: "string set" where
  "known_types = {[], type_double, type_int, type_bool, type_QString, type_QByteArray}"

lemma property_factories_eq:
  "property_factories type =
     (if type \<in> known_types then Some (if type = [] then Untyped else Typed type) else None)"
  by (simp add: property_factories_def known_types_def type_names)

lemma generate_None: "generate T type s = (None, s') \<longleftrightarrow> type \<notin> known_types \<and> s' = s"
  by (auto simp: generate_def property_factories_eq split: prod.splits)

lemma generate_adopt:
  assumes "generate T type s = (Some n, s')"
  shows "type \<in> known_types \<and> n = Proxy (next_proxy s)
    \<and> do_track_as (Some n) nid (proxy_set_nid nid n s')
        = adopt (born T type s) (fake_for type (self s) nid) nid s"
  using assms
  by (auto simp: generate_def property_factories_eq proxy_defs do_track_as_def adopt_def fake_for_def Let_def
      split: if_splits)

lemma proxy_set_client_adopt:
  "proxy_set_client (Some (self s)) (Proxy (next_proxy s)) (adopt t fk nid s)
     = adopt t fk nid s"
  by (simp add: adopt_def proxy_set_client_def update_proxy_def)

lemma at_success_adopt:
  "(let (n, s) = new_proxy T nid [] None s; s = proxy_set_client (Some (self s)) n s
    in Inr (do_track_as (Some n) nid s)) = Inr (adopt (born T [] s) None nid s)"
  by (simp add: new_proxy_def proxy_set_client_def update_proxy_def do_track_as_def adopt_def Let_def)

section \<open>What tracking leaves alone\<close>

lemma dev_send_frame:
  "dev_send req s = Inr (rep, s') \<Longrightarrow>
     proxies s' = proxies s \<and> tracked s' = tracked s \<and> self s' = self s \<and> is_server s' = is_server s
       \<and> tree s' = tree s"
  by (auto simp: dev_send_def Let_def split: if_splits list.splits option.splits)

lemma generate_nid_frame:
  assumes "generate_nid s = Inr (k, s')"
  shows "proxies s' = proxies s \<and> tracked s' = tracked s \<and> self s' = self s \<and> is_server s' = is_server s
       \<and> tree s' = tree s"
proof (cases "is_server s")
  case True
  with assms show ?thesis by (auto simp: generate_nid_def)
next
  case False
  with assms obtain rep where "dev_send (set_cmd CMD_GENERATE_NID package_new) s = Inr (rep, s')"
    by (auto simp: generate_nid_def andThen_eq_Inr Let_def)
  then show ?thesis by (rule dev_send_frame)
qed

text \<open>The two ways \<^verbatim>\<open>get_nid\<close> goes.\<close>

lemma node_nid_cases:
  assumes "node_nid n s = Inr (k, s')"
  obtains (known) "find_key (Some n) (tracked s) = Some k" and "s' = s"
    | (new) s1 where "find_key (Some n) (tracked s) = None" and "generate_nid s = Inr (k, s1)"
        and "s' = do_track_as (Some n) k s1"
  using assms
  by (fastforce simp: node_nid_def get_nid_of_def do_track_def andThen_eq_Inr split: option.splits)

lemma node_nid_frame:
  assumes "node_nid n s = Inr (k, s')"
  shows "proxies s' = proxies s \<and> self s' = self s \<and> tree s' = tree s"
  using assms
proof (cases rule: node_nid_cases)
  case known
  then show ?thesis by simp
next
  case (new s1)
  then show ?thesis using generate_nid_frame [of s k s1] by (simp add: do_track_as_def)
qed

section \<open>The ways through the operations\<close>

lemma update_prop_cases:
  assumes "update_prop q T nid s = Inr s'"
  obtains (same) "s' = s"
    | (fetched) n v f rep s1 buf s2 where "\<not> update_in_process s" and "get_prop T nid s = Inr (Some (n, v))"
        and "fake_of s n = Some f" and "\<not> fk_deserialization f"
        and "dev_send (prop_request nid CMD_PROP_GET_VALUE) s = Inr (rep, s1)"
        and "read_buffer rep = Inr buf"
        and "store_fetched q T buf (n, v) (set_deserialization True n (s1\<lparr>update_in_process := True\<rparr>)) = Inr s2"
        and "s' = (set_deserialization False n s2)\<lparr>update_in_process := False\<rparr>"
proof (cases "s' = s")
  case True
  then show ?thesis by (rule same)
next
  case False
  then have idle: "\<not> update_in_process s" using assms by (auto simp: update_prop_def)
  with assms obtain p where p: "get_prop T nid s = Inr p" by (auto simp: update_prop_def andThen_eq_Inr)
  with assms idle False obtain n v where nv: "p = Some (n, v)"
    by (cases p) (auto simp: update_prop_def)
  with assms idle p False obtain f where f: "fake_of s n = Some f" "\<not> fk_deserialization f"
    by (cases "fake_of s n") (auto simp: update_prop_def split: if_splits)
  with assms idle p nv False fetched show ?thesis
    by (auto simp: update_prop_def andThen_eq_Inr Let_def)
qed

lemma store_with_cases:
  assumes "store_with q T refresh n call s = Inr s'"
  obtains (stored) t evs s1 where "t_store T n call (tree s) = (t, evs)"
    and "events_with q T refresh evs (s\<lparr>tree := t\<rparr>) = Inr s1"
    and "s' = s1 \<or> (\<exists>f v. request_set q T n f v s1 = Inr s')"
proof -
  obtain t evs where call: "t_store T n call (tree s) = (t, evs)" by (cases "t_store T n call (tree s)")
  with assms obtain s1 where ev: "events_with q T refresh evs (s\<lparr>tree := t\<rparr>) = Inr s1"
    by (auto simp: store_with_def andThen_eq_Inr)
  with assms call have "s' = s1 \<or> (\<exists>f v. request_set q T n f v s1 = Inr s')"
    by (cases "fake_of s1 n"; cases call) (auto simp: store_with_def split: if_splits)
  with call ev stored show ?thesis by blast
qed

lemma fetch_node_cases:
  assumes "fetch_node T nid name s = Inr (m, s')"
  obtains (none) req rep where "dev_send req s = Inr (rep, s')" and "m = None"
    | (fetched) req rep s1 type where "dev_send req s = Inr (rep, s1)"
        and "m = Some (Proxy (next_proxy s1))"
        and "s' = adopt (born T type s1) (fake_for type (self s1) (get_nid rep)) (get_nid rep) s1"
        and "get_cmd rep \<noteq> CMD_AT_ERROR"
proof -
  from assms obtain req rep s1 where send: "dev_send req s = Inr (rep, s1)"
    and rest: "(if get_cmd rep = CMD_AT_ERROR then Inr (None, s1)
       else andThen (read_string rep [] 0) (\<lambda>(type, _).
         case generate T type s1 of
           (None, s) \<Rightarrow> Inr (None, s)
         | (Some cl, s) \<Rightarrow>
             let s = proxy_set_nid (get_nid rep) cl s;
                 s = do_track_as (Some cl) (get_nid rep) s;
                 s = proxy_set_client (Some (self s)) cl s
             in Inr (Some cl, s))) = Inr (m, s')"
    unfolding fetch_node_def andThen_eq_Inr by auto
  show ?thesis
  proof (cases "get_cmd rep = CMD_AT_ERROR")
    case True
    with send rest none show ?thesis by simp
  next
    case False
    with rest obtain type pos where type: "read_string rep [] 0 = Inr (type, pos)"
      by (auto simp: andThen_eq_Inr)
    obtain m' s2 where gen: "generate T type s1 = (m', s2)" by (cases "generate T type s1")
    show ?thesis
    proof (cases m')
      case None
      from gen [unfolded None] have "s2 = s1" by (simp add: generate_None)
      with gen None rest type False have "m = None" "s' = s1" by simp_all
      with send none show ?thesis by simp
    next
      case (Some cl)
      note g = generate_adopt [OF gen [unfolded Some], of "get_nid rep"]
      with gen rest type False Some have "m = Some (Proxy (next_proxy s1))"
        "s' = adopt (born T type s1) (fake_for type (self s1) (get_nid rep)) (get_nid rep) s1"
        using proxy_set_client_adopt [of s1 "born T type s1" "fake_for type (self s1) (get_nid rep)" "get_nid rep"]
        by (auto simp: Let_def adopt_def)
      with send fetched False show ?thesis by blast
    qed
  qed
qed

section \<open>The contract\<close>

text \<open>The id in a \<^verbatim>\<open>CMD_NODE_ATTACH\<close>.\<close>

definition attach_nid :: "package \<Rightarrow> fault + nid" where
  "attach_nid p =
     andThen (read_string p [] 0) (\<lambda>(_, pos).
     andThen (read_string p [] pos) (\<lambda>(_, pos). read_nid p (size_of_int pos)))"

text \<open>
  A packet whose ids are as the relation needs them: an id for a new proxy is \<open>fresh\<close>, and a value
  is set for a tracked id, unless \<open>plant\<close> permits a null entry.
\<close>

definition admissible ::
  "(nid \<Rightarrow> 't sync \<Rightarrow> bool) \<Rightarrow> (nid \<Rightarrow> 't sync \<Rightarrow> bool) \<Rightarrow> package \<Rightarrow> 't sync \<Rightarrow> bool" where
  "admissible fresh plant p s \<longleftrightarrow>
     (get_cmd p = CMD_AT_SUCCESS \<longrightarrow> fresh (get_nid p) s) \<and>
     (get_cmd p = CMD_PROP_SET_VALUE \<longrightarrow> map_of (tracked s) (get_nid p) \<noteq> None \<or> plant (get_nid p) s) \<and>
     (get_cmd p = CMD_NODE_ATTACH \<longrightarrow>
        (case attach_nid p of Inl _ \<Rightarrow> True | Inr nid \<Rightarrow> fresh nid s)) \<and>
     (get_cmd p = CMD_CHILD_ADDED \<longrightarrow>
        (case read_nid p 0 of Inl _ \<Rightarrow> True | Inr nid \<Rightarrow> get_node nid s \<noteq> None \<or> fresh nid s))"

locale sync_relation =
  fixes R :: "'t sync \<Rightarrow> 't sync \<Rightarrow> bool"
    and fresh :: "nid \<Rightarrow> 't sync \<Rightarrow> bool"
    and plant :: "nid \<Rightarrow> 't sync \<Rightarrow> bool"
  assumes refl: "R s s"
    and trans: "R s s' \<Longrightarrow> R s' s'' \<Longrightarrow> R s s''"
    and set_tree: "R s (s\<lparr>tree := t\<rparr>)"
    and add_call: "R s (s\<lparr>dev_calls := dev_calls s @ [c]\<rparr>)"
    and set_answers: "R s (s\<lparr>answers := as\<rparr>)"
    and set_update: "R s (s\<lparr>update_in_process := b\<rparr>)"
    and set_deser: "R s (set_deserialization b n s)"
    and track_counted: "is_server s \<Longrightarrow> find_key (Some n) (tracked s) = None \<Longrightarrow> alive s n \<Longrightarrow>
          R s (do_track_as (Some n) (current_nid s) (s\<lparr>current_nid := current_nid s + 1\<rparr>))"
    and track_asked: "\<not> is_server s \<Longrightarrow> find_key (Some n) (tracked s) = None \<Longrightarrow> alive s n \<Longrightarrow>
          R s (do_track_as (Some n) k s)"
    and adopted: "fresh k s \<Longrightarrow> R s (adopt t fk k s)"
    and planted: "plant k s \<Longrightarrow> map_of (tracked s) k = None \<Longrightarrow>
          R s (s\<lparr>tracked := map_put k None (tracked s)\<rparr>)"

begin

lemmas step = trans [OF _ set_tree] trans [OF _ add_call] trans [OF _ set_answers]
  trans [OF _ set_update] trans [OF _ set_deser]

lemma R_dev_write: "dev_write p s = Inr s' \<Longrightarrow> R s s'"
  by (auto simp: dev_write_def intro: add_call split: if_splits)

lemma R_dev_reply: "dev_reply a p s = Inr s' \<Longrightarrow> R s s'"
  by (auto simp: dev_reply_def intro: add_call split: if_splits)

lemma R_dev_send: "dev_send p s = Inr (rep, s') \<Longrightarrow> R s s'"
  by (auto simp: dev_send_def Let_def intro: add_call trans [OF add_call set_answers]
      split: if_splits list.splits option.splits)

lemma R_node_nid:
  assumes "node_nid n s = Inr (k, s')" and "alive s n"
  shows "R s s'"
  using assms(1)
proof (cases rule: node_nid_cases)
  case known
  then show ?thesis by (simp add: refl)
next
  case (new s1)
  show ?thesis
  proof (cases "is_server s")
    case True
    with new assms(2) show ?thesis by (auto simp: generate_nid_def intro: track_counted)
  next
    case False
    with new(2) obtain rep where send: "dev_send (set_cmd CMD_GENERATE_NID package_new) s = Inr (rep, s1)"
      by (auto simp: generate_nid_def andThen_eq_Inr Let_def)
    have "R s1 s'"
      unfolding new(3) using dev_send_frame [OF send] new(1) False assms(2)
      by (intro track_asked) (auto simp: alive_def split: node_ref.splits)
    with R_dev_send [OF send] show ?thesis by (rule trans)
  qed
qed

lemma R_child_added:
  assumes "child_added T p n s = Inr s'"
  shows "R s s'"
proof (cases "has_dev s")
  case False
  with assms show ?thesis by (auto simp: child_added_def refl split: if_splits)
next
  case True
  with assms obtain k s1 where alive: "alive s p" "alive s n" and p: "node_nid p s = Inr (k, s1)"
    and rest: "s' = s1 \<or> (\<exists>k' s2 pack. node_nid n s1 = Inr (k', s2) \<and> dev_write pack s2 = Inr s')"
    by (fastforce simp: child_added_def andThen_eq_Inr Let_def split: if_splits)
  have R1: "R s s1" using R_node_nid [OF p alive(1)] .
  have "alive s1 n" using node_nid_frame [OF p] alive(2) by (simp add: alive_def split: node_ref.splits)
  with rest R1 show ?thesis by (metis R_dev_write R_node_nid trans)
qed

text \<open>Values.\<close>

lemma R_updated_with:
  assumes "updated_with q T refresh n s = Inr s'"
    and "\<And>n s s'. refresh n s = Inr s' \<Longrightarrow> R s s'"
  shows "R s s'"
proof -
  from assms(1) obtain nid s1 s2 resp where "get_nid_of (Some n) False s = Inr (nid, s1)"
    and "refresh n s1 = Inr s2" and "dev_write resp s2 = Inr s'"
    by (fastforce simp: updated_with_def andThen_eq_Inr Let_def split: option.splits)
  moreover from this(1) have "s1 = s" by (auto simp: get_nid_of_def split: option.splits)
  ultimately show ?thesis using assms(2) R_dev_write trans by metis
qed

lemma R_events_with:
  assumes "events_with q T refresh es s = Inr s'"
    and "\<And>n s s'. refresh n s = Inr s' \<Longrightarrow> R s s'"
  shows "R s s'"
  using assms(1)
proof (induction es arbitrary: s)
  case Nil
  then show ?case by (simp add: refl)
next
  case (Cons e es)
  then show ?case
    by (cases e) (auto simp: andThen_eq_Inr child_removed_def on_remove_def dest!: R_child_added R_updated_with [OF _ assms(2)]
        intro: trans split: if_splits)
qed

lemma R_refresh_foreign: "refresh_foreign n s = Inr s' \<Longrightarrow> R s s'"
  by (auto simp: refresh_foreign_def refl add_call split: option.splits if_splits)

lemma R_request_prop_set_value: "request_prop_set_value q T n v s = Inr s' \<Longrightarrow> R s s'"
  by (auto simp: request_prop_set_value_def andThen_eq_Inr refl dest: R_dev_write
      split: option.splits)

lemma R_request_set: "request_set q T n f v s = Inr s' \<Longrightarrow> R s s'"
  by (auto simp: request_set_def andThen_eq_Inr refl add_call dest: R_request_prop_set_value
      split: option.splits if_splits)

lemma R_store_with:
  assumes "store_with q T refresh n call s = Inr s'"
    and "\<And>n s s'. refresh n s = Inr s' \<Longrightarrow> R s s'"
  shows "R s s'"
  using assms(1)
proof (cases rule: store_with_cases)
  case (stored t evs s1)
  have "R (s\<lparr>tree := t\<rparr>) s1" using stored(2) assms(2) by (rule R_events_with)
  with set_tree trans have "R s s1" by blast
  with stored(3) R_request_set trans show ?thesis by blast
qed

lemma R_store_fetched: "store_fetched q T buf np s = Inr s' \<Longrightarrow> R s s'"
  by (auto simp: store_fetched_def refl intro: R_store_with R_refresh_foreign split: option.splits)

lemma R_update_prop:
  assumes "update_prop q T nid s = Inr s'"
  shows "R s s'"
  using assms
proof (cases rule: update_prop_cases)
  case same
  then show ?thesis by (simp add: refl)
next
  case (fetched n v f rep s1 buf s2)
  have "R s (set_deserialization True n (s1\<lparr>update_in_process := True\<rparr>))"
    using R_dev_send [OF fetched(5)] by (blast intro: step)
  then have "R s s2" using R_store_fetched [OF fetched(7)] trans by blast
  then show ?thesis unfolding fetched(8) by (blast intro: step)
qed

lemma R_refresh_value: "refresh_value q T n s = Inr s' \<Longrightarrow> R s s'"
  by (auto simp: refresh_value_def refl split: option.splits if_splits
      dest: R_update_prop R_refresh_foreign)

lemma R_events: "handle_events q T evs s = Inr s' \<Longrightarrow> R s s'"
  using R_events_with R_refresh_value by blast

lemma R_tree_events: "handle_events q T evs (s\<lparr>tree := t\<rparr>) = Inr s' \<Longrightarrow> R s s'"
  using R_events set_tree trans by blast

lemma R_client_write: "client_write cl p s = Inr s' \<Longrightarrow> R s s'"
  by (auto simp: client_write_def add_call dest: R_dev_write split: option.splits if_splits)

lemma R_store_value: "store_value q T n call s = Inr s' \<Longrightarrow> R s s'"
  unfolding store_value_def by (erule R_store_with) (rule R_refresh_value)

lemma R_deserialize_into: "deserialize_into q T buf np s = Inr s' \<Longrightarrow> R s s'"
  by (auto simp: deserialize_into_def refl dest: R_store_value split: option.splits)

lemma R_notify_change: "notify_change q T n s = Inr s' \<Longrightarrow> R s s'"
  by (auto simp: notify_change_def dest: R_tree_events split: prod.splits)

text \<open>Requests of this process.\<close>

lemma R_fetch_node:
  assumes "fetch_node T nid name s = Inr (m, s')" and "\<And>k s. fresh k s"
  shows "R s s'"
  using assms(1)
proof (cases rule: fetch_node_cases)
  case (none req rep)
  then show ?thesis by (auto dest: R_dev_send)
next
  case (fetched req rep s1 type)
  show ?thesis
    unfolding fetched(3) by (rule trans [OF R_dev_send [OF fetched(1)] adopted [OF assms(2)]])
qed

lemma R_sync_ls: "sync_ls nid s = Inr (xs, s') \<Longrightarrow> R s s'"
  by (auto simp: sync_ls_def andThen_eq_Inr dest: R_dev_send split: if_splits)

lemma R_node_ls: "node_ls T n s = Inr (xs, s') \<Longrightarrow> R s s'"
  by (auto simp: node_ls_def refl add_call dest: R_sync_ls
      split: node_ref.splits option.splits if_splits)

lemma R_sync_attach:
  assumes "sync_attach T nid child s = Inr s'"
  shows "R s s'"
proof -
  from assms obtain k s1 p where "alive s child" "node_nid child s = Inr (k, s1)" "dev_write p s1 = Inr s'"
    by (auto simp: sync_attach_def andThen_eq_Inr Let_def split: if_splits)
  then show ?thesis using R_node_nid R_dev_write trans by metis
qed

lemma R_base_attach: "base_attach q T p name n s = Inr s' \<Longrightarrow> R s s'"
  by (auto simp: base_attach_def dest: R_tree_events split: prod.splits)

lemma R_client_attach:
  assumes "client_attach q T p c name n s = Inr s'"
  shows "R s s'"
proof (cases "s' = s")
  case True
  then show ?thesis by (simp add: refl)
next
  case False
  with assms obtain i s1 where base: "base_attach q T p name n s = Inr s1"
    and rest: "s' = s1 \<or> sync_attach T (cn_nid c) n s1 = Inr s' \<or>
      (\<exists>call. s' = s1\<lparr>dev_calls := dev_calls s1 @ [call]\<rparr>)"
    by (cases "cn_client c") (auto simp: client_attach_def andThen_eq_Inr split: if_splits)
  from rest R_base_attach [OF base] R_sync_attach add_call trans show ?thesis by metis
qed

lemma R_node_attach: "node_attach q T p name n s = Inr s' \<Longrightarrow> R s s'"
  by (auto simp: node_attach_def dest: R_base_attach R_client_attach
      split: node_ref.splits option.splits)

lemma R_client_subscribe: "client_subscribe_add_remove n s = Inr s' \<Longrightarrow> R s s'"
  by (auto simp: client_subscribe_add_remove_def refl dest: R_client_write split: option.splits if_splits)

text \<open>Handlers.\<close>

lemma R_cmd_ls: "cmd_ls T a p s = Inr s' \<Longrightarrow> R s s'"
  by (auto simp: cmd_ls_def andThen_eq_Inr Let_def dest!: R_node_ls R_dev_reply
      split: option.splits intro: trans)

lemma R_cmd_at:
  assumes "cmd_at T a p s = Inr s'"
  shows "R s s'"
proof (cases "get_node (get_nid p) s")
  case None
  with assms show ?thesis by (auto simp: cmd_at_def dest: R_dev_reply)
next
  case (Some t)
  with assms obtain path pos n tr where "read_string p [] 0 = Inr (path, pos)"
    and at: "t_at T t path (tree s) = (n, tr)"
    by (auto simp: cmd_at_def andThen_eq_Inr split: if_splits) (metis surj_pair)
  with Some assms have "\<exists>p' s1. R (s\<lparr>tree := tr\<rparr>) s1 \<and> dev_reply a p' s1 = Inr s'"
    using refl [of "s\<lparr>tree := tr\<rparr>"]
    by (cases n) (auto simp: cmd_at_def andThen_eq_Inr Let_def dest: R_node_nid split: if_splits)
  then show ?thesis using R_dev_reply set_tree trans by metis
qed

lemma R_cmd_get_prop:
  assumes "cmd_get_prop q T a p s = Inr s'"
  shows "R s s'"
proof -
  from assms obtain m where "get_prop T (get_nid p) s = Inr m"
    by (auto simp: cmd_get_prop_def andThen_eq_Inr Let_def)
  with assms have "\<exists>p' s1. R s s1 \<and> dev_reply a p' s1 = Inr s'"
    using refl [of s]
    by (cases m) (fastforce simp: cmd_get_prop_def andThen_eq_Inr Let_def dest: R_refresh_value)+
  then show ?thesis using R_dev_reply trans by metis
qed

lemma R_prop_listener:
  "prop_add_listener T n s = Inr s' \<Longrightarrow> R s s'"
  "prop_remove_listener T n s = Inr s' \<Longrightarrow> R s s'"
  by (auto simp: prop_add_listener_def prop_remove_listener_def Let_def
      dest!: R_client_write split: option.splits if_splits intro: set_tree trans [OF set_tree])

lemma R_cmd_subscribe:
  assumes "cmd_subscribe T p erase s = Inr s'"
  shows "R s s'"
proof -
  from assms obtain m where "get_prop T (get_nid p) s = Inr m"
    by (auto simp: cmd_subscribe_def andThen_eq_Inr)
  with assms show ?thesis
    by (cases m) (auto simp: cmd_subscribe_def refl dest: R_prop_listener split: if_splits)
qed

lemma R_tracked_at:
  assumes "tracked_at k s = (m, s')" and "map_of (tracked s) k \<noteq> None \<or> plant k s"
  shows "R s s'"
  using assms by (auto simp: tracked_at_def refl planted split: option.splits)

lemma R_cmd_prop_value:
  assumes "cmd_prop_value q T p s = Inr s'"
    and "map_of (tracked s) (get_nid p) \<noteq> None \<or> plant (get_nid p) s"
  shows "R s s'"
proof -
  obtain m s1 where at: "tracked_at (get_nid p) s = (m, s1)" by (cases "tracked_at (get_nid p) s")
  note R1 = R_tracked_at [OF at assms(2)]
  from assms(1) at obtain pb where "cast_prop T m s1 = Inr pb"
    by (auto simp: cmd_prop_value_def andThen_eq_Inr)
  with assms(1) at have "s' = s1 \<or> (\<exists>buf np s2. deserialize_into q T buf np (s1\<lparr>update_in_process := True\<rparr>) = Inr s2 \<and>
      notify_change q T (fst np) (s2\<lparr>update_in_process := False\<rparr>) = Inr s')"
    by (cases pb) (auto simp: cmd_prop_value_def andThen_eq_Inr Let_def)
  then show ?thesis
    using R1 R_deserialize_into R_notify_change set_update trans by metis
qed

lemma R_process_prop_value:
  assumes "process_prop_value q T p s = Inr s'"
  shows "R s s'"
proof (cases "s' = s")
  case True
  then show ?thesis by (simp add: refl)
next
  case False
  from assms obtain m where m: "get_prop T (get_nid p) s = Inr m"
    by (auto simp: process_prop_value_def andThen_eq_Inr)
  with assms False obtain n v where "m = Some (n, v)"
    by (cases m) (auto simp: process_prop_value_def)
  with assms False m obtain f buf s1 s2
    where store: "deserialize_into q T buf (n, v) (set_deserialization True n (s\<lparr>update_in_process := True\<rparr>)) = Inr s1"
      and notify: "notify_change q T n s1 = Inr s2"
      and s': "s' = (set_deserialization False n s2)\<lparr>update_in_process := False\<rparr>"
    by (cases "fake_of s n")
      (auto simp: process_prop_value_def andThen_eq_Inr Let_def split: if_splits)
  have "R s (set_deserialization True n (s\<lparr>update_in_process := True\<rparr>))"
    by (blast intro: step refl)
  then have "R s s2" using R_deserialize_into [OF store] R_notify_change [OF notify] trans by blast
  then show ?thesis unfolding s' by (blast intro: step)
qed

lemma R_generate_track:
  assumes "generate T type s = (Some n, s1)" and "fresh k s"
  shows "R s (do_track_as (Some n) k (proxy_set_nid k n s1))"
  by (simp only: conjunct2 [OF conjunct2 [OF generate_adopt [OF assms(1)]]] adopted [OF assms(2)])

lemma R_cmd_attach:
  assumes "cmd_attach q T p s = Inr s'" and "\<And>nid. attach_nid p = Inr nid \<Longrightarrow> fresh nid s"
  shows "R s s'"
proof (cases "s' = s")
  case True
  then show ?thesis by (simp add: refl)
next
  case False
  with assms(1) obtain parent type pos name pos' nid where
    parent: "map_of (tracked s) (get_nid p) = Some parent" and
    args: "read_string p [] 0 = Inr (type, pos)" "read_string p [] pos = Inr (name, pos')"
      "read_nid p (size_of_int pos') = Inr nid"
    by (auto simp: cmd_attach_def andThen_eq_Inr split: option.splits)
  obtain m s1 where gen: "generate T type s = (m, s1)" by (cases "generate T type s")
  from assms(1) False parent args gen obtain n where n: "m = Some n"
    by (cases m) (auto simp: cmd_attach_def generate_None)
  let ?s = "do_track_as (Some n) nid (proxy_set_nid nid n s1)"
  have "fresh nid s" using args by (intro assms(2)) (simp add: attach_nid_def)
  then have R1: "R s ?s" using gen n by (intro R_generate_track) simp
  from assms(1) parent args gen n obtain par s2 where "node_attach q T par name n ?s = Inr s2"
    and "client_subscribe_add_remove n s2 = Inr s'"
    by (auto simp: cmd_attach_def andThen_eq_Inr Let_def)
  then show ?thesis using trans [OF trans [OF R1 R_node_attach] R_client_subscribe] by metis
qed

lemma R_cmd_subscribe_add_remove:
  assumes "cmd_subscribe_add_remove q T p erase s = Inr s'"
  shows "R s s'"
proof (cases "s' = s")
  case True
  then show ?thesis by (simp add: refl)
next
  case False
  with assms obtain nd where "(let (t, evs) = t_listen T nd None (tree s)
      in handle_events q T evs (s\<lparr>tree := t\<rparr>)) = Inr s'"
    by (auto simp: cmd_subscribe_add_remove_def andThen_eq_Inr split: option.splits if_splits)
  then show ?thesis by (auto dest: R_tree_events split: prod.splits)
qed

lemma R_found_or_generated:
  assumes "found_or_generated T nid type s = Inr (m, s')" and "get_node nid s \<noteq> None \<or> fresh nid s"
  shows "R s s'"
proof (cases "s' = s")
  case True
  then show ?thesis by (simp add: refl)
next
  case False
  with assms(1) have absent: "get_node nid s = None"
    by (cases "get_node nid s") (auto simp: found_or_generated_def)
  obtain g s1 where gen: "generate T type s = (g, s1)" by (cases "generate T type s")
  from assms False absent gen obtain n where n: "g = Some n"
    by (cases g) (auto simp: found_or_generated_def generate_None)
  from absent assms(2) have "fresh nid s" by simp
  then have "R s (do_track_as (Some n) nid (proxy_set_nid nid n s1))"
    using gen n by (intro R_generate_track) simp
  moreover from assms(1) absent gen n
  have "client_subscribe_add_remove n (do_track_as (Some n) nid (proxy_set_nid nid n s1)) = Inr s'"
    by (auto simp: found_or_generated_def andThen_eq_Inr Let_def)
  ultimately show ?thesis using R_client_subscribe trans by blast
qed

lemma R_cmd_child_added:
  assumes "cmd_child_added q T p s = Inr s'"
    and "\<And>nid. read_nid p 0 = Inr nid \<Longrightarrow> get_node nid s \<noteq> None \<or> fresh nid s"
  shows "R s s'"
proof (cases "get_node (get_nid p) s")
  case None
  with assms(1) show ?thesis by (simp add: cmd_child_added_def refl)
next
  case (Some parent)
  with assms(1) obtain nid name type b m s1 where nid: "read_nid p 0 = Inr nid"
    and found: "found_or_generated T nid type s = Inr (m, s1)"
    and rest: "(case m of None \<Rightarrow> Inr s1
       | Some n \<Rightarrow> andThen (node_attach q T parent name n s1) (\<lambda>s. if b
            then Inr (s\<lparr>tree := t_set_owner T n parent (tree s)\<rparr>) else Inr s)) = Inr s'"
    by (auto simp: cmd_child_added_def andThen_eq_Inr)
  have R1: "R s s1" using R_found_or_generated [OF found assms(2) [OF nid]] .
  from rest have "s' = s1 \<or> (\<exists>n s2. node_attach q T parent name n s1 = Inr s2 \<and>
      (s' = s2 \<or> (\<exists>t. s' = s2\<lparr>tree := t\<rparr>)))"
    by (cases m) (auto simp: andThen_eq_Inr split: if_splits)
  then show ?thesis using R1 R_node_attach set_tree trans by metis
qed

lemma R_process_package:
  assumes "process_package q T a p s = Inr s'" and "admissible fresh plant p s"
  shows "R s s'"
proof (cases "get_cmd p = CMD_AT_SUCCESS")
  case True
  with assms(2) have "R s (adopt (born T [] s) None (get_nid p) s)"
    by (simp add: admissible_def adopted)
  with True assms(1) show ?thesis
    unfolding process_package_def at_success_adopt by simp
next
  case False
  have "R s s'" if "get_cmd p = CMD_NODE_ATTACH"
  proof -
    have "fresh nid s" if "attach_nid p = Inr nid" for nid
      using assms(2) \<open>get_cmd p = CMD_NODE_ATTACH\<close> that by (simp add: admissible_def)
    then show ?thesis using assms(1) that by (auto simp: process_package_def cmd_defs intro: R_cmd_attach)
  qed
  moreover have "R s s'" if "get_cmd p = CMD_CHILD_ADDED"
  proof -
    have "get_node nid s \<noteq> None \<or> fresh nid s" if "read_nid p 0 = Inr nid" for nid
      using assms(2) \<open>get_cmd p = CMD_CHILD_ADDED\<close> that by (simp add: admissible_def)
    then show ?thesis using assms(1) that by (auto simp: process_package_def cmd_defs intro: R_cmd_child_added)
  qed
  moreover have "R s s'" if "get_cmd p = CMD_PROP_SET_VALUE"
  proof -
    have "map_of (tracked s) (get_nid p) \<noteq> None \<or> plant (get_nid p) s"
      using assms(2) that by (simp add: admissible_def)
    then show ?thesis using assms(1) that by (auto simp: process_package_def cmd_defs intro: R_cmd_prop_value)
  qed
  ultimately show ?thesis
    using assms(1) False
    by (auto simp: process_package_def Let_def refl dest: R_process_prop_value R_cmd_at R_cmd_ls R_cmd_get_prop
        R_cmd_subscribe R_cmd_subscribe_add_remove split: if_splits)
qed

end

section \<open>The frame of the handlers\<close>

text \<open>No proxy exists at an address that is still to be handed out.\<close>

definition addresses_ok :: "'t sync \<Rightarrow> bool" where
  "addresses_ok s \<longleftrightarrow> (\<forall>i. next_proxy s \<le> i \<longrightarrow> proxies s i = None)"

definition proxies_kept :: "'t sync \<Rightarrow> 't sync \<Rightarrow> bool" where
  "proxies_kept s s' \<longleftrightarrow>
     (\<forall>i c. proxies s i = Some c \<longrightarrow>
        (\<exists>c'. proxies s' i = Some c' \<and> cn_nid c' = cn_nid c \<and> cn_client c' = cn_client c))"

definition sync_frame :: "'t sync \<Rightarrow> 't sync \<Rightarrow> bool" where
  "sync_frame s s' \<longleftrightarrow>
     self s' = self s \<and> is_server s' = is_server s \<and> has_dev s' = has_dev s
     \<and> root_node s' = root_node s \<and> pkg_queue s' = pkg_queue s
     \<and> fst ` set (tracked s) \<subseteq> fst ` set (tracked s')
     \<and> (\<exists>cs. dev_calls s' = dev_calls s @ cs)
     \<and> (addresses_ok s \<longrightarrow> addresses_ok s' \<and> proxies_kept s s')"

lemma proxies_kept_trans: "proxies_kept s s' \<Longrightarrow> proxies_kept s' s'' \<Longrightarrow> proxies_kept s s''"
  unfolding proxies_kept_def by metis

lemma sync_frame_trans:
  assumes "sync_frame s s'" and "sync_frame s' s''"
  shows "sync_frame s s''"
proof -
  have "fst ` set (tracked s) \<subseteq> fst ` set (tracked s'')"
    using assms unfolding sync_frame_def by (meson order_trans)
  moreover have "\<exists>cs. dev_calls s'' = dev_calls s @ cs"
    using assms unfolding sync_frame_def by (metis append.assoc)
  moreover have "addresses_ok s \<longrightarrow> addresses_ok s'' \<and> proxies_kept s s''"
    using assms proxies_kept_trans unfolding sync_frame_def by blast
  ultimately show ?thesis using assms unfolding sync_frame_def by simp
qed

lemma sync_frame_same:
  "proxies s' = proxies s \<Longrightarrow> next_proxy s' = next_proxy s \<Longrightarrow> self s' = self s
     \<Longrightarrow> is_server s' = is_server s \<Longrightarrow> has_dev s' = has_dev s \<Longrightarrow> root_node s' = root_node s
     \<Longrightarrow> pkg_queue s' = pkg_queue s \<Longrightarrow> fst ` set (tracked s) \<subseteq> fst ` set (tracked s')
     \<Longrightarrow> \<exists>cs. dev_calls s' = dev_calls s @ cs \<Longrightarrow> sync_frame s s'"
  by (simp add: sync_frame_def addresses_ok_def proxies_kept_def)

lemma sync_frame_deserialization: "sync_frame s (set_deserialization b n s)"
  by (auto simp: sync_frame_def set_deserialization_def update_proxy_def addresses_ok_def
      proxies_kept_def split: node_ref.splits)

lemma sync_frame_adopt: "sync_frame s (adopt t fk k s)"
  by (auto simp: sync_frame_def adopt_def addresses_ok_def proxies_kept_def set_map_put)

interpretation frame: sync_relation sync_frame "\<lambda>_ _. True" "\<lambda>_ _. True"
proof unfold_locales
  fix s s' s'' :: "'t sync"
  show "sync_frame s s' \<Longrightarrow> sync_frame s' s'' \<Longrightarrow> sync_frame s s''" by (rule sync_frame_trans)
qed (simp_all add: sync_frame_deserialization sync_frame_adopt,
    (rule sync_frame_same; auto simp: do_track_as_def set_map_put)+)

section \<open>The invariant of the table\<close>

text \<open>
  The table is ordered and has no null pointer; what it tracks exists; a proxy of this node_sync is
  tracked under its own id and nowhere else, and it is tracked as long as it exists.
\<close>

definition own :: "'t sync \<Rightarrow> nat \<Rightarrow> proxy \<Rightarrow> bool" where
  "own s i c \<longleftrightarrow> proxies s i = Some c \<and> cn_client c = Some (self s)"

fun entry_ok :: "'t sync \<Rightarrow> nid \<Rightarrow> node_ref option \<Rightarrow> bool" where
  "entry_ok s k None \<longleftrightarrow> False"
| "entry_ok s k (Some (App i)) \<longleftrightarrow> True"
| "entry_ok s k (Some (Proxy i)) \<longleftrightarrow>
     (case proxies s i of
        None \<Rightarrow> False
      | Some c \<Rightarrow> cn_client c = Some (self s) \<longrightarrow> cn_nid c = k)"

definition sync_ok :: "'t sync \<Rightarrow> bool" where
  "sync_ok s \<longleftrightarrow>
     sorted_map (tracked s) \<and> addresses_ok s \<and>
     (\<forall>k m. map_of (tracked s) k = Some m \<longrightarrow> entry_ok s k m) \<and>
     (\<forall>i c. own s i c \<longrightarrow> map_of (tracked s) (cn_nid c) = Some (Some (Proxy i)))"

text \<open>A server has handed out the ids of its table.\<close>

definition ids_counted :: "'t sync \<Rightarrow> bool" where
  "ids_counted s \<longleftrightarrow> (\<forall>k. map_of (tracked s) k \<noteq> None \<longrightarrow> k < current_nid s)"

text \<open>An id for a new proxy: handed out, and not in use.\<close>

definition handed_out :: "nid \<Rightarrow> 't sync \<Rightarrow> bool" where
  "handed_out k s \<longleftrightarrow> map_of (tracked s) k = None \<and> k < current_nid s"

lemma alive_cong: "proxies s' = proxies s \<Longrightarrow> alive s' n = alive s n"
  by (simp add: alive_def split: node_ref.splits)

lemma own_cong: "proxies s' = proxies s \<Longrightarrow> self s' = self s \<Longrightarrow> own s' i c = own s i c"
  by (simp add: own_def)

lemma entry_ok_cong:
  "proxies s' = proxies s \<Longrightarrow> self s' = self s \<Longrightarrow> entry_ok s' k m = entry_ok s k m"
  by (cases "(s, k, m)" rule: entry_ok.cases) (auto split: option.splits)

lemma sync_ok_cong:
  assumes "proxies s' = proxies s" "next_proxy s' = next_proxy s" "self s' = self s"
    "tracked s' = tracked s"
  shows "sync_ok s' = sync_ok s"
  using assms entry_ok_cong [OF assms(1,3)] own_cong [OF assms(1,3)]
  by (simp add: sync_ok_def addresses_ok_def)

lemma sync_ok_deserialization:
  assumes "sync_ok s"
  shows "sync_ok (set_deserialization b n s)"
proof (cases n)
  case (App i)
  with assms show ?thesis by (simp add: set_deserialization_def update_proxy_def)
next
  case (Proxy j)
  let ?s' = "set_deserialization b n s"
  have entry: "entry_ok ?s' k m = entry_ok s k m" for k m
    by (cases "(s, k, m)" rule: entry_ok.cases)
      (auto simp: Proxy set_deserialization_def update_proxy_def split: option.splits)
  have own: "own ?s' i c \<Longrightarrow> \<exists>c'. own s i c' \<and> cn_nid c' = cn_nid c" for i c
    by (auto simp: own_def Proxy set_deserialization_def update_proxy_def split: if_splits)
  from assms entry own show ?thesis
    by (fastforce simp: sync_ok_def addresses_ok_def Proxy set_deserialization_def update_proxy_def)
qed

lemma sync_ok_track:
  assumes ok: "sync_ok s" and new: "map_of (tracked s) k = None"
    and n: "find_key (Some n) (tracked s) = None" "alive s n"
  shows "sync_ok (do_track_as (Some n) k s)"
proof -
  let ?s' = "do_track_as (Some n) k s"
  have sorted: "sorted_map (tracked s)" using ok by (simp add: sync_ok_def)
  have same: "proxies ?s' = proxies s" "self ?s' = self s" by (simp_all add: do_track_as_def)
  have "\<not> own s i c" if "n = Proxy i" for i c
    using ok smap.rev_find_None [OF sorted n(1)] that unfolding sync_ok_def by blast
  then have "entry_ok ?s' k (Some n)"
    using n(2) by (auto simp: own_def alive_def do_track_as_def split: node_ref.splits)
  moreover have "map_of (tracked ?s') = (map_of (tracked s))(k \<mapsto> Some n)"
    by (simp add: do_track_as_def smap.find_put [OF sorted])
  moreover have "cn_nid c \<noteq> k" if "own s i c" for i c
    using ok new that by (auto simp: sync_ok_def)
  moreover have "sorted_map (tracked ?s')" by (simp add: do_track_as_def smap.invar_put [OF sorted])
  ultimately show ?thesis
    using ok by (simp add: sync_ok_def entry_ok_cong [OF same] own_cong [OF same])
      (simp add: addresses_ok_def do_track_as_def)
qed

lemma sync_ok_adopt:
  assumes ok: "sync_ok s" and new: "map_of (tracked s) k = None"
  shows "sync_ok (adopt t fk k s)"
proof -
  let ?s' = "adopt t fk k s"
  have sorted: "sorted_map (tracked s)" and addr: "addresses_ok s" using ok by (simp_all add: sync_ok_def)
  from addr have none: "proxies s (next_proxy s) = None" by (simp add: addresses_ok_def)
  have entry: "entry_ok ?s' k' m" if "map_of (tracked s) k' = Some m" for k' m
  proof -
    from ok that have "entry_ok s k' m" by (simp add: sync_ok_def)
    with none show ?thesis
      by (cases "(s, k', m)" rule: entry_ok.cases) (auto simp: adopt_def split: option.splits)
  qed
  have map: "map_of (tracked ?s') = (map_of (tracked s))(k \<mapsto> Some (Proxy (next_proxy s)))"
    by (simp add: adopt_def smap.find_put [OF sorted])
  have "map_of (tracked ?s') (cn_nid c) = Some (Some (Proxy i))" if "own ?s' i c" for i c
  proof (cases "i = next_proxy s")
    case True
    with that map show ?thesis by (auto simp: own_def adopt_def)
  next
    case False
    with that have "own s i c" by (simp add: own_def adopt_def)
    with ok have "map_of (tracked s) (cn_nid c) = Some (Some (Proxy i))" by (simp add: sync_ok_def)
    with new map show ?thesis by auto
  qed
  moreover have "entry_ok ?s' k (Some (Proxy (next_proxy s)))" by (simp add: adopt_def)
  moreover have "sorted_map (tracked ?s')" "addresses_ok ?s'"
    using addr by (simp_all add: adopt_def addresses_ok_def smap.invar_put [OF sorted])
  ultimately show ?thesis using entry map by (auto simp: sync_ok_def)
qed

text \<open>The relation: a server keeps the invariant as long as its counter of ids does not wrap.\<close>

definition growth :: "'t sync \<Rightarrow> 't sync \<Rightarrow> nat" where
  "growth s s' = length (tracked s') - length (tracked s)"

definition server_ok :: "'t sync \<Rightarrow> bool" where
  "server_ok s \<longleftrightarrow> is_server s \<and> sync_ok s \<and> ids_counted s"

definition keeps_ok :: "'t sync \<Rightarrow> 't sync \<Rightarrow> bool" where
  "keeps_ok s s' \<longleftrightarrow>
     length (tracked s) \<le> length (tracked s') \<and>
     (server_ok s \<longrightarrow> unat (current_nid s) + growth s s' < 2 ^ 64 \<longrightarrow>
        server_ok s' \<and> unat (current_nid s') \<le> unat (current_nid s) + growth s s')"

lemma keeps_ok_trans:
  assumes "keeps_ok s s'" and "keeps_ok s' s''"
  shows "keeps_ok s s''"
  using assms unfolding keeps_ok_def growth_def by auto

lemma keeps_ok_same:
  assumes "tracked s' = tracked s" "current_nid s' = current_nid s" "is_server s' = is_server s"
    "sync_ok s \<Longrightarrow> sync_ok s'"
  shows "keeps_ok s s'"
  using assms by (simp add: keeps_ok_def growth_def server_ok_def ids_counted_def)

lemma keeps_ok_counted:
  assumes "is_server s" and "find_key (Some n) (tracked s) = None" and "alive s n"
  shows "keeps_ok s (do_track_as (Some n) (current_nid s) (s\<lparr>current_nid := current_nid s + 1\<rparr>))"
    (is "keeps_ok s ?s'")
proof -
  have le: "length (tracked s) \<le> length (tracked ?s')"
    by (simp add: do_track_as_def length_map_put_le)
  have "server_ok ?s' \<and> unat (current_nid ?s') \<le> unat (current_nid s) + growth s ?s'"
    if ok: "server_ok s" and bound: "unat (current_nid s) + growth s ?s' < 2 ^ 64"
  proof -
    let ?k = "current_nid s"
    from ok have new: "map_of (tracked s) ?k = None"
      unfolding server_ok_def ids_counted_def by blast
    then have grow: "growth s ?s' = 1"
      by (simp add: growth_def do_track_as_def length_map_put_new)
    with bound have up: "unat (?k + 1) = unat ?k + 1"
      by (simp add: unat_word_ariths)
    have sorted: "sorted_map (tracked s)" using ok by (simp add: server_ok_def sync_ok_def)
    have "sync_ok (s\<lparr>current_nid := ?k + 1\<rparr>)"
      using ok sync_ok_cong [of "s\<lparr>current_nid := ?k + 1\<rparr>" s] by (simp add: server_ok_def)
    then have "sync_ok ?s'" using new assms(2,3) alive_cong [of "s\<lparr>current_nid := ?k + 1\<rparr>" s n]
      by (intro sync_ok_track) simp_all
    moreover have "ids_counted ?s'"
      using ok up smap.find_put [OF sorted]
      by (auto simp: ids_counted_def server_ok_def do_track_as_def word_less_nat_alt split: if_splits)
    ultimately show ?thesis using ok up grow by (simp add: server_ok_def do_track_as_def)
  qed
  with le show ?thesis by (simp add: keeps_ok_def)
qed

lemma keeps_ok_adopt:
  assumes "handed_out k s"
  shows "keeps_ok s (adopt t fk k s)"
proof -
  have "server_ok (adopt t fk k s)" if ok: "server_ok s"
  proof -
    from ok have sorted: "sorted_map (tracked s)" by (simp add: server_ok_def sync_ok_def)
    have "ids_counted (adopt t fk k s)"
      using ok assms smap.find_put [OF sorted]
      by (auto simp: ids_counted_def server_ok_def handed_out_def adopt_def split: if_splits)
    moreover have "sync_ok (adopt t fk k s)"
      using ok assms by (intro sync_ok_adopt) (simp_all add: server_ok_def handed_out_def)
    ultimately show ?thesis using ok by (simp add: server_ok_def adopt_def)
  qed
  then show ?thesis
    by (auto simp: keeps_ok_def adopt_def length_map_put_le)
qed

lemma keeps_ok_asked:
  assumes "\<not> is_server s"
  shows "keeps_ok s (do_track_as m k s)"
  using assms by (simp add: keeps_ok_def server_ok_def do_track_as_def length_map_put_le)

lemma keeps_ok_deserialization: "keeps_ok s (set_deserialization b n s)"
  by (rule keeps_ok_same)
    (simp_all add: sync_ok_deserialization, simp_all add: set_deserialization_def update_proxy_def split: node_ref.splits)

interpretation table: sync_relation keeps_ok handed_out "\<lambda>_ _. False"
proof unfold_locales
  fix s s' s'' :: "'t sync"
  show "keeps_ok s s' \<Longrightarrow> keeps_ok s' s'' \<Longrightarrow> keeps_ok s s''" by (rule keeps_ok_trans)
qed (simp_all add: keeps_ok_counted keeps_ok_adopt keeps_ok_asked keeps_ok_deserialization,
    (rule keeps_ok_same; simp cong: sync_ok_cong)+)

section \<open>Ids of nodes\<close>

definition one_id_per_node :: "'t sync \<Rightarrow> bool" where
  "one_id_per_node s \<longleftrightarrow> smap.injective (tracked s)"

lemma node_nid_server:
  assumes "is_server s" and "find_key (Some n) (tracked s) = None"
  shows "node_nid n s
    = Inr (current_nid s, do_track_as (Some n) (current_nid s) (s\<lparr>current_nid := current_nid s + 1\<rparr>))"
  using assms by (simp add: node_nid_def get_nid_of_def do_track_def generate_nid_def)

lemma node_nid_known: "find_key (Some n) (tracked s) = Some k \<Longrightarrow> node_nid n s = Inr (k, s)"
  by (simp add: node_nid_def get_nid_of_def)

lemma get_node_found:
  "sorted_map (tracked s) \<Longrightarrow> find_key (Some n) (tracked s) = Some k \<Longrightarrow> get_node k s = Some n"
  using smap.rev_find_Some [of "tracked s" "Some n" k] by (simp add: get_node_def)

section \<open>Sample states\<close>

text \<open>A server with two children under its root, one of them a property, for the witnesses.\<close>

abbreviation samples :: "((byte list, byte list) sample, byte list, byte list) tree_api" where
  "samples \<equiv> sample_tree [] []"

definition sample_nodes :: "(byte list, byte list) sample" where
  "sample_nodes = no_nodes\<lparr>
     sm_name := (\<lambda>_. [])(App 1 := ''a'', App 2 := ''b''),
     sm_kids := [(App 0, ''a'', App 1), (App 0, ''b'', App 2)],
     sm_owner := [App 1 \<mapsto> App 0, App 2 \<mapsto> App 0],
     sm_prop := [App 1 \<mapsto> \<lparr>prop_type = type_int, prop_value = VInt 7\<rparr>]\<rparr>"

definition sample_server :: "(byte list, byte list) sample sync" where
  "sample_server = (sync_new 1 True sample_nodes)
     \<lparr>has_dev := True, root_node := Some (App 0), tracked := [(0, Some (App 0))], current_nid := 1\<rparr>"

lemma sample_server_set_root:
  "server_set_root (Some (App 0)) (set_device True (sync_new 1 True sample_nodes)) = Inr sample_server"
  by (simp add: server_set_root_def sync_set_root_def do_track_def generate_nid_def do_track_as_def
      sample_server_def sync_new_def set_device_def)

lemma sample_server_ok: "server_ok sample_server"
  by (auto simp: server_ok_def sample_server_def sync_new_def sync_ok_def sorted_map_def addresses_ok_def
      own_def ids_counted_def split: if_splits)

lemmas sample_state = sample_server_def sync_new_def sample_defs sample_nodes_def

text \<open>A request for the child \<^verbatim>\<open>a\<close> of the root.\<close>

definition at_a :: package where
  "at_a = mk_package 0 CMD_AT (wire_string ''a'')"

lemma sample_at_a:
  "\<exists>s'. process_package plain_qt samples 5 at_a sample_server = Inr s'
     \<and> tracked s' = [(0, Some (App 0)), (1, Some (App 1))] \<and> current_nid s' = 2"
  using read_string_at [of "[]" "''a''" "[]" 0 CMD_AT "[]"]
  by (simp add: at_a_def process_package_def cmd_at_def sample_state get_node_def response_def
      package_new_mk append_string_mk eval_bytes dev_reply_def alive_def node_nid_server do_track_as_def
      type_names cmd_defs)

section \<open>Properties\<close>

text \<open>
  C38: The ids of a server name its nodes. Asking for the id of a node gives an id the table
  resolves to that node, the same one when asked again, and never one that resolves to another node;
  a new id is one the table has not used before.
\<close>

theorem node_id_names_node:
  assumes "is_server s" and "sorted_map (tracked s)" and "ids_counted s" and "one_id_per_node s"
    and "current_nid s \<noteq> - 1" and "node_nid n s = Inr (k, s')"
  shows "get_node k s' = Some n \<and> node_nid n s' = Inr (k, s')
    \<and> (\<forall>m. get_node k s' = Some m \<longrightarrow> m = n) \<and> (\<forall>k'. get_node k' s' = Some n \<longrightarrow> k' = k)
    \<and> one_id_per_node s' \<and> ids_counted s'
    \<and> (\<forall>k' m. get_node k' s = Some m \<longrightarrow> get_node k' s' = Some m)"
proof -
  have "find_key (Some n) (tracked s') = Some k \<and> sorted_map (tracked s') \<and> one_id_per_node s'
      \<and> ids_counted s' \<and> (\<forall>k' m. get_node k' s = Some m \<longrightarrow> get_node k' s' = Some m)"
  proof (cases "find_key (Some n) (tracked s)")
    case (Some k')
    with assms node_nid_known [OF Some] show ?thesis by simp
  next
    case None
    let ?k = "current_nid s"
    from assms(6) node_nid_server [OF assms(1) None] have k: "k = ?k"
      and s': "s' = do_track_as (Some n) ?k (s\<lparr>current_nid := ?k + 1\<rparr>)" by auto
    have tr: "tracked s' = map_put ?k (Some n) (tracked s)" by (simp add: s' do_track_as_def)
    have find: "map_of (tracked s') = (map_of (tracked s))(?k \<mapsto> Some n)"
      unfolding tr by (rule smap.find_put [OF assms(2)])
    have new: "map_of (tracked s) ?k = None" using assms(3) by (auto simp: ids_counted_def)
    have sorted: "sorted_map (tracked s')" unfolding tr by (rule smap.invar_put [OF assms(2)])
    have inj: "one_id_per_node s'"
      using assms(2,4) None unfolding one_id_per_node_def tr by (rule smap.injective_put_new)
    have "1 + ?k \<noteq> 0" using assms(5) by (metis add.commute eq_neg_iff_add_eq_0)
    then have "?k < ?k + 1" using unatSuc [of ?k] by (simp add: word_less_nat_alt add.commute)
    then have "ids_counted s'"
      using assms(3) find by (auto simp: ids_counted_def s' do_track_as_def dest: order.strict_trans)
    moreover have "find_key (Some n) (tracked s') = Some k"
      using smap.rev_find_found [OF sorted inj [unfolded one_id_per_node_def]] find k by simp
    ultimately show ?thesis using sorted inj find new by (auto simp: get_node_def)
  qed
  note facts = this
  then have here: "get_node k s' = Some n" by (simp add: get_node_found)
  have "k' = k" if "get_node k' s' = Some n" for k'
  proof -
    have "map_of (tracked s') k' = Some (Some n)" "map_of (tracked s') k = Some (Some n)"
      using that here by (simp_all add: get_node_def split: option.splits)
    then show ?thesis using facts unfolding one_id_per_node_def smap.injective_def by blast
  qed
  moreover have "node_nid n s' = Inr (k, s')" using facts by (simp add: node_nid_known)
  moreover have "m = n" if "get_node k s' = Some m" for m using that here by simp
  ultimately show ?thesis using facts here by blast
qed

theorem node_id_names_node_witness:
  "\<exists>s'. node_nid (App 1) sample_server = Inr (1, s') \<and> get_node 1 s' = Some (App 1)"
proof -
  have one: "one_id_per_node sample_server"
    by (auto simp: one_id_per_node_def smap.injective_def sample_server_def sync_new_def split: if_splits)
  have run: "node_nid (App 1) sample_server
      = Inr (1, do_track_as (Some (App 1)) 1 (sample_server\<lparr>current_nid := 2\<rparr>))"
    by (simp add: node_nid_server sample_server_def sync_new_def)
  have ok: "is_server sample_server" "sorted_map (tracked sample_server)" "ids_counted sample_server"
    using sample_server_ok by (simp_all add: server_ok_def sync_ok_def)
  have "current_nid sample_server \<noteq> - 1" by (simp add: sample_server_def)
  from node_id_names_node [OF ok one this run] run show ?thesis by blast
qed

text \<open>
  C2: no packet can break the table of a server, whatever it contains, unless it misuses an id: with the
  ids of new nodes handed out by this server and not in use, values set only for tracked nodes, and a
  counter that does not wrap, every handler leaves a table without null or dangling pointers, in
  which each proxy of the connection is tracked under its own id, and with all ids below the counter.
\<close>

theorem server_keeps_table:
  assumes "server_ok s" and "admissible handed_out (\<lambda>_ _. False) p s"
    and "process_package q T a p s = Inr s'"
    and "unat (current_nid s) + growth s s' < 2 ^ 64"
  shows "server_ok s'"
  using table.R_process_package [OF assms(3,2)] assms(1,4) by (simp add: keeps_ok_def)

theorem server_keeps_table_witness:
  "\<exists>s'. process_package plain_qt samples 5 at_a sample_server = Inr s' \<and> server_ok s'"
proof -
  obtain s' where run: "process_package plain_qt samples 5 at_a sample_server = Inr s'"
    and s': "tracked s' = [(0, Some (App 0)), (1, Some (App 1))]"
    using sample_at_a by blast
  have "admissible handed_out (\<lambda>_ _. False) at_a sample_server"
    by (simp add: admissible_def at_a_def cmd_defs)
  moreover have "unat (current_nid sample_server) + growth sample_server s' < 2 ^ 64"
    using s' by (simp add: growth_def sample_server_def)
  ultimately show ?thesis using server_keeps_table [OF sample_server_ok _ run] run by blast
qed

text \<open>
  What no handler does, for any packet: it does not touch the queue, the root, or the device, it
  forgets no tracked id, takes back nothing that was sent, and neither deletes a proxy nor moves it to
  another id or connection.
\<close>

theorem handlers_frame:
  assumes "process_package q T a p s = Inr s'"
  shows "pkg_queue s' = pkg_queue s \<and> root_node s' = root_node s \<and> has_dev s' = has_dev s
    \<and> (\<forall>k \<in> fst ` set (tracked s). k \<in> fst ` set (tracked s'))
    \<and> (\<exists>cs. dev_calls s' = dev_calls s @ cs) \<and> (addresses_ok s \<longrightarrow> proxies_kept s s')"
proof -
  have "sync_frame s s'"
    by (rule frame.R_process_package [OF assms]) (simp add: admissible_def split: sum.splits)
  then show ?thesis unfolding sync_frame_def by blast
qed

theorem handlers_frame_witness:
  "\<exists>s'. process_package plain_qt samples 5 at_a sample_server = Inr s'
     \<and> root_node s' = Some (App 0) \<and> pkg_queue s' = locking_queue_new"
proof -
  obtain s' where run: "process_package plain_qt samples 5 at_a sample_server = Inr s'"
    using sample_at_a by blast
  with handlers_frame [OF run] show ?thesis by (auto simp: sample_server_def sync_new_def)
qed

end
