(* ===== verification/Sync_Queue.thy ===== *)
theory Sync_Queue
  imports Sync_Invariant
begin

text \<open>
  The two threads of a \<^verbatim>\<open>node_sync\<close>: what the reader thread makes of a sequence of packets, and what
  the processing thread makes of its queue. The specification of the loop is \<open>handle_all\<close>: one handler
  call for each packet, in order. The properties are about the loop, the ids that are handed out, and
  the invariants of \<open>Sync_Invariant\<close> over whole runs.
\<close>

section \<open>The processing thread\<close>

text \<open>The packets in order, the rest of them waiting in the queue meanwhile.\<close>

fun handle_all ::
  "('qs, 'qb) qt_api \<Rightarrow> ('t, 'qs, 'qb) tree_api \<Rightarrow> (addr \<times> package) list \<Rightarrow> 't sync
     \<Rightarrow> fault + 't sync" where
  "handle_all q T [] s = Inr s"
| "handle_all q T ((a, p) # ms) s =
     andThen (process_package q T a p (s\<lparr>pkg_queue := \<lparr>elements = map Some ms\<rparr>\<rparr>)) (handle_all q T ms)"

lemma process_package_frame: "process_package q T a p s = Inr s' \<Longrightarrow> sync_frame s s'"
  by (rule frame.R_process_package) (simp_all add: admissible_def split: sum.splits)

lemma handle_all_queue:
  assumes "handle_all q T ms s = Inr s'" and "elements (pkg_queue s) = map Some ms"
  shows "elements (pkg_queue s') = []"
  using assms
proof (induction ms arbitrary: s)
  case Nil
  then show ?case by simp
next
  case (Cons m ms)
  obtain a p where m: "m = (a, p)" by (cases m)
  with Cons.prems obtain s1 where
    step: "process_package q T a p (s\<lparr>pkg_queue := \<lparr>elements = map Some ms\<rparr>\<rparr>) = Inr s1"
    and rest: "handle_all q T ms s1 = Inr s'"
    by (auto simp: andThen_eq_Inr)
  have "elements (pkg_queue s1) = map Some ms"
    using process_package_frame [OF step] by (simp add: sync_frame_def)
  with Cons.IH rest show ?case by blast
qed

lemma processing_step_head:
  assumes "elements (pkg_queue s) = Some (a, p) # ms"
  shows "processing_step q T True s =
    Some (andThen (process_package q T a p (s\<lparr>pkg_queue := \<lparr>elements = ms\<rparr>\<rparr>)) (\<lambda>s. Inr (True, s)))"
proof -
  have "pop (pkg_queue s) = Some (Some (a, p), \<lparr>elements = ms\<rparr>)"
    using assms by (cases "pkg_queue s") (simp add: pop_def)
  then show ?thesis by (simp add: processing_step_def)
qed

lemma routine_runs:
  assumes "elements (pkg_queue s) = map Some ms" and "length ms < fuel"
  shows "package_processing_routine q T fuel True s
     = Some (andThen (handle_all q T ms s) (\<lambda>s'. Inr (True, s')))"
  using assms
proof (induction fuel arbitrary: s ms)
  case 0
  then show ?case by simp
next
  case (Suc fuel)
  show ?case
  proof (cases ms)
    case Nil
    with Suc.prems show ?thesis by (simp add: processing_step_def pop_def)
  next
    case (Cons m ms')
    obtain a p where m: "m = (a, p)" by (cases m)
    let ?s = "s\<lparr>pkg_queue := \<lparr>elements = map Some ms'\<rparr>\<rparr>"
    have step: "processing_step q T True s =
        Some (andThen (process_package q T a p ?s) (\<lambda>s. Inr (True, s)))"
      using Suc.prems(1) Cons m by (intro processing_step_head) simp
    show ?thesis
    proof (cases "process_package q T a p ?s")
      case (Inl e)
      with step Cons m show ?thesis by simp
    next
      case (Inr s1)
      then have "elements (pkg_queue s1) = map Some ms'"
        using process_package_frame [OF Inr] by (simp add: sync_frame_def)
      with Suc.IH Suc.prems(2) Cons step Inr m show ?thesis by simp
    qed
  qed
qed

section \<open>The reader thread\<close>

fun notify_all :: "(addr \<times> package) list \<Rightarrow> 't sync \<Rightarrow> fault + 't sync" where
  "notify_all [] s = Inr s"
| "notify_all (m # ms) s = andThen (process_notification (Some m) s) (notify_all ms)"

abbreviation asks_nid :: "addr \<times> package \<Rightarrow> bool" where
  "asks_nid m \<equiv> get_cmd (snd m) = CMD_GENERATE_NID"

text \<open>The replies to requests for ids, starting with \<open>k\<close>.\<close>

fun nid_replies :: "nid \<Rightarrow> (addr \<times> package) list \<Rightarrow> dev_call list" where
  "nid_replies k [] = []"
| "nid_replies k (m # ms) =
     (if asks_nid m then Reply_to (fst m) (Ipc_Package.set_nid k package_new) # nid_replies (k + 1) ms
      else nid_replies k ms)"

lemma has_header_length: "has_header p \<Longrightarrow> \<not> length (vec p) < 1"
  unfolding has_header_def header_size_def by linarith

lemma notify_all_run:
  assumes "is_server s" and "has_dev s" and "\<forall>m \<in> set ms. has_header (snd m)"
  shows "notify_all ms s = Inr (s\<lparr>current_nid := current_nid s + of_nat (length (filter asks_nid ms)),
      dev_calls := dev_calls s @ nid_replies (current_nid s) ms,
      pkg_queue := \<lparr>elements = elements (pkg_queue s)
         @ map Some (filter (\<lambda>m. \<not> asks_nid m) ms)\<rparr>\<rparr>)"
  using assms
proof (induction ms arbitrary: s)
  case Nil
  then show ?case by simp
next
  case (Cons m ms)
  obtain a p where m: "m = (a, p)" by (cases m)
  have header: "has_header p" using Cons.prems m by simp
  show ?case
  proof (cases "asks_nid m")
    case True
    let ?s = "s\<lparr>current_nid := current_nid s + 1,
      dev_calls := dev_calls s @ [Reply_to a (Ipc_Package.set_nid (current_nid s) package_new)]\<rparr>"
    have "process_notification (Some m) s = Inr ?s"
      using Cons.prems True m header has_header_length [OF header]
      by (simp add: process_notification_def generate_nid_def dev_reply_def)
    moreover have "notify_all ms ?s = Inr (?s\<lparr>current_nid := current_nid ?s + of_nat (length (filter asks_nid ms)),
      dev_calls := dev_calls ?s @ nid_replies (current_nid ?s) ms,
      pkg_queue := \<lparr>elements = elements (pkg_queue ?s) @ map Some (filter (\<lambda>m. \<not> asks_nid m) ms)\<rparr>\<rparr>)"
      using Cons.prems by (intro Cons.IH) simp_all
    ultimately show ?thesis using True m by (simp add: algebra_simps)
  next
    case False
    let ?s = "s\<lparr>pkg_queue := push (Some m) (pkg_queue s)\<rparr>"
    have "process_notification (Some m) s = Inr ?s"
      using False m header has_header_length [OF header] by (simp add: process_notification_def)
    moreover have "notify_all ms ?s = Inr (?s\<lparr>current_nid := current_nid ?s + of_nat (length (filter asks_nid ms)),
      dev_calls := dev_calls ?s @ nid_replies (current_nid ?s) ms,
      pkg_queue := \<lparr>elements = elements (pkg_queue ?s) @ map Some (filter (\<lambda>m. \<not> asks_nid m) ms)\<rparr>\<rparr>)"
      using Cons.prems by (intro Cons.IH) simp_all
    ultimately show ?thesis using False m by (simp add: push_def)
  qed
qed

text \<open>The ids of the replies.\<close>

fun replied_nid :: "dev_call \<Rightarrow> nid" where
  "replied_nid (Reply_to a p) = get_nid p"
| "replied_nid _ = 0"

lemma replied_nids:
  "map replied_nid (nid_replies k ms)
     = map (\<lambda>i. k + of_nat i) [0..<length (filter asks_nid ms)]"
proof (induction ms arbitrary: k)
  case Nil
  then show ?case by simp
next
  case (Cons m ms)
  have "map (\<lambda>i. k + of_nat i) [0..<Suc n] = k # map (\<lambda>i. k + 1 + of_nat i) [0..<n]" for n
    by (simp add: upt_conv_Cons map_Suc_upt [symmetric] del: upt_Suc)
  with Cons show ?case by (simp add: package_new_mk)
qed

lemma distinct_offsets:
  assumes "n \<le> 2 ^ 64"
  shows "distinct (map (\<lambda>i. (k :: nid) + of_nat i) [0..<n])"
proof -
  have "inj_on (\<lambda>i. k + of_nat i) {0..<n}"
  proof (rule inj_onI)
    fix i j assume ij: "i \<in> {0..<n}" "j \<in> {0..<n}" and "k + of_nat i = k + of_nat j"
    then have "unat (of_nat i :: nid) = unat (of_nat j :: nid)" by simp
    with ij assms show "i = j" by (simp add: unat_of_nat take_bit_eq_mod)
  qed
  then show ?thesis by (simp add: distinct_map)
qed

section \<open>Properties\<close>

text \<open>
  C22: the processing thread runs the handlers of the queued packets one after the other, in the order of the
  queue, and then sleeps on the empty queue: the loop needs no more iterations than there are
  packets, because no handler touches the queue.
\<close>

theorem processing_in_order:
  assumes "elements (pkg_queue s) = map Some ms" and "length ms < fuel"
  shows "package_processing_routine q T fuel True s
       = Some (andThen (handle_all q T ms s) (\<lambda>s'. Inr (True, s')))
     \<and> (\<forall>s'. handle_all q T ms s = Inr s' \<longrightarrow> elements (pkg_queue s') = [])"
  using routine_runs [OF assms] handle_all_queue [OF _ assms(1)] by blast

theorem processing_in_order_witness:
  "\<exists>s'. package_processing_routine plain_qt samples 2 True
      (sample_server\<lparr>pkg_queue := \<lparr>elements = [Some (5, at_a)]\<rparr>\<rparr>) = Some (Inr (True, s'))
    \<and> elements (pkg_queue s') = []"
proof -
  let ?s = "sample_server\<lparr>pkg_queue := \<lparr>elements = [Some (5, at_a)]\<rparr>\<rparr>"
  have "?s\<lparr>pkg_queue := \<lparr>elements = []\<rparr>\<rparr> = sample_server"
    by (simp add: sample_server_def sync_new_def locking_queue_new_def)
  then obtain s' where "handle_all plain_qt samples [(5, at_a)] ?s = Inr s'"
    using sample_at_a by auto
  then show ?thesis
    using processing_in_order [of ?s "[(5, at_a)]" 2 plain_qt samples] by simp
qed

lemma processing_step_destroyed:
  "processing_step q T False (sync_destroy s)
     = Some (Inr (False, s\<lparr>pkg_queue := \<lparr>elements = tl (elements (pkg_queue s) @ [None])\<rparr>\<rparr>))"
proof (cases "elements (pkg_queue s)")
  case Nil
  then have "pop (pkg_queue (sync_destroy s)) = Some (None, \<lparr>elements = []\<rparr>)"
    by (cases "pkg_queue s") (simp add: pop_def push_def sync_destroy_def)
  with Nil show ?thesis by (simp add: processing_step_def sync_destroy_def)
next
  case (Cons m ms)
  then have "pop (pkg_queue (sync_destroy s)) = Some (m, \<lparr>elements = ms @ [None]\<rparr>)"
    by (cases "pkg_queue s") (simp add: pop_def push_def sync_destroy_def)
  with Cons show ?thesis by (cases m) (auto simp: processing_step_def sync_destroy_def)
qed

lemma sync_join_ends:
  "sync_join q T s = Some (Inr (s\<lparr>pkg_queue := \<lparr>elements = tl (elements (pkg_queue s) @ [None])\<rparr>\<rparr>))"
  by (simp add: sync_join_def processing_step_destroyed)

text \<open>
  The destructor ends the processing thread: once the flag is cleared and the null packet is
  pushed, the thread leaves its loop at the next pop, whatever is queued, and the packets behind that
  one are never handled.
\<close>

theorem destructor_ends_thread:
  "package_processing_routine q T (Suc fuel) False (sync_destroy s)
     = Some (Inr (False, s\<lparr>pkg_queue := \<lparr>elements = tl (elements (pkg_queue s) @ [None])\<rparr>\<rparr>))"
  by (simp add: processing_step_destroyed)

text \<open>
  A server answers every request for a node id at once, on the reader thread, and no two of
  the answers are the same; all other packets go to the queue, in their order.
\<close>

theorem nid_requests_unique:
  assumes "is_server s" and "has_dev s" and "\<forall>m \<in> set ms. has_header (snd m)"
    and "length (filter asks_nid ms) \<le> 2 ^ 64"
  shows "\<exists>s' replies. notify_all ms s = Inr s' \<and> dev_calls s' = dev_calls s @ replies
     \<and> length replies = length (filter asks_nid ms) \<and> distinct (map replied_nid replies)
     \<and> elements (pkg_queue s') = elements (pkg_queue s) @ map Some (filter (\<lambda>m. \<not> asks_nid m) ms)"
proof -
  have "length (nid_replies (current_nid s) ms) = length (filter asks_nid ms)"
    using arg_cong [OF replied_nids [of "current_nid s" ms], of length] by simp
  moreover have "distinct (map replied_nid (nid_replies (current_nid s) ms))"
    unfolding replied_nids by (rule distinct_offsets [OF assms(4)])
  ultimately show ?thesis using notify_all_run [OF assms(1-3)] by simp
qed

theorem nid_requests_unique_witness:
  "\<exists>s' replies. notify_all [(5, mk_package 0 CMD_GENERATE_NID []), (6, at_a), (7, mk_package 0 CMD_GENERATE_NID [])]
        sample_server = Inr s' \<and> dev_calls s' = replies
     \<and> length replies = 2 \<and> distinct (map replied_nid replies)
     \<and> elements (pkg_queue s') = [Some (6, at_a)]"
proof -
  let ?ms = "[(5, mk_package 0 CMD_GENERATE_NID []), (6, at_a), (7, mk_package 0 CMD_GENERATE_NID [])]"
  have counts: "filter asks_nid ?ms = [(5, mk_package 0 CMD_GENERATE_NID []), (7, mk_package 0 CMD_GENERATE_NID [])]"
    "filter (\<lambda>m. \<not> asks_nid m) ?ms = [(6, at_a)]"
    by (simp_all add: at_a_def cmd_defs)
  have state: "is_server sample_server" "has_dev sample_server" "dev_calls sample_server = []"
    "elements (pkg_queue sample_server) = []"
    by (simp_all add: sample_server_def sync_new_def locking_queue_new_def)
  have "\<forall>m \<in> set ?ms. has_header (snd m)" by (simp add: at_a_def)
  from nid_requests_unique [OF state(1,2) this] show ?thesis
    unfolding counts state by (simp del: notify_all.simps flip: numeral_2_eq_2)
qed

text \<open>
  A packet that is not empty but shorter than a header crashes the reader thread: the size test
  of \<^verbatim>\<open>process_notification\<close> lets it through, and reading its command leaves the vector.
\<close>

theorem short_packet_out_of_bounds:
  assumes "0 < length (vec p)" and "length (vec p) < header_size"
  shows "process_notification (Some (a, p)) s = Inl Out_of_bounds"
  using assms by (auto simp: process_notification_def has_header_def)

theorem short_packet_out_of_bounds_witness:
  "process_notification (Some (5, \<lparr>vec = [17]\<rparr>)) sample_server = Inl Out_of_bounds"
  using short_packet_out_of_bounds [of "\<lparr>vec = [17]\<rparr>" 5 sample_server] by (simp add: header_size_def)

end
