(* ===== verification/Byte_Streams.thy ===== *)
theory Byte_Streams
  imports Package_Codec
begin

text \<open>
  The transports below the codec: \<^verbatim>\<open>socket_client\<close> with its \<^verbatim>\<open>connector\<close> over Boost.Asio
  (\<^verbatim>\<open>socket_client.h\<close>, \<^verbatim>\<open>socket_client.cpp\<close>) and \<^verbatim>\<open>socket_bytestream\<close> over Qt
  (\<^verbatim>\<open>qt/socket_bytestream.cpp\<close>). Boost and Qt themselves are the environment: what
  \<^verbatim>\<open>write_some\<close> reports comes from the list \<open>outcomes\<close>, and which asynchronous operation completes
  next, and how, is the choice of a step relation.

  Both transports satisfy the contract \<open>bytestream\<close> that the codec relies on. The connection
  machine shows how \<^verbatim>\<open>bytestream_opened\<close> and \<^verbatim>\<open>bytestream_closed\<close> alternate.
\<close>

section \<open>socket_client\<close>

text \<open>
  \<open>wire\<close> is what the socket has taken. An outcome is \<open>None\<close> for an error code, or a bound on how
  many bytes this call takes; \<^verbatim>\<open>write_some\<close> may take fewer bytes than it is given, never more.
\<close>

record socket_client =
  is_connected :: bool
  has_connector :: bool
  wire :: "byte list"
  outcomes :: "nat option list"

definition socket_client_new :: "nat option list \<Rightarrow> socket_client" where
  "socket_client_new oc = \<lparr>is_connected = False, has_connector = False, wire = [], outcomes = oc\<rparr>"

definition write_some :: "byte list \<Rightarrow> socket_client \<Rightarrow> nat option \<times> socket_client" where
  "write_some d sc =
     (case outcomes sc of
        [] \<Rightarrow> (Some (length d), sc\<lparr>wire := wire sc @ d\<rparr>)
      | None # oc \<Rightarrow> (None, sc\<lparr>outcomes := oc\<rparr>)
      | Some k # oc \<Rightarrow> (let n = min k (length d)
                       in (Some n, sc\<lparr>wire := wire sc @ take n d, outcomes := oc\<rparr>)))"

definition socket_write :: "byte list \<Rightarrow> socket_client \<Rightarrow> nat \<times> socket_client" where
  "socket_write d sc =
     (if \<not> is_connected sc then (0, sc)
      else case write_some d sc of
             (None, sc) \<Rightarrow> (0, sc\<lparr>is_connected := False\<rparr>)
           | (Some written, sc) \<Rightarrow> (written, sc))"

text \<open>Notifications to the listener, and requests to Asio, in the order they are made.\<close>

datatype stream_call =
  Opened | Closed | Received "byte list" | Async_receive | Async_connect | Async_wait | Got_socket

definition start_receive :: "stream_call list" where
  "start_receive = [Async_receive]"

text \<open>
  \<^verbatim>\<open>set_socket\<close>: \<^verbatim>\<open>set_option\<close> throws if the socket is not open.
\<close>

definition set_socket ::
  "bool \<Rightarrow> socket_client \<Rightarrow> fault + (socket_client \<times> stream_call list)" where
  "set_socket is_open sc =
     (if \<not> is_open then Inl Uncaught_exception
      else Inr (sc\<lparr>is_connected := True\<rparr>, Opened # start_receive))"

text \<open>\<^verbatim>\<open>socket_client(socket)\<close>, \<^verbatim>\<open>start\<close>, which is empty, and \<^verbatim>\<open>set_connector\<close>.\<close>

definition socket_client_on ::
  "bool \<Rightarrow> nat option list \<Rightarrow> fault + (socket_client \<times> stream_call list)" where
  "socket_client_on is_open oc = set_socket is_open (socket_client_new oc)"

definition socket_start :: "socket_client \<Rightarrow> socket_client" where
  "socket_start sc = sc"

definition set_connector :: "bool \<Rightarrow> socket_client \<Rightarrow> socket_client" where
  "set_connector c sc = sc\<lparr>has_connector := c\<rparr>"

text \<open>The connector: \<^verbatim>\<open>connect\<close>, \<^verbatim>\<open>reconnect\<close> and the two handlers.\<close>

definition connector_connect :: "stream_call list" where
  "connector_connect = [Async_connect]"

definition connector_reconnect :: "stream_call list" where
  "connector_reconnect = [Async_wait]"

definition reconnect_handler :: "stream_call list" where
  "reconnect_handler = connector_connect"

definition connect_handler :: "bool \<Rightarrow> bool \<Rightarrow> stream_call list" where
  "connect_handler do_reconnect error =
     (if error then (if do_reconnect then connector_reconnect else []) else [Got_socket])"

definition data_ready ::
  "bool \<Rightarrow> byte list \<Rightarrow> socket_client \<Rightarrow> socket_client \<times> stream_call list" where
  "data_ready error data sc =
     (if error
      then (sc\<lparr>is_connected := False\<rparr>,
            Closed # (if has_connector sc then connector_reconnect else []))
      else (sc, Received data # start_receive))"

section \<open>Both transports are byte streams\<close>

interpretation asio: bytestream socket_write wire
  by unfold_locales
    (auto simp: socket_write_def write_some_def Let_def split: if_splits list.splits option.splits)

text \<open>
  The Qt stream collects what is written and hands it to the socket when the event loop runs the
  slot; \<open>handed\<close> is what the slot has passed to \<^verbatim>\<open>QTcpSocket::write\<close>, whose result it ignores.
\<close>

record socket_bytestream =
  send_buffer :: "byte list"
  handed :: "byte list"

definition socket_bytestream_new :: socket_bytestream where
  "socket_bytestream_new = \<lparr>send_buffer = [], handed = []\<rparr>"

definition qt_write :: "byte list \<Rightarrow> socket_bytestream \<Rightarrow> nat \<times> socket_bytestream" where
  "qt_write d sb = (length d, sb\<lparr>send_buffer := send_buffer sb @ d\<rparr>)"

definition slot_write_ready :: "socket_bytestream \<Rightarrow> socket_bytestream" where
  "slot_write_ready sb = sb\<lparr>handed := handed sb @ send_buffer sb, send_buffer := []\<rparr>"

definition accepted :: "socket_bytestream \<Rightarrow> byte list" where
  "accepted sb = handed sb @ send_buffer sb"

interpretation qt: bytestream qt_write accepted
  by unfold_locales (auto simp: qt_write_def accepted_def)

lemma accepted_slot_write_ready [simp]: "accepted (slot_write_ready sb) = accepted sb"
  by (simp add: accepted_def slot_write_ready_def)

text \<open>
  \<^verbatim>\<open>process_available_data\<close>: \<open>rd\<close> is the result of \<^verbatim>\<open>QTcpSocket::read\<close> into the 256-byte buffer,
  converted to \<^verbatim>\<open>uint64_t\<close>, and \<open>buf\<close> the buffer's contents. \<^verbatim>\<open>start\<close> calls it when data is there.
\<close>

definition process_available_data :: "byte list \<Rightarrow> u64 \<Rightarrow> fault + stream_call list" where
  "process_available_data buf rd =
     (if rd > 0
      then if unat rd \<le> length buf then Inr [Received (take (unat rd) buf)] else Inl Out_of_bounds
      else Inr [])"

definition qt_start :: "nat \<Rightarrow> byte list \<Rightarrow> u64 \<Rightarrow> fault + stream_call list" where
  "qt_start bytes_available buf rd =
     (if bytes_available > 0 then process_available_data buf rd else Inr [])"

text \<open>
  \<^verbatim>\<open>QTcpSocket::read\<close> reports an error as -1, which passes the test \<open>rd > 0\<close> as the largest
  \<^verbatim>\<open>uint64_t\<close>.
\<close>

lemma qt_read_error_out_of_bounds:
  assumes "length buf = 256"
  shows "process_available_data buf (of_int (-1)) = Inl Out_of_bounds"
  using assms
  by (simp add: process_available_data_def unat_eq_nat_uint uint_word_ariths(4) word_gt_0)

section \<open>The life of a connection\<close>

text \<open>
  The client and what is under way in Asio: a pending receive, a pending connection attempt, the
  running reconnection timer, and the notifications made so far.
\<close>

record connection =
  client :: socket_client
  do_reconnect :: bool
  receiving :: nat
  connecting :: nat
  waiting :: nat
  calls :: "stream_call list"

text \<open>Requests to Asio are started; the rest are calls to listeners.\<close>

fun start_call :: "stream_call \<Rightarrow> connection \<Rightarrow> connection" where
  "start_call Async_receive s = s\<lparr>receiving := Suc (receiving s)\<rparr>"
| "start_call Async_connect s = s\<lparr>connecting := Suc (connecting s)\<rparr>"
| "start_call Async_wait s = s\<lparr>waiting := Suc (waiting s)\<rparr>"
| "start_call c s = s\<lparr>calls := calls s @ [c]\<rparr>"

definition start_calls :: "stream_call list \<Rightarrow> connection \<Rightarrow> connection" where
  "start_calls cs s = fold start_call cs s"

text \<open>
  The handlers run when an operation that is under way completes. The socket that the connector
  got is passed to the client at once, by \<^verbatim>\<open>process_notification\<close>.
\<close>

inductive conn_step :: "connection \<Rightarrow> connection \<Rightarrow> bool" where
  connected: "connecting s = Suc n \<Longrightarrow> connect_handler (do_reconnect s) False = [Got_socket]
    \<Longrightarrow> set_socket True (client s) = Inr (sc, cs)
    \<Longrightarrow> conn_step s (start_calls cs (s\<lparr>connecting := n, client := sc\<rparr>))"
| refused: "connecting s = Suc n
    \<Longrightarrow> conn_step s (start_calls (connect_handler (do_reconnect s) True) (s\<lparr>connecting := n\<rparr>))"
| timer: "waiting s = Suc n
    \<Longrightarrow> conn_step s (start_calls reconnect_handler (s\<lparr>waiting := n\<rparr>))"
| data: "receiving s = Suc n \<Longrightarrow> data_ready error d (client s) = (sc, cs)
    \<Longrightarrow> conn_step s (start_calls cs (s\<lparr>receiving := n, client := sc\<rparr>))"
| wrote: "socket_write d (client s) = (w, sc) \<Longrightarrow> conn_step s (s\<lparr>client := sc\<rparr>)"

text \<open>
  A \<^verbatim>\<open>socket_client\<close> and a \<^verbatim>\<open>connector\<close> as their constructors leave them; \<^verbatim>\<open>set_do_reconnect\<close>. The
  application sets the connector and calls \<^verbatim>\<open>connect\<close> once.
\<close>

definition connection_new :: "nat option list \<Rightarrow> connection" where
  "connection_new oc =
     \<lparr>client = socket_client_new oc, do_reconnect = False, receiving = 0, connecting = 0, waiting = 0,
      calls = []\<rparr>"

definition set_do_reconnect :: "bool \<Rightarrow> connection \<Rightarrow> connection" where
  "set_do_reconnect b s = s\<lparr>do_reconnect := b\<rparr>"

definition connection_init :: "bool \<Rightarrow> bool \<Rightarrow> nat option list \<Rightarrow> connection" where
  "connection_init recon hc oc =
     (let s = set_do_reconnect recon (connection_new oc);
          s = s\<lparr>client := set_connector hc (client s)\<rparr>
      in start_calls connector_connect s)"

inductive conn_reachable :: "bool \<Rightarrow> bool \<Rightarrow> nat option list \<Rightarrow> connection \<Rightarrow> bool"
  for recon hc oc where
  start: "conn_reachable recon hc oc (connection_init recon hc oc)"
| step: "conn_reachable recon hc oc s \<Longrightarrow> conn_step s s' \<Longrightarrow> conn_reachable recon hc oc s'"

text \<open>
  The notifications a listener may see: \<open>Opened\<close>, then any number of chunks, then \<open>Closed\<close>, and so
  on. The result is whether the stream is open afterwards; \<open>None\<close> is a violation.
\<close>

fun stream_state :: "bool \<Rightarrow> stream_call list \<Rightarrow> bool option" where
  "stream_state up [] = Some up"
| "stream_state up (Opened # cs) = (if up then None else stream_state True cs)"
| "stream_state up (Received d # cs) = (if up then stream_state True cs else None)"
| "stream_state up (Closed # cs) = (if up then stream_state False cs else None)"
| "stream_state up (_ # cs) = None"

lemma stream_state_append:
  "stream_state up (cs @ cs') = Option.bind (stream_state up cs) (\<lambda>up. stream_state up cs')"
  by (induction up cs rule: stream_state.induct) simp_all

definition conn_ok :: "connection \<Rightarrow> bool" where
  "conn_ok s \<longleftrightarrow> receiving s + connecting s + waiting s \<le> 1
     \<and> stream_state False (calls s) = Some (receiving s = 1)
     \<and> (is_connected (client s) \<longrightarrow> receiving s = 1)"

lemmas conn_defs = connect_handler_def connector_connect_def connector_reconnect_def
  reconnect_handler_def set_socket_def data_ready_def start_receive_def start_calls_def
  connection_new_def set_do_reconnect_def set_connector_def

lemma write_some_connected: "write_some d sc = (r, sc') \<Longrightarrow> is_connected sc' = is_connected sc"
  by (auto simp: write_some_def Let_def split: list.splits option.splits)

lemma socket_write_connected:
  "socket_write d sc = (w, sc') \<Longrightarrow> is_connected sc' \<Longrightarrow> is_connected sc"
  by (auto simp: socket_write_def dest: write_some_connected split: if_splits prod.splits option.splits)

lemma conn_step_ok:
  assumes "conn_step s s'" and "conn_ok s"
  shows "conn_ok s'"
  using assms
proof cases
  case (wrote d w sc)
  with assms(2) show ?thesis by (auto simp: conn_ok_def dest: socket_write_connected)
qed (auto simp: conn_ok_def conn_defs stream_state_append split: if_splits)

lemma conn_reachable_ok: "conn_reachable recon hc oc s \<Longrightarrow> conn_ok s"
proof (induction rule: conn_reachable.induct)
  case start
  show ?case by (simp add: conn_ok_def connection_init_def conn_defs socket_client_new_def)
next
  case (step s s')
  then show ?case by (blast intro: conn_step_ok)
qed

section \<open>Properties\<close>

text \<open>
  Over a socket, the codec's \<^verbatim>\<open>write\<close> is honest: when it returns true the socket has taken
  exactly the frame, and when it returns false the socket has taken some of the frame at most - so
  a short write leaves a torn frame on the stream.
\<close>

theorem socket_frame_write:
  assumes "codec_write socket_write c p sc = Inr (ok, sc')" and "length p < 2 ^ 31"
  shows "if ok then wire sc' = wire sc @ encode_frame p
         else \<exists>w1 w2. w1 + w2 < length p + 4
           \<and> wire sc' = wire sc @ take w1 (bytes_u32 (of_nat (length p))) @ take w2 p"
proof (cases ok)
  case True
  with assms show ?thesis using asio.codec_write_True [of c p sc sc'] by simp
next
  case False
  with assms asio.codec_write_False [of c p sc sc'] show ?thesis by auto
qed

theorem socket_frame_write_witness:
  "\<exists>sc'. codec_write socket_write (set_transport codec_new) [9]
           ((socket_client_new [None])\<lparr>is_connected := True\<rparr>) = Inr (False, sc') \<and> wire sc' = []"
proof -
  let ?sc = "(socket_client_new [None])\<lparr>is_connected := True\<rparr>"
  have w: "codec_write socket_write (set_transport codec_new) [9] ?sc
      = Inr (False, ?sc\<lparr>is_connected := False, outcomes := []\<rparr>)"
    by (simp add: codec_write_def set_transport_def codec_new_def socket_write_def write_some_def
        socket_client_new_def)
  from socket_frame_write [OF w] show ?thesis using w
    by (auto simp: socket_client_new_def)
qed

text \<open>
  Over the Qt stream a write of a frame always succeeds, and what the slot hands to the
  socket, however often it runs, is a prefix of the frames in the order they were written.
\<close>

theorem qt_frame_write:
  assumes "has_transport c" and "length p < 2 ^ 31"
  shows "\<exists>sb'. codec_write qt_write c p sb = Inr (True, sb')
     \<and> handed (slot_write_ready sb') = accepted sb @ encode_frame p"
proof -
  obtain ok sb' where w: "codec_write qt_write c p sb = Inr (ok, sb')"
    using assms by (rule qt.codec_write_parts) blast
  then have "ok" using assms by (auto simp: codec_write_def qt_write_def scast_size Let_def)
  with w qt.codec_write_True [of c p sb sb'] assms(2) show ?thesis
    by (simp add: slot_write_ready_def accepted_def)
qed

theorem qt_frame_write_witness:
  "\<exists>sb'. codec_write qt_write (set_transport codec_new) [9] \<lparr>send_buffer = [1], handed = [0]\<rparr>
           = Inr (True, sb')
     \<and> handed (slot_write_ready sb') = [0, 1, 1, 0, 0, 0, 9]"
  using qt_frame_write [of "set_transport codec_new" "[9]" "\<lparr>send_buffer = [1], handed = [0]\<rparr>"]
  by (simp add: set_transport_def accepted_def encode_frame_def eval_bytes)

text \<open>
  C33: whatever Asio completes, in whatever order, at most one operation of a connection is under
  way, its listener sees \<^verbatim>\<open>bytestream_opened\<close>, data and \<^verbatim>\<open>bytestream_closed\<close> in turn, never data
  outside an open stream, and a client that believes it is connected has a receive under way.
\<close>

theorem connection_life_cycle:
  assumes "conn_reachable recon hc oc s"
  shows "receiving s + connecting s + waiting s \<le> 1
     \<and> stream_state False (calls s) = Some (receiving s = 1)
     \<and> (is_connected (client s) \<longrightarrow> receiving s = 1)"
  using conn_reachable_ok [OF assms] by (simp add: conn_ok_def)

theorem connection_life_cycle_witness:
  "\<exists>s. conn_reachable True True [] s \<and> stream_state False (calls s) = Some True"
proof -
  let ?s0 = "connection_init True True []"
  let ?s1 = "\<lparr>client = (socket_client_new [])\<lparr>has_connector := True, is_connected := True\<rparr>,
      do_reconnect = True, receiving = 1, connecting = 0, waiting = 0, calls = [Opened]\<rparr>"
  have "conn_step ?s0 ?s1"
    using conn_step.connected [of ?s0 0]
    by (simp add: connection_init_def conn_defs)
  then have r: "conn_reachable True True [] ?s1" by (rule conn_reachable.step [OF conn_reachable.start])
  from connection_life_cycle [OF r] r show ?thesis by (intro exI [of _ ?s1]) simp
qed

end
