(* ===== verification/Endpoint.thy ===== *)
theory Endpoint
  imports Sync_Queue Byte_Streams
begin

text \<open>
  One end of a connection, from the bytes of the socket to the queue of the \<^verbatim>\<open>node_sync\<close> and back:
  the codec cuts the received bytes into frames and passes each to the dispatcher, which passes
  the packets to the node_sync, all on the reader thread; a reply the node_sync makes at once goes
  back through the dispatcher and the codec to the socket. The theory composes the operations of
  the components and shows what a server makes of a stream of requests that arrives in chunks of
  any size.
\<close>

section \<open>The composition\<close>

text \<open>The calls of a node_sync on its packet stream, as the dispatcher executes them.\<close>

fun perform ::
  "(byte list \<Rightarrow> 'tr \<Rightarrow> fault + (bool \<times> 'tr)) \<Rightarrow> dev_call \<Rightarrow> dispatcher \<times> 'tr
     \<Rightarrow> fault + (dispatcher \<times> 'tr)" where
  "perform w (Write p) (d, tr) = andThen (dispatcher_write w p tr) (\<lambda>(_, tr). Inr (d, tr))"
| "perform w (Reply_to a p) (d, tr) = andThen (reply w a p d tr) (\<lambda>(_, d, tr). Inr (d, tr))"
| "perform w _ (d, tr) = Inr (d, tr)"

text \<open>
  A frame: \<^verbatim>\<open>request_reply_dispatcher::process_notification\<close> with the \<^verbatim>\<open>notify(res)\<close> it ends with,
  which calls \<^verbatim>\<open>node_sync::process_notification\<close>.
\<close>

definition on_frame ::
  "(byte list \<Rightarrow> 'tr \<Rightarrow> fault + (bool \<times> 'tr)) \<Rightarrow> byte list \<Rightarrow> dispatcher \<times> 't sync \<times> 'tr
     \<Rightarrow> fault + (dispatcher \<times> 't sync \<times> 'tr)" where
  "on_frame w f x =
     (let (d, s, tr) = x
      in andThen (dispatch f d) (\<lambda>(d, n).
           case n of
             None \<Rightarrow> Inr (d, s, tr)
           | Some a \<Rightarrow>
               andThen (process_notification (map_option (Pair a) (pkgs d a)) s) (\<lambda>s'.
               andThen (deliver_all (perform w) (drop (length (dev_calls s)) (dev_calls s')) (d, tr))
                 (\<lambda>(d, tr). Inr (d, s', tr)))))"

text \<open>
  \<^verbatim>\<open>request_reply_dispatcher::start\<close>; \<open>begin_tr\<close> is the virtual \<^verbatim>\<open>start\<close> of the transport.
\<close>

definition dispatcher_start :: "('tr \<Rightarrow> fault + 'r) \<Rightarrow> codec \<Rightarrow> 'tr \<Rightarrow> fault + 'r" where
  "dispatcher_start begin_tr c tr = (if get_transport c then begin_tr tr else Inl Null_deref)"

text \<open>\<^verbatim>\<open>package_codec::process_notification(data, size)\<close>, for one chunk after the other.\<close>

definition endpoint_receive ::
  "byte list list \<Rightarrow> codec \<Rightarrow> dispatcher \<times> 't sync \<times> socket_client
     \<Rightarrow> fault + (codec \<times> dispatcher \<times> 't sync \<times> socket_client)" where
  "endpoint_receive chunks c x = codec_feeds (on_frame (codec_write socket_write c)) chunks c x"

section \<open>What a server makes of the requests\<close>

abbreviation wants_nid :: "package \<Rightarrow> bool" where
  "wants_nid p \<equiv> get_cmd p = CMD_GENERATE_NID"

text \<open>The packets that reach the queue, when the first one gets address \<open>a\<close>.\<close>

fun queued :: "addr \<Rightarrow> (msgid \<times> package) list \<Rightarrow> (addr \<times> package) list" where
  "queued a [] = []"
| "queued a ((m, p) # rs) =
     (if wants_nid p then queued (Suc a) rs else (a, p) # queued (Suc a) rs)"

text \<open>
  The frames that are sent back at once, when \<open>k\<close> is the next id. A request with message id 0 is
  not waited for; it costs an id, but the reply finds no message id and is dropped.
\<close>

fun nid_answers :: "nid \<Rightarrow> (msgid \<times> package) list \<Rightarrow> byte list list" where
  "nid_answers k [] = []"
| "nid_answers k ((m, p) # rs) =
     (if \<not> wants_nid p then nid_answers k rs
      else if m = 0 then nid_answers (k + 1) rs
      else message (Ipc_Package.set_nid k package_new) (m OR reply_flag) # nid_answers (k + 1) rs)"

text \<open>Every queued request that somebody waits for can still be answered.\<close>

fun answerable :: "dispatcher \<Rightarrow> addr \<Rightarrow> (msgid \<times> package) list \<Rightarrow> bool" where
  "answerable d a [] \<longleftrightarrow> True"
| "answerable d a ((m, p) # rs) \<longleftrightarrow>
     (wants_nid p \<or> m = 0 \<or> request_msgids d a = Some m) \<and> answerable d (Suc a) rs"

definition request_ok :: "msgid \<times> package \<Rightarrow> bool" where
  "request_ok r \<longleftrightarrow> fst r AND reply_flag = 0 \<and> has_header (snd r) \<and> length (vec (snd r)) < 2 ^ 31"

text \<open>A connected socket that takes whatever it is given.\<close>

definition willing :: "socket_client \<Rightarrow> bool" where
  "willing sc \<longleftrightarrow> is_connected sc \<and> outcomes sc = []"

lemma codec_write_willing:
  assumes "has_transport c" and "willing sc" and "length f < 2 ^ 31"
  shows "codec_write socket_write c f sc = Inr (True, sc\<lparr>wire := wire sc @ encode_frame f\<rparr>)"
  using assms
  by (cases sc) (simp add: codec_write_def scast_size socket_write_def write_some_def willing_def encode_frame_def)

lemma request_ok_frame: "request_ok r \<Longrightarrow> frame_ok (message (snd r) (fst r))"
  by (auto simp: request_ok_def frame_ok_def message_def)

text \<open>What one request does.\<close>

definition served ::
  "msgid \<times> package \<Rightarrow> dispatcher \<Rightarrow> 't sync \<Rightarrow> socket_client \<Rightarrow> dispatcher \<Rightarrow> 't sync \<Rightarrow> socket_client \<Rightarrow> bool" where
  "served r d s tr d' s' tr' \<longleftrightarrow>
     next_addr d' = Suc (next_addr d) \<and> fresh_addrs d'
     \<and> (\<forall>b < next_addr d. request_msgids d' b = request_msgids d b)
     \<and> answerable d' (next_addr d) [r]
     \<and> is_server s' = is_server s \<and> has_dev s' = has_dev s
     \<and> current_nid s' = (if wants_nid (snd r) then current_nid s + 1 else current_nid s)
     \<and> elements (pkg_queue s') = elements (pkg_queue s) @ map Some (queued (next_addr d) [r])
     \<and> tr' = tr\<lparr>wire := wire tr @ encode_frames (nid_answers (current_nid s) [r])\<rparr>"

lemma on_frame_request:
  assumes "request_ok r" and "is_server s" and "has_dev s" and "fresh_addrs d"
    and "has_transport c" and "willing tr"
  shows "\<exists>d' s' tr'. on_frame (codec_write socket_write c) (message (snd r) (fst r)) (d, s, tr)
           = Inr (d', s', tr') \<and> served r d s tr d' s' tr'"
proof -
  obtain m p where r: "r = (m, p)" by (cases r)
  let ?a = "next_addr d"
  let ?d = "d\<lparr>pkgs := (pkgs d)(?a \<mapsto> p), next_addr := Suc ?a,
              request_msgids := (if m = 0 then request_msgids d else (request_msgids d)(?a \<mapsto> m))\<rparr>"
  have m: "m AND reply_flag = 0" and h: "has_header p" using assms(1) by (simp_all add: request_ok_def r)
  have dis: "dispatch (message p m) d = Inr (?d, Some ?a)"
    using m by (cases "m = 0") (simp_all add: dispatch_plain dispatch_request request_id_def)
  have free: "request_msgids d ?a = None" using assms(4) by (simp add: fresh_addrs_def)
  show ?thesis
  proof (cases "wants_nid p")
    case False
    let ?s = "s\<lparr>pkg_queue := push (Some (?a, p)) (pkg_queue s)\<rparr>"
    have pn: "process_notification (Some (?a, p)) s = Inr ?s"
      using False h has_header_length [OF h] by (simp add: process_notification_def)
    have "on_frame (codec_write socket_write c) (message p m) (d, s, tr) = Inr (?d, ?s, tr)"
      by (simp add: on_frame_def dis pn)
    moreover have "served (m, p) d s tr ?d ?s tr"
      using False assms(4) by (auto simp: served_def fresh_addrs_def push_def)
    ultimately show ?thesis unfolding r by auto
  next
    case True
    let ?rep = "Ipc_Package.set_nid (current_nid s) package_new"
    let ?s = "s\<lparr>current_nid := current_nid s + 1, dev_calls := dev_calls s @ [Reply_to ?a ?rep]\<rparr>"
    have pn: "process_notification (Some (?a, p)) s = Inr ?s"
      using True h has_header_length [OF h] assms(2,3)
      by (simp add: process_notification_def generate_nid_def dev_reply_def)
    show ?thesis
    proof (cases "m = 0")
      case True
      have "on_frame (codec_write socket_write c) (message p m) (d, s, tr) = Inr (?d, ?s, tr)"
        using True free by (simp add: on_frame_def dis [unfolded True] pn reply_def)
      moreover have "served (m, p) d s tr ?d ?s tr"
        using True \<open>wants_nid p\<close> assms(4) by (auto simp: served_def fresh_addrs_def)
      ultimately show ?thesis unfolding r by auto
    next
      case False
      let ?f = "message ?rep (m OR reply_flag)"
      let ?d' = "?d\<lparr>request_msgids := (request_msgids ?d)(?a := None), pkgs := (pkgs ?d)(?a := None)\<rparr>"
      let ?tr = "tr\<lparr>wire := wire tr @ encode_frame ?f\<rparr>"
      have "length ?f < 2 ^ 31" by (simp add: message_def package_new_mk)
      from codec_write_willing [OF assms(5,6) this]
      have "on_frame (codec_write socket_write c) (message p m) (d, s, tr) = Inr (?d', ?s, ?tr)"
        using False by (simp add: on_frame_def dis pn reply_def)
      moreover have "served (m, p) d s tr ?d' ?s ?tr"
        using False \<open>wants_nid p\<close> assms(4) by (auto simp: served_def fresh_addrs_def)
      ultimately show ?thesis unfolding r by auto
    qed
  qed
qed

text \<open>A list of requests, one after the other.\<close>

lemma answerable_cong:
  "(\<And>b. a \<le> b \<Longrightarrow> b < a + length rs \<Longrightarrow> request_msgids d' b = request_msgids d b)
     \<Longrightarrow> answerable d' a rs = answerable d a rs"
  by (induction d a rs rule: answerable.induct) auto

lemma queued_Cons: "queued a (r # rs) = queued a [r] @ queued (Suc a) rs"
  by (cases r) simp

lemma answerable_Cons: "answerable d a (r # rs) \<longleftrightarrow> answerable d a [r] \<and> answerable d (Suc a) rs"
  by (cases r) simp

lemma nid_answers_Cons:
  "nid_answers k (r # rs) = nid_answers k [r] @ nid_answers (if wants_nid (snd r) then k + 1 else k) rs"
  by (cases r) simp

lemma encode_frames_append: "encode_frames (fs @ gs) = encode_frames fs @ encode_frames gs"
  by (simp add: encode_frames_def)

lemma on_frames_requests:
  assumes "list_all request_ok rs" and "is_server s" and "has_dev s" and "fresh_addrs d"
    and "has_transport c" and "willing tr"
  shows "\<exists>d' s' tr'. deliver_all (on_frame (codec_write socket_write c))
             (map (\<lambda>(m, p). message p m) rs) (d, s, tr) = Inr (d', s', tr')
     \<and> elements (pkg_queue s') = elements (pkg_queue s) @ map Some (queued (next_addr d) rs)
     \<and> wire tr' = wire tr @ encode_frames (nid_answers (current_nid s) rs)
     \<and> (\<forall>b < next_addr d. request_msgids d' b = request_msgids d b)
     \<and> answerable d' (next_addr d) rs"
  using assms
proof (induction rs arbitrary: d s tr)
  case Nil
  then show ?case by simp
next
  case (Cons r rs)
  from Cons.prems have ok: "request_ok r" "list_all request_ok rs" by simp_all
  from on_frame_request [OF ok(1) Cons.prems(2-6)] obtain d1 s1 tr1 where
    step: "on_frame (codec_write socket_write c) (message (snd r) (fst r)) (d, s, tr) = Inr (d1, s1, tr1)"
    and sv: "served r d s tr d1 s1 tr1" by blast
  from sv Cons.prems have inv: "is_server s1" "has_dev s1" "fresh_addrs d1" "willing tr1"
    by (simp_all add: served_def willing_def)
  from Cons.IH [OF ok(2) inv(1-3) Cons.prems(5) inv(4)] obtain d' s' tr' where
    rest: "deliver_all (on_frame (codec_write socket_write c)) (map (\<lambda>(m, p). message p m) rs) (d1, s1, tr1)
             = Inr (d', s', tr')"
    and q: "elements (pkg_queue s') = elements (pkg_queue s1) @ map Some (queued (next_addr d1) rs)"
    and wi: "wire tr' = wire tr1 @ encode_frames (nid_answers (current_nid s1) rs)"
    and keep: "\<forall>b < next_addr d1. request_msgids d' b = request_msgids d1 b"
    and ans: "answerable d' (next_addr d1) rs" by blast
  have "answerable d' (next_addr d) [r]"
    using sv keep answerable_cong [of "next_addr d" "[r]" d' d1] by (simp add: served_def)
  then have "answerable d' (next_addr d) (r # rs)"
    using sv ans by (subst answerable_Cons) (simp add: served_def)
  moreover have "elements (pkg_queue s') = elements (pkg_queue s) @ map Some (queued (next_addr d) (r # rs))"
    using sv q by (subst queued_Cons) (simp add: served_def del: queued.simps)
  moreover have "wire tr' = wire tr @ encode_frames (nid_answers (current_nid s) (r # rs))"
    using sv wi by (subst nid_answers_Cons) (simp add: served_def encode_frames_append del: nid_answers.simps)
  moreover have "deliver_all (on_frame (codec_write socket_write c))
      (map (\<lambda>(m, p). message p m) (r # rs)) (d, s, tr) = Inr (d', s', tr')"
    using step rest by (simp add: case_prod_unfold)
  moreover have "\<forall>b < next_addr d. request_msgids d' b = request_msgids d b"
    using sv keep by (simp add: served_def)
  ultimately show ?case by blast
qed

section \<open>Properties\<close>

text \<open>
  C10: a stream of requests, in whatever chunks the socket delivers it, is served completely and in
  order. Each request for a node id is answered on the socket at once, with consecutive ids; all
  other packets reach the queue of the node_sync, each once and in their order, and every one
  of them that the peer waits for can still be answered; the codec holds nothing back.
\<close>

theorem requests_served:
  fixes s :: "'t sync"
  assumes "list_all request_ok rs" and "concat chunks = encode_frames (map (\<lambda>(m, p). message p m) rs)"
    and "is_server s" and "has_dev s" and "fresh_addrs d" and "willing sc"
  shows "\<exists>c' d' s' sc'. endpoint_receive chunks (set_transport codec_new) (d, s, sc) = Inr (c', d', s', sc')
     \<and> pending c' = []
     \<and> elements (pkg_queue s') = elements (pkg_queue s) @ map Some (queued (next_addr d) rs)
     \<and> wire sc' = wire sc @ encode_frames (nid_answers (current_nid s) rs)
     \<and> answerable d' (next_addr d) rs"
proof -
  let ?c = "set_transport codec_new" and ?fs = "map (\<lambda>(m, p). message p m) rs"
  have c: "pending ?c = []" "has_transport ?c"
    by (simp_all add: set_transport_def pending_def codec_new_def)
  have frames: "list_all frame_ok ?fs"
    using assms(1) request_ok_frame by (fastforce simp: list_all_iff)
  with assms(2) c obtain c' where "pending c' = []"
    and run: "codec_feeds (on_frame (codec_write socket_write ?c)) chunks ?c (d, s, sc)
      = andThen (deliver_all (on_frame (codec_write socket_write ?c)) ?fs (d, s, sc)) (\<lambda>x. Inr (c', x))"
    using codec_feeds_frames [of ?fs ?c chunks "on_frame (codec_write socket_write ?c)"] by auto
  moreover obtain d' s' sc' where
    "deliver_all (on_frame (codec_write socket_write ?c)) ?fs (d, s, sc) = Inr (d', s', sc')"
    "elements (pkg_queue s') = elements (pkg_queue s) @ map Some (queued (next_addr d) rs)"
    "wire sc' = wire sc @ encode_frames (nid_answers (current_nid s) rs)" "answerable d' (next_addr d) rs"
    using on_frames_requests [OF assms(1,3,4,5) c(2) assms(6)] by blast
  ultimately show ?thesis
    unfolding endpoint_receive_def run
    by (intro exI [of _ c'] exI [of _ d'] exI [of _ s'] exI [of _ sc']) simp
qed

theorem requests_served_witness:
  "\<exists>chunks c' d' s' sc'. concat chunks = encode_frames [message (mk_package 0 CMD_GENERATE_NID []) 1, message at_a 2]
     \<and> endpoint_receive chunks (set_transport codec_new)
         (dispatcher_new, sample_server, (socket_client_new [])\<lparr>is_connected := True\<rparr>) = Inr (c', d', s', sc')
     \<and> elements (pkg_queue s') = [Some (1, at_a)]
     \<and> wire sc' = encode_frames [message (Ipc_Package.set_nid (current_nid sample_server) package_new) (1 OR reply_flag)]
     \<and> request_msgids d' 1 = Some 2"
proof -
  let ?p = "mk_package 0 CMD_GENERATE_NID []" and ?sc = "(socket_client_new [])\<lparr>is_connected := True\<rparr>"
  let ?rs = "[(1, ?p), (2, at_a)]"
  let ?bs = "encode_frames (map (\<lambda>(m, p). message p m) ?rs)"
  let ?chunks = "[take 5 ?bs, drop 5 ?bs]"
  have cmds: "get_cmd ?p = CMD_GENERATE_NID" "get_cmd at_a \<noteq> CMD_GENERATE_NID"
    by (simp_all add: at_a_def cmd_defs)
  have len: "length (vec at_a) < 2 ^ 31" "length (vec ?p) < 2 ^ 31"
    by (simp_all add: at_a_def vec_mk_package wire_string_def)
  have start: "fresh_addrs dispatcher_new" "next_addr dispatcher_new = 0" "wire ?sc = []" "willing ?sc"
    "elements (pkg_queue sample_server) = []" "is_server sample_server" "has_dev sample_server"
    by (simp_all add: fresh_addrs_def dispatcher_new_eq willing_def socket_client_new_def
        sample_server_def sync_new_def locking_queue_new_def)
  have "list_all request_ok ?rs"
    using len by (simp add: request_ok_def reply_flag_eq) (simp add: at_a_def)
  moreover have "concat ?chunks = ?bs" by (simp del: map_append encode_frames_simps list.map)
  ultimately show ?thesis
    using requests_served [of ?rs ?chunks sample_server dispatcher_new ?sc] cmds start
    by (intro exI [of _ ?chunks]) (fastforce simp del: encode_frames_simps concat.simps)
qed

end
