(* ===== verification/Observable.thy ===== *)
theory Observable
  imports Ipc_Prelude
begin

text \<open>
  The template \<^verbatim>\<open>one_to_one_observable\<close> and its nested class \<^verbatim>\<open>listener\<close> (\<^verbatim>\<open>observable.h\<close>): two
  pointers that are meant to agree, each guarded by a mutex of its own. It connects the byte
  streams, the packet streams, the acceptor and the connector to their listeners. Observables and
  listeners are named by numbers. The mutexes are \<^verbatim>\<open>std::mutex\<close>, so a thread that locks one it
  holds blocks forever; that is the fault \<open>Self_deadlock\<close>, and the state records which mutexes the
  running thread holds.
\<close>

section \<open>State\<close>

type_synonym obs = nat
type_synonym lst = nat

record links =
  listener_of :: "obs \<Rightarrow> lst option"
  observable_of :: "lst \<Rightarrow> obs option"
  obs_held :: "obs list"
  lst_held :: "lst list"

definition links_new :: links where
  "links_new = \<lparr>listener_of = Map.empty, observable_of = Map.empty, obs_held = [], lst_held = []\<rparr>"

definition lock_obs :: "obs \<Rightarrow> links \<Rightarrow> fault + links" where
  "lock_obs ob s = (if ob \<in> set (obs_held s) then Inl Self_deadlock
                   else Inr (s\<lparr>obs_held := ob # obs_held s\<rparr>))"

definition unlock_obs :: "obs \<Rightarrow> links \<Rightarrow> links" where
  "unlock_obs ob s = s\<lparr>obs_held := remove1 ob (obs_held s)\<rparr>"

definition lock_lst :: "lst \<Rightarrow> links \<Rightarrow> fault + links" where
  "lock_lst l s = (if l \<in> set (lst_held s) then Inl Self_deadlock
                   else Inr (s\<lparr>lst_held := l # lst_held s\<rparr>))"

definition unlock_lst :: "lst \<Rightarrow> links \<Rightarrow> links" where
  "unlock_lst l s = s\<lparr>lst_held := remove1 l (lst_held s)\<rparr>"

section \<open>Operations\<close>

text \<open>\<^verbatim>\<open>one_to_one_observable::remove_listener\<close> and \<^verbatim>\<open>listener::remove_observable\<close>.\<close>

definition remove_listener :: "obs \<Rightarrow> links \<Rightarrow> fault + links" where
  "remove_listener ob s = andThen (lock_obs ob s) (\<lambda>s.
     let s = s\<lparr>listener_of := (listener_of s)(ob := None)\<rparr>
     in Inr (unlock_obs ob s))"

definition remove_observable :: "lst \<Rightarrow> links \<Rightarrow> fault + links" where
  "remove_observable l s = andThen (lock_lst l s) (\<lambda>s.
     let s = s\<lparr>observable_of := (observable_of s)(l := None)\<rparr>
     in Inr (unlock_lst l s))"

text \<open>\<^verbatim>\<open>listener::set_observable\<close>.\<close>

definition set_observable :: "lst \<Rightarrow> obs option \<Rightarrow> links \<Rightarrow> fault + links" where
  "set_observable l ob s = andThen (lock_lst l s) (\<lambda>s.
     andThen (case observable_of s l of None \<Rightarrow> Inr s | Some old \<Rightarrow> remove_listener old s) (\<lambda>s.
       let s = s\<lparr>observable_of := (observable_of s)(l := ob)\<rparr>
       in Inr (unlock_lst l s)))"

text \<open>\<^verbatim>\<open>one_to_one_observable::set_listener\<close>.\<close>

definition set_listener :: "obs \<Rightarrow> lst option \<Rightarrow> links \<Rightarrow> fault + links" where
  "set_listener ob l s = andThen (lock_obs ob s) (\<lambda>s.
     andThen (case listener_of s ob of None \<Rightarrow> Inr s | Some old \<Rightarrow> remove_observable old s) (\<lambda>s.
       let s = s\<lparr>listener_of := (listener_of s)(ob := l)\<rparr>
       in andThen (case l of None \<Rightarrow> Inr s | Some l \<Rightarrow> set_observable l (Some ob) s) (\<lambda>s.
            Inr (unlock_obs ob s))))"

text \<open>The constructor: no listener.\<close>

definition observable_construct :: "obs \<Rightarrow> links \<Rightarrow> links" where
  "observable_construct ob s = s\<lparr>listener_of := (listener_of s)(ob := None)\<rparr>"

text \<open>
  The two destructors. After the observable's, the object is gone and its name is free for an
  observable constructed later, which is why the model leaves it as the constructor would.
\<close>

definition listener_destroy :: "lst \<Rightarrow> links \<Rightarrow> fault + links" where
  "listener_destroy l s = set_observable l None s"

definition observable_destroy :: "obs \<Rightarrow> links \<Rightarrow> fault + links" where
  "observable_destroy ob s = andThen (lock_obs ob s) (\<lambda>s.
     andThen (case listener_of s ob of None \<Rightarrow> Inr s | Some l \<Rightarrow> remove_observable l s) (\<lambda>s.
       Inr (observable_construct ob (unlock_obs ob s))))"

text \<open>
  \<^verbatim>\<open>notify\<close>: the listener's callback runs while the mutex of the observable is held.
\<close>

definition notify :: "(lst \<Rightarrow> links \<Rightarrow> fault + links) \<Rightarrow> obs \<Rightarrow> links \<Rightarrow> fault + links" where
  "notify callback ob s = andThen (lock_obs ob s) (\<lambda>s.
     andThen (case listener_of s ob of None \<Rightarrow> Inr s | Some l \<Rightarrow> callback l s) (\<lambda>s.
       Inr (unlock_obs ob s)))"

text \<open>\<^verbatim>\<open>get_listener\<close>, which takes no lock.\<close>

definition get_listener :: "obs \<Rightarrow> links \<Rightarrow> lst option" where [simp]:
  "get_listener ob s = listener_of s ob"

section \<open>The two pointers agree\<close>

definition linked :: "links \<Rightarrow> bool" where
  "linked s \<longleftrightarrow> (\<forall>ob l. listener_of s ob = Some l \<longleftrightarrow> observable_of s l = Some ob)"

definition unlocked :: "links \<Rightarrow> bool" where
  "unlocked s \<longleftrightarrow> obs_held s = [] \<and> lst_held s = []"

text \<open>
  What the operations do to the links, written as one update of each pointer map: the listener and
  the observable are first cut off from their former partners.
\<close>

definition link_update :: "obs \<Rightarrow> lst option \<Rightarrow> links \<Rightarrow> links" where
  "link_update ob l s = s\<lparr>
     listener_of := (\<lambda>x. if x = ob then l
                         else if l \<noteq> None \<and> listener_of s x = l then None else listener_of s x),
     observable_of := (\<lambda>y. if l = Some y then Some ob
                           else if observable_of s y = Some ob then None else observable_of s y)\<rparr>"

lemmas link_ops = set_listener_def set_observable_def remove_listener_def remove_observable_def
  lock_obs_def unlock_obs_def lock_lst_def unlock_lst_def

lemma linked_link_update: "linked s \<Longrightarrow> linked (link_update ob l s)"
  by (auto simp: linked_def link_update_def)

lemma links_eqI:
  "listener_of s = listener_of t \<Longrightarrow> observable_of s = observable_of t
   \<Longrightarrow> obs_held s = obs_held t \<Longrightarrow> lst_held s = lst_held t \<Longrightarrow> s = (t :: links)"
  by simp

lemma set_listener_link_update:
  assumes "linked s" and "unlocked s"
  shows "set_listener ob l s = Inr (link_update ob l s)"
proof -
  have flip: "\<And>ob l. observable_of s l = Some ob \<longleftrightarrow> listener_of s ob = Some l"
    using assms(1) by (simp add: linked_def)
  have free: "obs_held s = []" "lst_held s = []" using assms(2) by (simp_all add: unlocked_def)
  consider (clear) "l = None" | (fresh) k where "l = Some k" "observable_of s k = None"
    | (move) k b where "l = Some k" "observable_of s k = Some b"
    by (cases l; cases "observable_of s (the l)") auto
  then show ?thesis
  proof cases
    case clear
    then show ?thesis
      by (cases "listener_of s ob")
        (simp_all add: link_ops link_update_def free flip fun_eq_iff)
  next
    case fresh
    then have no: "listener_of s x \<noteq> Some k" for x using flip [of k x] by auto
    with fresh show ?thesis
      by (cases "listener_of s ob")
        (use no [of ob] in \<open>auto simp: link_ops link_update_def free flip fun_eq_iff\<close>)
  next
    case move
    then have b: "listener_of s x = Some k \<longleftrightarrow> x = b" for x using flip [of k x] by auto
    show ?thesis
    proof (cases "b = ob")
      case True
      then have hk: "listener_of s ob = Some k" using b [of ob] by simp
      have no: "listener_of s x \<noteq> Some k" if "x \<noteq> ob" for x using b [of x] True that by simp
      have upd: "link_update ob l s =
          s\<lparr>listener_of := (listener_of s)(ob \<mapsto> k), observable_of := (observable_of s)(k \<mapsto> ob)\<rparr>"
        by (auto simp: move(1) link_update_def flip hk no intro!: links_eqI ext)
      show ?thesis
        unfolding upd using free by (auto simp: move(1) hk link_ops intro!: links_eqI ext)
    next
      case False
      have no: "listener_of s x \<noteq> Some k" if "x \<noteq> b" for x using b [of x] that by simp
      have kob: "listener_of s ob \<noteq> Some k" using no [of ob] False by simp
      let ?obs = "case listener_of s ob of None \<Rightarrow> observable_of s
                  | Some a \<Rightarrow> (observable_of s)(a := None)"
      have upd: "link_update ob l s =
          s\<lparr>listener_of := (listener_of s)(b := None, ob \<mapsto> k), observable_of := ?obs(k \<mapsto> ob)\<rparr>"
        using False
        by (cases "listener_of s ob")
          (auto simp: move(1) b link_update_def flip intro!: links_eqI ext)
      show ?thesis
        unfolding upd using False free kob
        by (cases "listener_of s ob")
          (auto simp: move link_ops fun_upd_twist intro!: links_eqI ext)
    qed
  qed
qed

lemma unlocked_link_update: "unlocked s \<Longrightarrow> unlocked (link_update ob l s)"
  by (simp add: unlocked_def link_update_def)

lemma linkedD: "linked s \<Longrightarrow> observable_of s l = Some ob \<longleftrightarrow> listener_of s ob = Some l"
  by (simp add: linked_def)

lemma listener_destroy_eq:
  assumes "linked s" and "unlocked s"
  shows "listener_destroy l s = Inr (s\<lparr>
     listener_of := (\<lambda>x. if listener_of s x = Some l then None else listener_of s x),
     observable_of := (observable_of s)(l := None)\<rparr>)"
  using assms
  by (cases "observable_of s l")
    (auto simp: listener_destroy_def link_ops linked_def unlocked_def intro!: links_eqI ext)

lemma observable_destroy_eq:
  assumes "linked s" and "unlocked s"
  shows "observable_destroy ob s = Inr (s\<lparr>
     listener_of := (listener_of s)(ob := None),
     observable_of := (\<lambda>y. if observable_of s y = Some ob then None else observable_of s y)\<rparr>)"
proof (cases "listener_of s ob")
  case None
  with assms have "observable_of s y \<noteq> Some ob" for y by (simp add: linkedD)
  with None assms show ?thesis
    by (auto simp: observable_destroy_def observable_construct_def link_ops unlocked_def
        intro!: links_eqI ext)
next
  case (Some l)
  with assms have "observable_of s y = Some ob \<longleftrightarrow> y = l" for y by (auto simp: linkedD)
  with Some assms(2) show ?thesis
    by (auto simp: observable_destroy_def observable_construct_def link_ops unlocked_def
        intro!: links_eqI ext)
qed

section \<open>Sequences of registrations\<close>

text \<open>
  What the program does with links outside notifications: register a listener or none, destroy a
  listener, destroy an observable.
\<close>

datatype link_op = Set_listener obs "lst option" | Destroy_listener lst | Destroy_observable obs

fun link_step :: "link_op \<Rightarrow> links \<Rightarrow> fault + links" where
  "link_step (Set_listener ob l) s = set_listener ob l s"
| "link_step (Destroy_listener l) s = listener_destroy l s"
| "link_step (Destroy_observable ob) s = observable_destroy ob s"

fun link_run :: "link_op list \<Rightarrow> links \<Rightarrow> fault + links" where
  "link_run [] s = Inr s"
| "link_run (x # xs) s = andThen (link_step x s) (link_run xs)"

lemma link_step_linked:
  assumes "linked s" and "unlocked s"
  shows "\<exists>s'. link_step x s = Inr s' \<and> linked s' \<and> unlocked s'"
  using assms
proof (cases x)
  case (Set_listener ob l)
  with assms show ?thesis
    by (simp add: set_listener_link_update linked_link_update unlocked_link_update)
next
  case (Destroy_listener l)
  with assms show ?thesis
    by (simp add: listener_destroy_eq linked_def [of "_ \<lparr>observable_of := _\<rparr>"] unlocked_def linkedD)
next
  case (Destroy_observable ob)
  with assms show ?thesis
    by (auto simp: observable_destroy_eq linked_def unlocked_def)
qed

lemma link_run_linked:
  "linked s \<Longrightarrow> unlocked s \<Longrightarrow> \<exists>s'. link_run xs s = Inr s' \<and> linked s' \<and> unlocked s'"
proof (induction xs arbitrary: s)
  case Nil
  then show ?case by simp
next
  case (Cons x xs)
  then show ?case using link_step_linked [of s x] by fastforce
qed

section \<open>Properties\<close>

text \<open>
  C32: no sequence of registrations, re-registrations and destructions, from the start, locks a mutex the thread already holds; afterwards no mutex is held and the pointers of
  observables and listeners agree.
\<close>

theorem links_agree_without_deadlock:
  "\<exists>s. link_run ops links_new = Inr s \<and> unlocked s
     \<and> (\<forall>ob l. listener_of s ob = Some l \<longleftrightarrow> observable_of s l = Some ob)"
proof -
  have "linked links_new" "unlocked links_new"
    by (simp_all add: linked_def unlocked_def links_new_def)
  then show ?thesis using link_run_linked [of links_new ops] by (auto simp: linked_def)
qed

text \<open>
  Registering a listener takes it away from the observable it listened to before, takes away
  the observable's former listener, and changes no other link.
\<close>

theorem set_listener_moves_link:
  assumes "linked s" and "unlocked s"
  shows "\<exists>s'. set_listener ob (Some l) s = Inr s'
     \<and> listener_of s' ob = Some l \<and> observable_of s' l = Some ob
     \<and> (\<forall>x. x \<noteq> ob \<longrightarrow> listener_of s' x = (if listener_of s x = Some l then None else listener_of s x))
     \<and> (\<forall>y. y \<noteq> l \<longrightarrow> observable_of s' y = (if observable_of s y = Some ob then None else observable_of s y))"
  using set_listener_link_update [OF assms, of ob "Some l"] by (simp add: link_update_def)

theorem set_listener_moves_link_witness:
  "\<exists>s'. set_listener 2 (Some 5) (links_new\<lparr>listener_of := [1 \<mapsto> 5], observable_of := [5 \<mapsto> 1]\<rparr>) = Inr s'
     \<and> listener_of s' 2 = Some 5 \<and> listener_of s' 1 = None"
proof -
  let ?s = "links_new\<lparr>listener_of := [1 \<mapsto> 5], observable_of := [5 \<mapsto> 1]\<rparr>"
  have "linked ?s" "unlocked ?s" by (auto simp: linked_def unlocked_def links_new_def)
  from set_listener_moves_link [OF this, of 2 5] obtain s' where
    "set_listener 2 (Some 5) ?s = Inr s'" "listener_of s' 2 = Some 5"
    "listener_of s' 1 = (if listener_of ?s 1 = Some 5 then None else listener_of ?s 1)" by fastforce
  then show ?thesis by (intro exI [of _ s']) simp
qed

text \<open>
  A listener must not be destroyed from within its own notification: its destructor locks the
  mutex of the observable, which the notifying thread holds.
\<close>

theorem destroy_listener_in_notification:
  assumes "linked s" and "unlocked s" and "listener_of s ob = Some l"
  shows "notify listener_destroy ob s = Inl Self_deadlock"
proof -
  have "observable_of s l = Some ob" using assms(1,3) by (simp add: linked_def)
  with assms(2,3) show ?thesis
    by (simp add: notify_def listener_destroy_def link_ops unlocked_def)
qed

theorem destroy_listener_in_notification_witness:
  "notify listener_destroy 1 (links_new\<lparr>listener_of := [1 \<mapsto> 5], observable_of := [5 \<mapsto> 1]\<rparr>)
     = Inl Self_deadlock"
  by (rule destroy_listener_in_notification [of _ 1 5])
    (auto simp: linked_def unlocked_def links_new_def)

end
