(* ===== verification/Sync_Cleanup.thy ===== *)
theory Sync_Cleanup
  imports Sync_Invariant
begin

text \<open>
  What a \<^verbatim>\<open>node_sync\<close> does when the connection closes: \<^verbatim>\<open>stream_closed\<close> and \<^verbatim>\<open>cleanup_children\<close> of
  \<^verbatim>\<open>node_sync.cpp\<close> with the destructor of \<^verbatim>\<open>client_node\<close>. The lemmas follow the loop entry by entry;
  the properties say what it leaves behind, for a table that keeps the invariant and for one with a
  null entry.
\<close>

section \<open>The loop\<close>

text \<open>\<^verbatim>\<open>delete cn\<close> for a proxy of this node_sync: \<^verbatim>\<open>~client_node\<close>, then the base class.\<close>

definition delete_client_node ::
  "('t, 'qs, 'qb) tree_api \<Rightarrow> node_ref \<Rightarrow> 't sync \<Rightarrow> 't sync" where
  "delete_client_node T n s =
     (case n of
        App _ \<Rightarrow> s
      | Proxy i \<Rightarrow>
          (case proxies s i of
             None \<Rightarrow> s
           | Some c \<Rightarrow>
               let s = (if cn_client c = None then s else remove_client_node (cn_nid c) s)
               in s\<lparr>proxies := (proxies s)(i := None), tree := t_delete T n (tree s)\<rparr>))"

text \<open>The virtual \<^verbatim>\<open>get_root()\<close> of \<^verbatim>\<open>node_sync\<close>; \<^verbatim>\<open>client\<close> overrides it with \<open>client_get_root\<close>.\<close>

definition base_get_root :: "'t sync \<Rightarrow> fault + (node_ref option \<times> 't sync)" where
  "base_get_root s = Inr (root_node s, s)"

text \<open>
  One iteration on a table that is not empty. \<open>cleanup_entry\<close> is the loop body up to its last log
  line; it gives the node that the line will read, or \<open>None\<close> where the body has left with \<^verbatim>\<open>continue\<close>.
  \<open>cleanup_step\<close> adds the line itself: it calls \<^verbatim>\<open>n->get_name()\<close>, also on a node that has just been
  deleted.
\<close>

definition cleanup_entry ::
  "('t, 'qs, 'qb) tree_api \<Rightarrow> ('t sync \<Rightarrow> fault + (node_ref option \<times> 't sync)) \<Rightarrow> 't sync
     \<Rightarrow> fault + (node_ref option \<times> 't sync)" where
  "cleanup_entry T get_root s =
     andThen (deref s (snd (hd (tracked s)))) (\<lambda>n.
     andThen (get_root s) (\<lambda>(root, s).
       if Some n = root then Inr (None, s\<lparr>tracked := tl (tracked s)\<rparr>)
       else andThen (case t_owner T (tree s) n of
                       None \<Rightarrow> Inr s
                     | Some parent \<Rightarrow>
                         if alive s parent then Inr (s\<lparr>tree := t_detach T parent n (tree s)\<rparr>)
                         else Inl Use_after_free) (\<lambda>s.
            Inr (Some n, if own_proxy s n then delete_client_node T n s
                         else s\<lparr>tracked := tl (tracked s)\<rparr>))))"

definition cleanup_step ::
  "('t, 'qs, 'qb) tree_api \<Rightarrow> ('t sync \<Rightarrow> fault + (node_ref option \<times> 't sync)) \<Rightarrow> 't sync
     \<Rightarrow> fault + 't sync" where
  "cleanup_step T get_root s =
     andThen (cleanup_entry T get_root s) (\<lambda>(last, s).
       case last of
         None \<Rightarrow> Inr s
       | Some n \<Rightarrow> if alive s n then Inr s else Inl Use_after_free)"

fun cleanup_children ::
  "('t, 'qs, 'qb) tree_api \<Rightarrow> ('t sync \<Rightarrow> fault + (node_ref option \<times> 't sync)) \<Rightarrow> nat \<Rightarrow> 't sync
     \<Rightarrow> (fault + 't sync) option" where
  "cleanup_children T get_root 0 s = None"
| "cleanup_children T get_root (Suc fuel) s =
     (if tracked s = [] then Some (Inr s)
      else case cleanup_step T get_root s of
        Inl e \<Rightarrow> Some (Inl e)
      | Inr s \<Rightarrow> cleanup_children T get_root fuel s)"

text \<open>\<^verbatim>\<open>stream_closed\<close>; the fuel is one more than the entries of the table.\<close>

definition stream_closed ::
  "('t, 'qs, 'qb) tree_api \<Rightarrow> ('t sync \<Rightarrow> fault + (node_ref option \<times> 't sync)) \<Rightarrow> 't sync
     \<Rightarrow> (fault + 't sync) option" where
  "stream_closed T get_root s = cleanup_children T get_root (Suc (length (tracked s))) s"

section \<open>What the loop relies on\<close>

text \<open>The tree: detaching gives no node a new owner.\<close>

definition owner_laws :: "('t, 'qs, 'qb) tree_api \<Rightarrow> bool" where
  "owner_laws T \<longleftrightarrow> (\<forall>p n t m r. t_owner T (t_detach T p n t) m = Some r \<longrightarrow> t_owner T t m = Some r)"

lemma owner_detach:
  "owner_laws T \<Longrightarrow> t_owner T (t_detach T p n t) m = Some r \<Longrightarrow> t_owner T t m = Some r"
  unfolding owner_laws_def by blast

definition owners_alive :: "('t, 'qs, 'qb) tree_api \<Rightarrow> 't sync \<Rightarrow> bool" where
  "owners_alive T s \<longleftrightarrow> (\<forall>n p. t_owner T (tree s) n = Some p \<longrightarrow> alive s p)"

text \<open>
  \<^verbatim>\<open>get_root()\<close> is a plain read: it is the one of the base class, or the root has been fetched.
\<close>

definition root_known ::
  "('t, 'qs, 'qb) tree_api \<Rightarrow> ('t sync \<Rightarrow> fault + (node_ref option \<times> 't sync)) \<Rightarrow> 't sync \<Rightarrow> bool" where
  "root_known T get_root s \<longleftrightarrow>
     get_root = base_get_root \<or> get_root = client_get_root T \<and> root_node s \<noteq> None"

text \<open>
  The invariant of the loop: the table is sorted, and an entry that is not null is a node under its id.
\<close>

definition loop_ok :: "'t sync \<Rightarrow> bool" where
  "loop_ok s \<longleftrightarrow> sorted_map (tracked s) \<and> (\<forall>k m. (k, m) \<in> set (tracked s) \<longrightarrow> m = None \<or> entry_ok s k m)"

lemma sync_ok_loop_ok: "sync_ok s \<Longrightarrow> loop_ok s"
  by (auto simp: sync_ok_def loop_ok_def sorted_map_in_set)

text \<open>A proxy that the loop deletes: one of this connection, and not its root.\<close>

definition doomed :: "'t sync \<Rightarrow> node_ref \<Rightarrow> bool" where
  "doomed s n \<longleftrightarrow> own_proxy s n \<and> root_node s \<noteq> Some n"

lemma doomed_own:
  "doomed s n \<longleftrightarrow> (\<exists>i c. n = Proxy i \<and> own s i c \<and> root_node s \<noteq> Some (Proxy i))"
  by (cases n) (auto simp: doomed_def own_proxy_def proxy_of_def own_def split: option.splits)

text \<open>What the entries of a table do to the loop: the first that is null or doomed ends it.\<close>

fun table_fault :: "'t sync \<Rightarrow> (nid \<times> node_ref option) list \<Rightarrow> fault option" where
  "table_fault s [] = None"
| "table_fault s ((k, None) # es) = Some Null_deref"
| "table_fault s ((k, Some n) # es) = (if doomed s n then Some Use_after_free else table_fault s es)"

text \<open>What the loop leaves when it ends.\<close>

definition cleaned :: "'t sync \<Rightarrow> 't sync \<Rightarrow> bool" where
  "cleaned s s' \<longleftrightarrow> tracked s' = [] \<and> proxies s' = proxies s \<and> self s' = self s
     \<and> root_node s' = root_node s \<and> dev_calls s' = dev_calls s \<and> pkg_queue s' = pkg_queue s
     \<and> has_dev s' = has_dev s"

section \<open>One iteration\<close>

lemma own_proxy_cong: "proxies s' = proxies s \<Longrightarrow> self s' = self s \<Longrightarrow> own_proxy s' n = own_proxy s n"
  by (cases n) (simp_all add: own_proxy_def proxy_of_def split: option.split)

lemma doomed_cong:
  "proxies s' = proxies s \<Longrightarrow> self s' = self s \<Longrightarrow> root_node s' = root_node s \<Longrightarrow> doomed s' n = doomed s n"
  by (simp add: doomed_def own_proxy_cong [of s' s])

lemma table_induct [case_names Nil Null Node]:
  "P [] \<Longrightarrow> (\<And>k es. P es \<Longrightarrow> P ((k, None) # es)) \<Longrightarrow> (\<And>k n es. P es \<Longrightarrow> P ((k, Some n) # es)) \<Longrightarrow> P es"
  for es :: "(nid \<times> node_ref option) list"
  by (induction es) (metis option.exhaust prod.exhaust)+

lemma table_fault_cong:
  assumes "proxies s' = proxies s" and "self s' = self s" and "root_node s' = root_node s"
  shows "table_fault s' es = table_fault s es"
  by (induction es rule: table_induct) (simp_all add: doomed_cong [OF assms])

lemma root_known_read: "root_known T get_root s \<Longrightarrow> get_root s = Inr (root_node s, s)"
  by (auto simp: root_known_def base_get_root_def client_get_root_def)

lemma step_null: "tracked s = (k, None) # m \<Longrightarrow> cleanup_step T get_root s = Inl Null_deref"
  by (simp add: cleanup_step_def cleanup_entry_def deref_def)

lemma entry_alive: "entry_ok s k (Some n) \<Longrightarrow> alive s n"
  by (cases n) (auto simp: alive_def split: option.splits)

lemma owners_alive_mono:
  assumes "owners_alive T s" and "proxies s' = proxies s"
    and "\<And>m r. t_owner T (tree s') m = Some r \<Longrightarrow> t_owner T (tree s) m = Some r"
  shows "owners_alive T s'"
  using assms alive_cong [OF assms(2)] unfolding owners_alive_def by blast

lemma remove_client_node_head:
  "tracked s = (k, m) # rest \<Longrightarrow> sorted_map (tracked s) \<Longrightarrow> remove_client_node k s = s\<lparr>tracked := rest\<rparr>"
  using map_del_head [of k m rest] by (simp add: remove_client_node_def)

text \<open>The body on the entry of a node that is not the root, with the tree after the detaching.\<close>

definition detached :: "('t, 'qs, 'qb) tree_api \<Rightarrow> node_ref \<Rightarrow> 't sync \<Rightarrow> 't sync" where
  "detached T n s =
     (case t_owner T (tree s) n of None \<Rightarrow> s | Some p \<Rightarrow> s\<lparr>tree := t_detach T p n (tree s)\<rparr>)"

lemma detached_frame:
  "tracked (detached T n s) = tracked s" "proxies (detached T n s) = proxies s"
  "self (detached T n s) = self s" "root_node (detached T n s) = root_node s"
  "dev_calls (detached T n s) = dev_calls s" "pkg_queue (detached T n s) = pkg_queue s"
  "has_dev (detached T n s) = has_dev s"
  by (simp_all add: detached_def split: option.split)

lemma detached_owner:
  "owner_laws T \<Longrightarrow> t_owner T (tree (detached T n s)) m = Some r \<Longrightarrow> t_owner T (tree s) m = Some r"
  by (auto simp: detached_def dest: owner_detach split: option.splits)

text \<open>The loop goes on from \<open>s\<close> to \<open>s1\<close> with the rest of the table, and only the tree has changed.\<close>

definition goes_on ::
  "('t, 'qs, 'qb) tree_api \<Rightarrow> (nid \<times> node_ref option) list \<Rightarrow> 't sync \<Rightarrow> 't sync \<Rightarrow> bool" where
  "goes_on T rest s s1 \<longleftrightarrow> tracked s1 = rest \<and> proxies s1 = proxies s \<and> self s1 = self s
     \<and> root_node s1 = root_node s \<and> dev_calls s1 = dev_calls s \<and> pkg_queue s1 = pkg_queue s
     \<and> has_dev s1 = has_dev s \<and> loop_ok s1 \<and> owners_alive T s1"

lemma goes_on_intro:
  assumes head: "tracked s = (k, Some n) # rest" and ok: "loop_ok s" and owners: "owners_alive T s"
    and "owner_laws T"
  shows "goes_on T rest s (s\<lparr>tracked := rest\<rparr>)" and "goes_on T rest s ((detached T n s)\<lparr>tracked := rest\<rparr>)"
proof -
  have loop: "loop_ok s1" if "tracked s1 = rest" "proxies s1 = proxies s" "self s1 = self s" for s1
    using ok head that unfolding loop_ok_def entry_ok_cong [OF that(2,3)] by (simp add: sorted_map_Cons)
  have "loop_ok (s\<lparr>tracked := rest\<rparr>)" "loop_ok ((detached T n s)\<lparr>tracked := rest\<rparr>)"
    by (rule loop; simp add: detached_frame)+
  moreover have "owners_alive T (s\<lparr>tracked := rest\<rparr>)" by (rule owners_alive_mono [OF owners]) simp_all
  moreover have "owners_alive T ((detached T n s)\<lparr>tracked := rest\<rparr>)"
  proof (rule owners_alive_mono [OF owners])
    show "t_owner T (tree s) m = Some r" if "t_owner T (tree ((detached T n s)\<lparr>tracked := rest\<rparr>)) m = Some r" for m r
      using that detached_owner [OF assms(4), of n s m r] by simp
  qed (simp add: detached_frame)
  ultimately show "goes_on T rest s (s\<lparr>tracked := rest\<rparr>)" "goes_on T rest s ((detached T n s)\<lparr>tracked := rest\<rparr>)"
    by (simp_all add: goes_on_def detached_frame)
qed

lemma entry_body:
  assumes head: "tracked s = (k, Some n) # rest" and ok: "loop_ok s" and owners: "owners_alive T s"
    and "root_known T get_root s"
  shows "cleanup_entry T get_root s =
    (if root_node s = Some n then Inr (None, s\<lparr>tracked := rest\<rparr>)
     else Inr (Some n, if own_proxy s n then delete_client_node T n (detached T n s)
                       else (detached T n s)\<lparr>tracked := rest\<rparr>))"
proof -
  have "alive s n" using ok head by (auto simp: loop_ok_def intro: entry_alive)
  moreover have "(case t_owner T (tree s) n of None \<Rightarrow> Inr s
      | Some parent \<Rightarrow> if alive s parent then Inr (s\<lparr>tree := t_detach T parent n (tree s)\<rparr>)
                       else Inl Use_after_free) = Inr (detached T n s)"
    using owners by (auto simp: detached_def owners_alive_def split: option.splits)
  ultimately show ?thesis
    using head root_known_read [OF assms(4)]
    by (auto simp: cleanup_entry_def deref_def detached_frame own_proxy_cong [of "detached T n s" s])
qed

lemma step_kept:
  assumes "tracked s = (k, Some n) # rest" and "loop_ok s" and "owners_alive T s"
    and "root_known T get_root s" and "owner_laws T" and "\<not> doomed s n"
  shows "\<exists>s1. cleanup_step T get_root s = Inr s1 \<and> goes_on T rest s s1"
proof -
  have "alive s n" using assms(1,2) by (auto simp: loop_ok_def intro: entry_alive)
  then have "alive ((detached T n s)\<lparr>tracked := rest\<rparr>) n"
    by (simp add: alive_cong [of "(detached T n s)\<lparr>tracked := rest\<rparr>" s] detached_frame)
  with entry_body [OF assms(1-4)] assms(6)
  have "cleanup_step T get_root s = Inr (if root_node s = Some n then s\<lparr>tracked := rest\<rparr>
      else (detached T n s)\<lparr>tracked := rest\<rparr>)"
    by (auto simp: cleanup_step_def doomed_def)
  with goes_on_intro [OF assms(1-3,5)] show ?thesis by simp
qed

text \<open>On a doomed proxy: it is deleted, and then its name is read.\<close>

lemma step_doomed:
  assumes "tracked s = (k, Some (Proxy i)) # rest" and "loop_ok s" and "owners_alive T s"
    and "root_known T get_root s" and "doomed s (Proxy i)"
  obtains s1 where "cleanup_entry T get_root s = Inr (Some (Proxy i), s1)"
    and "proxies s1 = (proxies s)(i := None)" and "cleanup_step T get_root s = Inl Use_after_free"
proof -
  let ?s = "delete_client_node T (Proxy i) (detached T (Proxy i) s)"
  obtain c where "proxies s i = Some c" using assms(5) by (auto simp: doomed_own own_def)
  then have prox: "proxies ?s = (proxies s)(i := None)"
    by (simp add: delete_client_node_def detached_frame remove_client_node_def Let_def)
  have entry: "cleanup_entry T get_root s = Inr (Some (Proxy i), ?s)"
    using entry_body [OF assms(1-4)] assms(5) by (simp add: doomed_def)
  then have "cleanup_step T get_root s = Inl Use_after_free"
    by (simp add: cleanup_step_def alive_def prox)
  with entry prox show thesis by (rule that)
qed

section \<open>The whole loop\<close>

lemma cleanup_run:
  assumes "loop_ok s" and T: "owner_laws T" and "owners_alive T s" and "root_known T get_root s"
    and "length (tracked s) < fuel"
  shows "case table_fault s (tracked s) of
      Some e \<Rightarrow> cleanup_children T get_root fuel s = Some (Inl e)
    | None \<Rightarrow> \<exists>s'. cleanup_children T get_root fuel s = Some (Inr s') \<and> cleaned s s'"
  using assms(1,3,4,5)
proof (induction fuel arbitrary: s)
  case 0
  then show ?case by simp
next
  case (Suc fuel)
  consider "tracked s = []" | k es where "tracked s = (k, None) # es"
    | k n es where "tracked s = (k, Some n) # es" "doomed s n"
    | k n es where "tracked s = (k, Some n) # es" "\<not> doomed s n"
    by (metis list.exhaust prod.exhaust option.exhaust)
  then show ?case
  proof cases
    case 1
    then show ?thesis by (simp add: cleaned_def)
  next
    case 2
    then show ?thesis by (simp add: step_null)
  next
    case 3
    then obtain i where "n = Proxy i" by (auto simp: doomed_own)
    with 3 have "cleanup_step T get_root s = Inl Use_after_free"
      using step_doomed [OF _ Suc.prems(1-3)] by metis
    with 3 show ?thesis by simp
  next
    case 4
    obtain s1 where step: "cleanup_step T get_root s = Inr s1" and on: "goes_on T es s s1"
      using step_kept [OF 4(1) Suc.prems(1-3) T 4(2)] by blast
    then have "root_known T get_root s1" "table_fault s1 es = table_fault s es"
      using Suc.prems(3) table_fault_cong [of s1 s] by (auto simp: goes_on_def root_known_def)
    moreover have "cleaned s1 s' \<Longrightarrow> cleaned s s'" for s' using on by (simp add: goes_on_def cleaned_def)
    ultimately show ?thesis
      using Suc.IH [of s1] on step 4 Suc.prems(4)
      by (auto simp: goes_on_def split: option.splits)
  qed
qed

text \<open>The first \<open>n\<close> iterations.\<close>

primrec cleanup_iterate ::
  "('t, 'qs, 'qb) tree_api \<Rightarrow> ('t sync \<Rightarrow> fault + (node_ref option \<times> 't sync)) \<Rightarrow> nat \<Rightarrow> 't sync
     \<Rightarrow> fault + 't sync" where
  "cleanup_iterate T get_root 0 s = Inr s"
| "cleanup_iterate T get_root (Suc n) s = andThen (cleanup_step T get_root s) (cleanup_iterate T get_root n)"

lemma iterate_kept:
  assumes "loop_ok s" and T: "owner_laws T" and "owners_alive T s" and "root_known T get_root s"
    and "tracked s = es @ rest" and "table_fault s es = None"
  shows "\<exists>s1. cleanup_iterate T get_root (length es) s = Inr s1 \<and> goes_on T rest s s1"
  using assms(1,3-)
proof (induction es arbitrary: s)
  case Nil
  then show ?case by (simp add: goes_on_def)
next
  case (Cons e es)
  then obtain k n where e: "e = (k, Some n)" by (cases e, cases "snd e") auto
  with Cons.prems(5) have n: "\<not> doomed s n" and es: "table_fault s es = None"
    by (simp_all split: if_splits)
  from Cons.prems(4) e have "tracked s = (k, Some n) # (es @ rest)" by simp
  from step_kept [OF this Cons.prems(1-3) T n] obtain s1 where
    step: "cleanup_step T get_root s = Inr s1" and on: "goes_on T (es @ rest) s s1" by blast
  then have "root_known T get_root s1" "table_fault s1 es = None"
    using Cons.prems(3) es table_fault_cong [of s1 s] by (auto simp: goes_on_def root_known_def)
  with Cons.IH [of s1] on obtain s2 where "cleanup_iterate T get_root (length es) s1 = Inr s2"
    and "goes_on T rest s1 s2" by (auto simp: goes_on_def)
  with step on show ?case by (auto simp: goes_on_def)
qed

section \<open>Tables that keep the invariant\<close>

lemma own_tracked:
  "sync_ok s \<Longrightarrow> own s i c \<Longrightarrow> map_of (tracked s) (cn_nid c) = Some (Some (Proxy i))"
  by (simp add: sync_ok_def)

lemma tracked_own:
  "sync_ok s \<Longrightarrow> (k, Some (Proxy i)) \<in> set (tracked s) \<Longrightarrow> own s i c \<Longrightarrow> cn_nid c = k"
  using sync_ok_loop_ok [of s] by (fastforce simp: loop_ok_def own_def)

lemma sync_ok_no_null: "sync_ok s \<Longrightarrow> (k, None) \<notin> set (tracked s)"
proof
  assume ok: "sync_ok s" and "(k, None) \<in> set (tracked s)"
  then have "map_of (tracked s) k = Some None"
    by (simp add: sync_ok_def flip: sorted_map_in_set)
  with ok have "entry_ok s k None" unfolding sync_ok_def by blast
  then show False by simp
qed

lemma table_fault_None:
  "(\<And>k. (k, None) \<notin> set es) \<Longrightarrow> (\<And>k n. (k, Some n) \<in> set es \<Longrightarrow> \<not> doomed s n)
     \<Longrightarrow> table_fault s es = None"
  by (induction es rule: table_induct) auto

lemma table_fault_doomed:
  "(\<And>k. (k, None) \<notin> set es) \<Longrightarrow> (k, Some n) \<in> set es \<Longrightarrow> doomed s n
     \<Longrightarrow> table_fault s es = Some Use_after_free"
  by (induction es rule: table_induct) auto

lemma table_fault_null:
  "(k, None) \<in> set es \<Longrightarrow> (\<And>k n. (k, Some n) \<in> set es \<Longrightarrow> \<not> doomed s n)
     \<Longrightarrow> table_fault s es = Some Null_deref"
  by (induction es rule: table_induct) auto

lemma doomed_tracked: "sync_ok s \<Longrightarrow> doomed s n \<Longrightarrow> \<exists>k. (k, Some n) \<in> set (tracked s)"
  using own_tracked by (fastforce simp: doomed_own dest: map_of_SomeD)

lemma table_fault_sync_ok:
  assumes "sync_ok s"
  shows "table_fault s (tracked s) = (if \<exists>n. doomed s n then Some Use_after_free else None)"
proof (cases "\<exists>n. doomed s n")
  case True
  then obtain n k where "doomed s n" "(k, Some n) \<in> set (tracked s)" using doomed_tracked [OF assms] by blast
  with True show ?thesis using table_fault_doomed sync_ok_no_null [OF assms] by metis
qed (simp add: table_fault_None sync_ok_no_null [OF assms])

lemma sync_ok_closed:
  assumes "sync_ok s" and "owner_laws T" and "owners_alive T s" and "root_known T get_root s"
  shows "if \<exists>n. doomed s n then stream_closed T get_root s = Some (Inl Use_after_free)
    else \<exists>s'. stream_closed T get_root s = Some (Inr s') \<and> cleaned s s'"
  using cleanup_run [OF sync_ok_loop_ok [OF assms(1)] assms(2-4), of "Suc (length (tracked s))"]
  unfolding stream_closed_def table_fault_sync_ok [OF assms(1)]
  by (cases "\<exists>n. doomed s n") (simp_all del: cleanup_children.simps)

text \<open>The iteration that deletes the first of the proxies is reached.\<close>

lemma doomed_reached:
  assumes "sync_ok s" and "owner_laws T" and "owners_alive T s" and "root_known T get_root s"
    and own: "own s x c" and "root_node s \<noteq> Some (Proxy x)"
    and first: "\<And>y d. own s y d \<Longrightarrow> root_node s \<noteq> Some (Proxy y) \<Longrightarrow> cn_nid c \<le> cn_nid d"
  obtains n s1 s2 where "cleanup_iterate T get_root n s = Inr s1" and "tracked s1 \<noteq> []"
    and "cleanup_entry T get_root s1 = Inr (Some (Proxy x), s2)" and "proxies s2 = (proxies s)(x := None)"
proof -
  obtain es rest where split: "tracked s = es @ (cn_nid c, Some (Proxy x)) # rest"
    using own_tracked [OF assms(1) own] by (meson map_of_SomeD split_list)
  have sorted: "sorted_map (tracked s)" using assms(1) by (simp add: sync_ok_def)
  have below: "k < cn_nid c" if "(k, m) \<in> set es" for k m
    using that sorted split by (force simp: sorted_map_def sorted_wrt_append)
  have keep: "\<not> doomed s n" if "(k, Some n) \<in> set es" for k n
  proof
    assume "doomed s n"
    then obtain y d where y: "n = Proxy y" "own s y d" "root_node s \<noteq> Some (Proxy y)"
      by (auto simp: doomed_own)
    with that split have "cn_nid d = k" by (intro tracked_own [OF assms(1)]) auto
    with first [OF y(2,3)] below [OF that] show False by simp
  qed
  have "(k, None) \<notin> set es" for k using sync_ok_no_null [OF assms(1), of k] split by auto
  then have "table_fault s es = None" using keep by (rule table_fault_None)
  from iterate_kept [OF sync_ok_loop_ok [OF assms(1)] assms(2-4) split this] obtain s1 where
    s1: "cleanup_iterate T get_root (length es) s = Inr s1"
    and on: "goes_on T ((cn_nid c, Some (Proxy x)) # rest) s s1" by blast
  have at: "tracked s1 = (cn_nid c, Some (Proxy x)) # rest" "loop_ok s1" "owners_alive T s1"
    "root_known T get_root s1" "doomed s1 (Proxy x)" "proxies s1 = proxies s"
    using on assms(4-6) doomed_cong [of s1 s "Proxy x"]
    by (auto simp: goes_on_def root_known_def doomed_own)
  obtain s2 where "cleanup_entry T get_root s1 = Inr (Some (Proxy x), s2)" "proxies s2 = (proxies s)(x := None)"
    using step_doomed [OF at(1-5)] at(6) by metis
  with s1 at(1) show thesis using that by auto
qed

section \<open>Sample state\<close>

text \<open>The sample server after its peer has attached an integer property \<^verbatim>\<open>c\<close> under the id 1.\<close>

definition sample_attached :: "(byte list, byte list) sample sync" where
  "sample_attached =
     (adopt ((add_kid (App 0) ''c'' (Proxy 0) sample_nodes)
               \<lparr>sm_prop := [App 1 \<mapsto> \<lparr>prop_type = type_int, prop_value = VInt 7\<rparr>,
                            Proxy 0 \<mapsto> \<lparr>prop_type = type_int, prop_value = VInt 0\<rparr>]\<rparr>)
        (fake_for type_int 1 1) 1 sample_server)\<lparr>current_nid := 2\<rparr>"

lemma sample_owner_laws: "owner_laws (sample_tree qs qb)"
  by (auto simp: owner_laws_def sample_tree_def drop_kid_def)

lemma sample_server_sync: "sync_ok sample_server"
  using sample_server_ok by (simp add: server_ok_def)

lemma sample_server_owners: "owners_alive samples sample_server"
  by (auto simp: owners_alive_def sample_state alive_def split: if_splits)

lemma sample_attached_ok: "sync_ok sample_attached"
proof -
  note sample_server_sync
  then have "sync_ok (adopt t fk 1 sample_server)" for t fk
    by (intro sync_ok_adopt) (simp_all add: sample_server_def)
  then show ?thesis unfolding sample_attached_def by (subst sync_ok_cong) simp_all
qed

lemma sample_attached_owners: "owners_alive samples sample_attached"
  by (auto simp: owners_alive_def sample_attached_def adopt_def sample_state alive_def split: if_splits)

lemma sample_attached_own: "own sample_attached 0
    \<lparr>cn_nid = 1, cn_client = Some 1, cn_fake = fake_for type_int 1 1\<rparr>"
  by (simp add: own_def sample_attached_def adopt_def sample_server_def sync_new_def)

section \<open>Properties\<close>

text \<open>
  C8: when the connection closes, what the peer has attached decides how the clean-up ends, for every table
  that keeps the invariant. If the connection has a proxy other than the root, the clean-up deletes it and then
  uses it: the log line at the end of the iteration reads its name. If it has none, the
  clean-up ends without a fault: nothing stays tracked, every proxy, of this connection or another, is as it
  was, and nothing is sent or taken from the queue.
\<close>

theorem cleanup_outcome:
  assumes "sync_ok s" and "owner_laws T" and "owners_alive T s" and "root_known T get_root s"
  shows "if \<exists>i c. own s i c \<and> root_node s \<noteq> Some (Proxy i)
    then stream_closed T get_root s = Some (Inl Use_after_free)
    else \<exists>s'. stream_closed T get_root s = Some (Inr s') \<and> tracked s' = [] \<and> proxies s' = proxies s
           \<and> dev_calls s' = dev_calls s \<and> pkg_queue s' = pkg_queue s"
  using sync_ok_closed [OF assms] by (auto simp: doomed_own cleaned_def split: if_splits)

theorem cleanup_outcome_witness:
  "stream_closed samples base_get_root sample_attached = Some (Inl Use_after_free)
   \<and> (\<exists>s'. stream_closed samples base_get_root sample_server = Some (Inr s') \<and> tracked s' = [])"
proof -
  have root: "root_known samples base_get_root s" for s by (simp add: root_known_def)
  have "\<not> own sample_server i c" for i c by (simp add: own_def sample_server_def sync_new_def)
  moreover have "root_node sample_attached \<noteq> Some (Proxy 0)"
    by (simp add: sample_attached_def adopt_def sample_server_def sync_new_def)
  ultimately show ?thesis
    using cleanup_outcome [OF sample_attached_ok sample_owner_laws sample_attached_owners root]
      cleanup_outcome [OF sample_server_sync sample_owner_laws sample_server_owners root]
      sample_attached_own by (metis (no_types, lifting))
qed

text \<open>
  A request to set the value of an id that is not tracked brings the process down later: it plants
  a null pointer in the table, and the clean-up of the closed connection calls through it, also
  when the connection has no proxy.
\<close>

theorem unknown_id_breaks_cleanup:
  assumes "sync_ok s" and "owner_laws T" and "owners_alive T s" and "root_known T get_root s"
    and "map_of (tracked s) (get_nid p) = None"
    and none: "\<And>i c. own s i c \<Longrightarrow> root_node s = Some (Proxy i)"
  shows "\<exists>s'. cmd_prop_value q T p s = Inr s' \<and> stream_closed T get_root s' = Some (Inl Null_deref)"
proof -
  let ?s = "s\<lparr>tracked := map_put (get_nid p) None (tracked s)\<rparr>"
  have sorted: "sorted_map (tracked s)" using assms(1) by (simp add: sync_ok_def)
  have sorted': "sorted_map (tracked ?s)" using smap.invar_put [OF sorted] by simp
  have find: "map_of (tracked ?s) = (map_of (tracked s))(get_nid p \<mapsto> None)"
    using smap.find_put [OF sorted] by simp
  have set: "(k, m) \<in> set (tracked ?s) \<longleftrightarrow> (if k = get_nid p then m = None else (k, m) \<in> set (tracked s))"
    for k m
    unfolding sorted_map_in_set [OF sorted'] find sorted_map_in_set [OF sorted] by auto
  have same: "proxies ?s = proxies s" "self ?s = self s" by simp_all
  have "loop_ok ?s"
    using sync_ok_loop_ok [OF assms(1)] sorted' set
    unfolding loop_ok_def entry_ok_cong [OF same] by auto
  moreover have "owners_alive T ?s" by (rule owners_alive_mono [OF assms(3)]) simp_all
  moreover have "root_known T get_root ?s" using assms(4) by (simp add: root_known_def)
  moreover have "table_fault ?s (tracked ?s) = Some Null_deref"
    using none set [of "get_nid p" None]
    by (intro table_fault_null [of "get_nid p"]) (auto simp: doomed_own own_cong [OF same])
  ultimately have "stream_closed T get_root ?s = Some (Inl Null_deref)"
    using cleanup_run [OF _ assms(2), of ?s get_root "Suc (length (tracked ?s))"]
    unfolding stream_closed_def by auto
  moreover have "cmd_prop_value q T p s = Inr ?s"
    using assms(5) by (simp add: cmd_prop_value_def tracked_at_def cast_prop_def)
  ultimately show ?thesis by blast
qed

theorem unknown_id_breaks_cleanup_witness:
  "\<exists>s'. cmd_prop_value plain_qt samples (mk_package 99 CMD_PROP_SET_VALUE [1, 0, 0, 0]) sample_server = Inr s'
     \<and> stream_closed samples base_get_root s' = Some (Inl Null_deref)"
proof (rule unknown_id_breaks_cleanup [OF sample_server_sync sample_owner_laws sample_server_owners])
  show "root_known samples base_get_root sample_server" by (simp add: root_known_def)
  show "map_of (tracked sample_server) (get_nid (mk_package 99 CMD_PROP_SET_VALUE [1, 0, 0, 0])) = None"
    by (simp add: sample_server_def)
  show "root_node sample_server = Some (Proxy i)" if "own sample_server i c" for i c
    using that by (simp add: own_def sample_server_def sync_new_def)
qed

end
