(* ===== verification/Conn_Server.thy ===== *)
theory Conn_Server
  imports Endpoint Observable Sync_Cleanup
begin

text \<open>
  Serving several connections: the \<^verbatim>\<open>acceptor\<close> with its \<^verbatim>\<open>object_status\<close> (\<^verbatim>\<open>acceptor.h\<close>,
  \<^verbatim>\<open>object_status.h\<close>), and \<^verbatim>\<open>conn_server\<close> (\<^verbatim>\<open>conn_server.h\<close>), which makes one object of its class
  \<^verbatim>\<open>client\<close> for each accepted socket: a byte stream, a dispatcher and a \<^verbatim>\<open>server\<close>, linked to each
  other as listeners. The theory also has the notifications that travel over those links when a
  stream opens and closes (\<^verbatim>\<open>reliable_bytestream_base.h\<close>, \<^verbatim>\<open>package_stream_base.h\<close>,
  \<^verbatim>\<open>package_stream.cpp\<close>).

  The acceptor and the \<^verbatim>\<open>conn_server\<close> are linked as observable and listener too. Sockets are numbered in the order in which they are made; connection \<open>i\<close> is the one with socket
  \<open>i\<close>. The nodes of the tree and the proxies belong to the process, so the state has one of each, and
  \<open>with_shared\<close> puts them into the node_sync that runs.
\<close>

section \<open>Links of a connection\<close>

text \<open>The byte stream and the dispatcher as observables; the dispatcher and the server as listeners.\<close>

definition sc_obs :: "nat \<Rightarrow> obs" where "sc_obs i = 2 * i"
definition sd_obs :: "nat \<Rightarrow> obs" where "sd_obs i = 2 * i + 1"
definition sd_lst :: "nat \<Rightarrow> lst" where "sd_lst i = 2 * i"
definition srv_lst :: "nat \<Rightarrow> lst" where "srv_lst i = 2 * i + 1"

lemmas link_names = sc_obs_def sd_obs_def sd_lst_def srv_lst_def

lemma link_names_inj [simp]:
  "sc_obs i = sc_obs j \<longleftrightarrow> i = j" "sd_obs i = sd_obs j \<longleftrightarrow> i = j" "sd_lst i = sd_lst j \<longleftrightarrow> i = j"
  "srv_lst i = srv_lst j \<longleftrightarrow> i = j"
  by (simp_all add: link_names)

lemma link_names_neq [simp]:
  "sc_obs i \<noteq> sd_obs j" "sd_obs j \<noteq> sc_obs i" "sd_lst i \<noteq> srv_lst j" "srv_lst j \<noteq> sd_lst i"
  unfolding link_names by presburger+

text \<open>
  \<^verbatim>\<open>notify_bytestream_opened\<close> and \<^verbatim>\<open>notify_bytestream_closed\<close>, and \<^verbatim>\<open>notify_stream_opened\<close> and
  \<^verbatim>\<open>notify_stream_closed\<close>: the call on the listener, if there is one. Unlike \<open>notify\<close> they take no
  lock.
\<close>

definition notify_bytestream :: "'r \<Rightarrow> (lst \<Rightarrow> 'r) \<Rightarrow> obs \<Rightarrow> links \<Rightarrow> 'r" where
  "notify_bytestream unchanged call ob ls =
     (case get_listener ob ls of None \<Rightarrow> unchanged | Some l \<Rightarrow> call l)"

definition notify_stream :: "'r \<Rightarrow> (lst \<Rightarrow> 'r) \<Rightarrow> obs \<Rightarrow> links \<Rightarrow> 'r" where
  "notify_stream unchanged call ob ls =
     (case get_listener ob ls of None \<Rightarrow> unchanged | Some l \<Rightarrow> call l)"

text \<open>\<^verbatim>\<open>node_sync::stream_opened\<close> only prints.\<close>

definition node_stream_opened :: "'t sync \<Rightarrow> 't sync" where
  "node_stream_opened s = s"

definition bytestream_opened :: "nat \<Rightarrow> links \<Rightarrow> 't sync \<Rightarrow> 't sync" where
  "bytestream_opened i ls s = notify_stream s (\<lambda>_. node_stream_opened s) (sd_obs i) ls"

definition bytestream_closed ::
  "('t, 'qs, 'qb) tree_api \<Rightarrow> nat \<Rightarrow> links \<Rightarrow> 't sync \<Rightarrow> (fault + 't sync) option" where
  "bytestream_closed T i ls s =
     notify_stream (Some (Inr s)) (\<lambda>_. stream_closed T base_get_root s) (sd_obs i) ls"

section \<open>conn_server::client\<close>

record 't server_conn =
  cl_socket :: socket_client
  cl_codec :: codec
  cl_dispatcher :: dispatcher
  cl_server :: "'t sync"

text \<open>The constructor \<^verbatim>\<open>server(package_stream_base *d)\<close>.\<close>

definition server_construct :: "nat \<Rightarrow> 't \<Rightarrow> links \<Rightarrow> fault + ('t sync \<times> links)" where
  "server_construct i t ls =
     (let s = set_device True (set_device True (sync_new i True t))
      in andThen (set_listener (sd_obs i) (Some (srv_lst i)) ls) (\<lambda>ls. Inr (s, ls)))"

text \<open>
  The constructor of \<^verbatim>\<open>client\<close>: its members in the order of their declaration, then its body. \<open>sh\<close>
  puts the nodes of the process into the new server; \<open>is_open\<close> says whether the socket is, and \<open>oc\<close>
  what will become of the writes to it.
\<close>

definition client_construct ::
  "bool \<Rightarrow> nat \<Rightarrow> node_ref option \<Rightarrow> nat option list \<Rightarrow> 't \<Rightarrow> ('t sync \<Rightarrow> 't sync) \<Rightarrow> links
     \<Rightarrow> fault + ('t server_conn \<times> links)" where
  "client_construct is_open i root oc t sh ls =
     (let ls = observable_construct (sc_obs i) ls;
          ls = observable_construct (sd_obs i) ls
      in andThen (set_listener (sc_obs i) (Some (sd_lst i)) ls) (\<lambda>ls.
         andThen (server_construct i t ls) (\<lambda>(srv, ls).
         andThen (server_set_root root (sh srv)) (\<lambda>srv.
         andThen (set_listener (sd_obs i) (Some (srv_lst i)) ls) (\<lambda>ls.
         andThen (set_socket is_open (socket_client_new oc)) (\<lambda>(sc, _).
           let srv = notify_bytestream srv (\<lambda>_. bytestream_opened i ls srv) (sc_obs i) ls
           in Inr (\<lparr>cl_socket = sc, cl_codec = set_transport codec_new,
                    cl_dispatcher = dispatcher_new, cl_server = srv\<rparr>, ls)))))))"

text \<open>
  The destructor: the members in the opposite order. For the server it is \<^verbatim>\<open>~node_sync\<close>, which joins the
  thread, and then the base class \<^verbatim>\<open>listener\<close>; for the dispatcher its two base classes; \<open>s\<close> is the server.
\<close>

definition client_destroy ::
  "('qs, 'qb) qt_api \<Rightarrow> ('t, 'qs, 'qb) tree_api \<Rightarrow> nat \<Rightarrow> 't sync \<Rightarrow> links
     \<Rightarrow> (fault + ('t sync \<times> links)) option" where
  "client_destroy q T i s ls =
     map_option (\<lambda>r. andThen r (\<lambda>s.
         andThen (listener_destroy (srv_lst i) ls) (\<lambda>ls.
         andThen (listener_destroy (sd_lst i) ls) (\<lambda>ls.
         andThen (observable_destroy (sd_obs i) ls) (\<lambda>ls.
         andThen (observable_destroy (sc_obs i) ls) (\<lambda>ls. Inr (s, ls)))))))
       (sync_join q T s)"

section \<open>acceptor and conn_server\<close>

text \<open>\<^verbatim>\<open>object_status\<close>, a flag that outlives the object it tells about.\<close>

record object_status =
  ok_flag :: bool

definition set_ok :: "bool \<Rightarrow> object_status \<Rightarrow> object_status" where [simp]:
  "set_ok b st = st\<lparr>ok_flag := b\<rparr>"

definition is_ok :: "object_status \<Rightarrow> bool" where [simp]:
  "is_ok st = ok_flag st"

definition object_status_new :: object_status where
  "object_status_new = \<lparr>ok_flag = True\<rparr>"

text \<open>The acceptor as an observable, and the \<^verbatim>\<open>conn_server\<close> as a listener, in links of their own.\<close>

definition acc_obs :: obs where "acc_obs = 0"
definition conn_lst :: lst where "conn_lst = 0"

text \<open>
  \<open>acc_status\<close> is the acceptor's \<^verbatim>\<open>object_status\<close> and \<open>cs_state\<close> that of the \<^verbatim>\<open>conn_server\<close>, which nothing
  reads; \<open>accepting\<close> has the sockets with an \<^verbatim>\<open>async_accept\<close> under way.
\<close>

record 't conn_server =
  sh_tree :: 't
  sh_proxies :: "nat \<Rightarrow> proxy option"
  sh_next_proxy :: nat
  cs_root :: "node_ref option"
  cs_links :: links
  cs_clients :: "(nat \<times> 't server_conn) list"
  acc_links :: links
  acc_status :: object_status
  cs_state :: object_status
  accepting :: "nat list"
  next_socket :: nat

abbreviation status_ok :: "'t conn_server \<Rightarrow> bool" where
  "status_ok cs \<equiv> is_ok (acc_status cs)"

definition with_shared :: "'t conn_server \<Rightarrow> 't sync \<Rightarrow> 't sync" where
  "with_shared cs s = s\<lparr>tree := sh_tree cs, proxies := sh_proxies cs, next_proxy := sh_next_proxy cs\<rparr>"

definition store_shared :: "'t sync \<Rightarrow> 't conn_server \<Rightarrow> 't conn_server" where
  "store_shared s cs = cs\<lparr>sh_tree := tree s, sh_proxies := proxies s, sh_next_proxy := next_proxy s\<rparr>"

definition conn_server_new :: "node_ref option \<Rightarrow> 't sync \<Rightarrow> 't conn_server" where
  "conn_server_new root s = \<lparr>sh_tree = tree s, sh_proxies = proxies s, sh_next_proxy = next_proxy s,
     cs_root = root, cs_links = links_new, cs_clients = [], acc_links = links_new,
     acc_status = object_status_new, cs_state = object_status_new, accepting = [], next_socket = 0\<rparr>"

text \<open>\<^verbatim>\<open>acc.set_listener(&srv)\<close>, by the program that makes both.\<close>

definition listen_to_acceptor :: "'t conn_server \<Rightarrow> fault + 't conn_server" where
  "listen_to_acceptor cs =
     andThen (set_listener acc_obs (Some conn_lst) (acc_links cs)) (\<lambda>ls. Inr (cs\<lparr>acc_links := ls\<rparr>))"

definition accept :: "'t conn_server \<Rightarrow> 't conn_server" where
  "accept cs = cs\<lparr>accepting := accepting cs @ [next_socket cs], next_socket := Suc (next_socket cs)\<rparr>"

text \<open>\<^verbatim>\<open>conn_server::process_notification\<close>.\<close>

definition conn_server_notification ::
  "nat option list \<Rightarrow> bool \<Rightarrow> nat \<Rightarrow> 't conn_server \<Rightarrow> fault + 't conn_server" where
  "conn_server_notification oc is_open i cs =
     andThen (client_construct is_open i (cs_root cs) oc (sh_tree cs) (with_shared cs) (cs_links cs)) (\<lambda>(cl, ls).
       Inr (cs\<lparr>cs_clients := map_put i cl (cs_clients cs), cs_links := ls\<rparr>))"

text \<open>\<^verbatim>\<open>notify(s)\<close> of the acceptor, which holds its mutex during the call.\<close>

definition acceptor_notify ::
  "nat option list \<Rightarrow> bool \<Rightarrow> nat \<Rightarrow> 't conn_server \<Rightarrow> fault + 't conn_server" where
  "acceptor_notify oc is_open i cs =
     andThen (lock_obs acc_obs (acc_links cs)) (\<lambda>ls.
     andThen (case listener_of ls acc_obs of
                None \<Rightarrow> Inr (cs\<lparr>acc_links := ls\<rparr>)
              | Some _ \<Rightarrow> conn_server_notification oc is_open i (cs\<lparr>acc_links := ls\<rparr>)) (\<lambda>cs.
       Inr (cs\<lparr>acc_links := unlock_obs acc_obs (acc_links cs)\<rparr>)))"

text \<open>
  \<^verbatim>\<open>acceptor::connect_handler\<close> for socket \<open>i\<close>. Its error argument is unnamed and never looked at: the
  socket is open if the accept has succeeded.
\<close>

definition accept_handler ::
  "nat option list \<Rightarrow> bool \<Rightarrow> nat \<Rightarrow> 't conn_server \<Rightarrow> fault + 't conn_server" where
  "accept_handler oc success i cs =
     (if \<not> status_ok cs then Inr cs else acceptor_notify oc success i (accept cs))"

text \<open>\<^verbatim>\<open>~acceptor\<close>, then its base class.\<close>

definition acceptor_destroy :: "'t conn_server \<Rightarrow> fault + 't conn_server" where
  "acceptor_destroy cs =
     (let cs = cs\<lparr>acc_status := set_ok False (acc_status cs)\<rparr>
      in andThen (observable_destroy acc_obs (acc_links cs)) (\<lambda>ls. Inr (cs\<lparr>acc_links := ls\<rparr>)))"

text \<open>
  \<^verbatim>\<open>socket_client::data_ready\<close> with an error, on connection \<open>i\<close>: a receive that completes for an object
  that has been destroyed runs on freed memory. Nothing ever takes a client out of the map.
\<close>

definition connection_lost ::
  "('t, 'qs, 'qb) tree_api \<Rightarrow> nat \<Rightarrow> 't conn_server \<Rightarrow> (fault + 't conn_server) option" where
  "connection_lost T i cs =
     (case map_of (cs_clients cs) i of
        None \<Rightarrow> Some (Inl Use_after_free)
      | Some cl \<Rightarrow>
          let (sc, _) = data_ready True [] (cl_socket cl); s = with_shared cs (cl_server cl)
          in map_option (\<lambda>r. andThen r (\<lambda>s.
               Inr (store_shared s (cs\<lparr>cs_clients := map_put i (cl\<lparr>cl_socket := sc, cl_server := s\<rparr>) (cs_clients cs)\<rparr>))))
             (notify_bytestream (Some (Inr s)) (\<lambda>_. bytestream_closed T i (cs_links cs) s)
                (sc_obs i) (cs_links cs)))"

text \<open>\<^verbatim>\<open>conn_server::~conn_server\<close> with \<^verbatim>\<open>clients.clear()\<close>, then its base class.\<close>

fun clients_clear ::
  "('qs, 'qb) qt_api \<Rightarrow> ('t, 'qs, 'qb) tree_api \<Rightarrow> (nat \<times> 't server_conn) list \<Rightarrow> 't conn_server
     \<Rightarrow> (fault + 't conn_server) option" where
  "clients_clear q T [] cs = Some (Inr cs)"
| "clients_clear q T ((i, cl) # cls) cs =
     (case client_destroy q T i (with_shared cs (cl_server cl)) (cs_links cs) of
        None \<Rightarrow> None
      | Some (Inl e) \<Rightarrow> Some (Inl e)
      | Some (Inr (s, ls)) \<Rightarrow> clients_clear q T cls (store_shared s (cs\<lparr>cs_links := ls\<rparr>)))"

definition conn_server_destroy ::
  "('qs, 'qb) qt_api \<Rightarrow> ('t, 'qs, 'qb) tree_api \<Rightarrow> 't conn_server \<Rightarrow> (fault + 't conn_server) option" where
  "conn_server_destroy q T cs =
     (let cs = cs\<lparr>cs_state := set_ok False (cs_state cs)\<rparr>
      in map_option (\<lambda>r. andThen r (\<lambda>cs.
           andThen (listener_destroy conn_lst (acc_links cs)) (\<lambda>als.
             Inr (cs\<lparr>cs_clients := [], acc_links := als\<rparr>))))
         (clients_clear q T (cs_clients cs) cs))"

section \<open>What happens in any order\<close>

text \<open>
  An accept completes, with success or not, a connection breaks, a queued packet of a connection is handled, the acceptor
  goes away.
\<close>

inductive cs_step :: "('qs, 'qb) qt_api \<Rightarrow> ('t, 'qs, 'qb) tree_api \<Rightarrow> 't conn_server \<Rightarrow> 't conn_server \<Rightarrow> bool"
  for q T where
  accepted: "i \<in> set (accepting cs)
    \<Longrightarrow> accept_handler oc success i (cs\<lparr>accepting := remove1 i (accepting cs)\<rparr>) = Inr cs' \<Longrightarrow> cs_step q T cs cs'"
| lost: "connection_lost T i cs = Some (Inr cs') \<Longrightarrow> cs_step q T cs cs'"
| handled: "map_of (cs_clients cs) i = Some cl
    \<Longrightarrow> process_package q T a p (with_shared cs (cl_server cl)) = Inr s
    \<Longrightarrow> cs_step q T cs (store_shared s (cs\<lparr>cs_clients := map_put i (cl\<lparr>cl_server := s\<rparr>) (cs_clients cs)\<rparr>))"
| stopped: "acceptor_destroy cs = Inr cs' \<Longrightarrow> cs_step q T cs cs'"

inductive cs_reach :: "('qs, 'qb) qt_api \<Rightarrow> ('t, 'qs, 'qb) tree_api \<Rightarrow> 't conn_server \<Rightarrow> 't conn_server \<Rightarrow> bool"
  for q T cs0 where
  start: "listen_to_acceptor cs0 = Inr cs \<Longrightarrow> cs_reach q T cs0 (accept cs)"
| step: "cs_reach q T cs0 cs \<Longrightarrow> cs_step q T cs cs' \<Longrightarrow> cs_reach q T cs0 cs'"

definition joined :: "links \<Rightarrow> nat \<Rightarrow> bool" where
  "joined ls i \<longleftrightarrow> listener_of ls (sc_obs i) = Some (sd_lst i) \<and> listener_of ls (sd_obs i) = Some (srv_lst i)"

text \<open>The links are those of the clients, and no others.\<close>

definition links_ok :: "links \<Rightarrow> nat set \<Rightarrow> bool" where
  "links_ok ls I \<longleftrightarrow> linked ls \<and> unlocked ls \<and> (\<forall>i \<in> I. joined ls i)
     \<and> (\<forall>ob. listener_of ls ob \<noteq> None \<longrightarrow> (\<exists>i \<in> I. ob = sc_obs i \<or> ob = sd_obs i))"

definition acc_joined :: links where
  "acc_joined = \<lparr>listener_of = [acc_obs \<mapsto> conn_lst], observable_of = [conn_lst \<mapsto> acc_obs],
     obs_held = [], lst_held = []\<rparr>"

definition cs_ok :: "'t conn_server \<Rightarrow> bool" where
  "cs_ok cs \<longleftrightarrow> links_ok (cs_links cs) (fst ` set (cs_clients cs)) \<and> sorted_map (cs_clients cs)
     \<and> (\<forall>i \<in> set (accepting cs). i < next_socket cs \<and> i \<notin> fst ` set (cs_clients cs))
     \<and> (\<forall>i \<in> fst ` set (cs_clients cs). i < next_socket cs)
     \<and> (status_ok cs \<longrightarrow> length (accepting cs) = 1 \<and> next_socket cs = Suc (length (cs_clients cs)))
     \<and> (acc_links cs = acc_joined \<or> acc_links cs = links_new \<and> \<not> status_ok cs)"

text \<open>The link between acceptor and \<^verbatim>\<open>conn_server\<close>: made, used, and taken apart from either end.\<close>

lemma acc_link_simps:
  "set_listener acc_obs (Some conn_lst) links_new = Inr acc_joined"
  "lock_obs acc_obs acc_joined = Inr (acc_joined\<lparr>obs_held := [acc_obs]\<rparr>)"
  "listener_of acc_joined acc_obs = Some conn_lst"
  "unlock_obs acc_obs (acc_joined\<lparr>obs_held := [acc_obs]\<rparr>) = acc_joined"
  "observable_destroy acc_obs acc_joined = Inr links_new"
  "observable_destroy acc_obs links_new = Inr links_new"
  "listener_destroy conn_lst acc_joined = Inr links_new"
  "listener_destroy conn_lst links_new = Inr links_new"
  by (simp_all add: acc_joined_def links_new_def set_listener_def set_observable_def lock_obs_def lock_lst_def
      unlock_obs_def unlock_lst_def observable_destroy_def listener_destroy_def remove_observable_def
      remove_listener_def observable_construct_def acc_obs_def conn_lst_def fun_eq_iff Let_def)

lemma listener_of_link_update:
  "listener_of (link_update ob (Some l) s) x =
     (if x = ob then Some l else if listener_of s x = Some l then None else listener_of s x)"
  by (simp add: link_update_def)

lemma link_update_join:
  assumes "links_ok ls I" and "i \<notin> I"
  shows "links_ok (link_update (sd_obs i) (Some (srv_lst i)) (link_update (sd_obs i) (Some (srv_lst i))
    (link_update (sc_obs i) (Some (sd_lst i)) ls))) (insert i I)" (is "links_ok ?ls _")
proof -
  have old: "joined ls j" and ne: "j \<noteq> i" if "j \<in> I" for j
    using assms that by (auto simp: links_ok_def)
  have "linked ?ls" "unlocked ?ls"
    using assms(1) by (simp_all add: links_ok_def linked_link_update unlocked_link_update)
  moreover have "joined ?ls j" if "j \<in> insert i I" for j
  proof (cases "j = i")
    case True
    then show ?thesis by (simp add: joined_def listener_of_link_update)
  next
    case False
    with that old show ?thesis by (auto simp: joined_def listener_of_link_update)
  qed
  moreover have "\<exists>j \<in> insert i I. ob = sc_obs j \<or> ob = sd_obs j" if "listener_of ?ls ob \<noteq> None" for ob
  proof (cases "ob = sc_obs i \<or> ob = sd_obs i")
    case False
    then have "listener_of ls ob \<noteq> None"
      using that by (auto simp: listener_of_link_update split: if_splits)
    then show ?thesis using assms(1) by (auto simp: links_ok_def)
  qed blast
  ultimately show ?thesis by (simp add: links_ok_def)
qed

lemma observable_construct_fresh:
  "listener_of ls ob = None \<Longrightarrow> observable_construct ob ls = ls"
  by (cases ls) (auto simp: observable_construct_def fun_eq_iff)

lemma links_ok_fresh:
  assumes "links_ok ls I" and "i \<notin> I"
  shows "listener_of ls (sc_obs i) = None" and "listener_of ls (sd_obs i) = None"
proof -
  have "listener_of ls ob = None" if "\<And>j. j \<in> I \<Longrightarrow> ob \<noteq> sc_obs j \<and> ob \<noteq> sd_obs j" for ob
    using assms(1) that unfolding links_ok_def by blast
  then show "listener_of ls (sc_obs i) = None" "listener_of ls (sd_obs i) = None"
    using assms(2) by (metis link_names_inj(1,2) link_names_neq(1,2))+
qed

lemma notify_unchanged [simp]:
  "notify_bytestream x (\<lambda>_. x) ob ls = x" "notify_stream x (\<lambda>_. x) ob ls = x"
  by (simp_all add: notify_bytestream_def notify_stream_def split: option.split)

lemma bytestream_opened_id [simp]: "bytestream_opened i ls s = s"
  by (simp add: bytestream_opened_def node_stream_opened_def)

lemma client_construct_ok:
  assumes "links_ok ls I" and "i \<notin> I"
  shows "client_construct False i (Some r) oc t (with_shared cs) ls = Inl Uncaught_exception
     \<and> (\<exists>cl ls'. client_construct True i (Some r) oc t (with_shared cs) ls = Inr (cl, ls')
     \<and> links_ok ls' (insert i I)
     \<and> cl_socket cl = (socket_client_new oc)\<lparr>is_connected := True\<rparr>
     \<and> cl_codec cl = set_transport codec_new \<and> cl_dispatcher cl = dispatcher_new
     \<and> cl_server cl = (with_shared cs (sync_new i True t))
          \<lparr>has_dev := True, root_node := Some r, tracked := [(0, Some r)], current_nid := 1\<rparr>)"
proof -
  note fresh = links_ok_fresh [OF assms]
  have lu: "linked ls" "unlocked ls" using assms(1) by (simp_all add: links_ok_def)
  show ?thesis
    using link_update_join [OF assms]
    by (simp add: client_construct_def server_construct_def observable_construct_fresh fresh Let_def
        set_listener_link_update linked_link_update unlocked_link_update lu server_set_root_def sync_set_root_def
        do_track_def do_track_as_def generate_nid_def with_shared_def sync_new_def set_device_def
        set_socket_def)
qed

lemma accept_handler_ok:
  assumes "cs_ok cs" and "i \<in> set (accepting cs)" and "status_ok cs" and "cs_root cs = Some r"
  shows "accept_handler oc False i (cs\<lparr>accepting := remove1 i (accepting cs)\<rparr>) = Inl Uncaught_exception
     \<and> (\<exists>cs' cl. accept_handler oc True i (cs\<lparr>accepting := remove1 i (accepting cs)\<rparr>) = Inr cs'
     \<and> cs_clients cs' = map_put i cl (cs_clients cs)
     \<and> cl_socket cl = (socket_client_new oc)\<lparr>is_connected := True\<rparr>
     \<and> cl_codec cl = set_transport codec_new \<and> cl_dispatcher cl = dispatcher_new
     \<and> cl_server cl = (with_shared cs (sync_new i True (sh_tree cs)))
          \<lparr>has_dev := True, root_node := Some r, tracked := [(0, Some r)], current_nid := 1\<rparr>
     \<and> cs_ok cs' \<and> cs_root cs' = cs_root cs \<and> status_ok cs' \<and> with_shared cs' = with_shared cs)"
proof -
  let ?cs = "(accept (cs\<lparr>accepting := remove1 i (accepting cs)\<rparr>))\<lparr>acc_links := acc_joined\<lparr>obs_held := [acc_obs]\<rparr>\<rparr>"
  have fresh: "i \<notin> fst ` set (cs_clients cs)" and lo: "links_ok (cs_links cs) (fst ` set (cs_clients cs))"
    and acc: "accepting cs = [i]" and lt: "i < next_socket cs" and al: "acc_links cs = acc_joined"
    using assms(1-3) by (auto simp: cs_ok_def length_Suc_conv)
  from client_construct_ok [OF lo fresh, of r oc "sh_tree cs" ?cs] obtain cl ls' where
    cc: "client_construct True i (Some r) oc (sh_tree cs) (with_shared ?cs) (cs_links cs) = Inr (cl, ls')"
    and no: "client_construct False i (Some r) oc (sh_tree cs) (with_shared ?cs) (cs_links cs) = Inl Uncaught_exception"
    and ok: "links_ok ls' (insert i (fst ` set (cs_clients cs)))"
    and cl: "cl_socket cl = (socket_client_new oc)\<lparr>is_connected := True\<rparr>"
      "cl_codec cl = set_transport codec_new" "cl_dispatcher cl = dispatcher_new"
      "cl_server cl = (with_shared ?cs (sync_new i True (sh_tree cs)))
          \<lparr>has_dev := True, root_node := Some r, tracked := [(0, Some r)], current_nid := 1\<rparr>"
    by blast
  let ?cs' = "?cs\<lparr>cs_clients := map_put i cl (cs_clients cs), cs_links := ls', acc_links := acc_joined\<rparr>"
  have "map_of (cs_clients cs) i = None" using fresh by (simp add: map_of_eq_None_iff)
  then have "cs_ok ?cs'"
    using assms(1,3) ok acc lt fresh
    by (auto simp: cs_ok_def accept_def set_map_put sorted_map_put length_map_put_new)
  moreover have "accept_handler oc True i (cs\<lparr>accepting := remove1 i (accepting cs)\<rparr>) = Inr ?cs'"
    and "accept_handler oc False i (cs\<lparr>accepting := remove1 i (accepting cs)\<rparr>) = Inl Uncaught_exception"
    using assms(3,4) cc no al
    by (simp_all add: accept_handler_def acceptor_notify_def acc_link_simps conn_server_notification_def accept_def)
  ultimately show ?thesis using cl assms(3,4) by (auto simp: accept_def with_shared_def fun_eq_iff)
qed

lemma acceptor_destroy_ok:
  assumes "cs_ok cs"
  shows "acceptor_destroy cs = Inr (cs\<lparr>acc_status := \<lparr>ok_flag = False\<rparr>, acc_links := links_new\<rparr>)"
proof -
  have "acc_links cs = acc_joined \<or> acc_links cs = links_new" using assms by (auto simp: cs_ok_def)
  then show ?thesis by (cases "acc_status cs") (auto simp: acceptor_destroy_def acc_link_simps)
qed

text \<open>Replacing a client by a later state of itself.\<close>

lemma cs_ok_replace:
  assumes "cs_ok cs" and "map_of (cs_clients cs) i = Some cl"
  shows "cs_ok (store_shared s (cs\<lparr>cs_clients := map_put i cl' (cs_clients cs)\<rparr>))"
proof -
  have "insert i (fst ` set (cs_clients cs)) = fst ` set (cs_clients cs)"
    using assms(2) by (force dest: map_of_SomeD)
  then show ?thesis
    using assms(1) length_map_put_old [OF _ assms(2)]
    by (auto simp: cs_ok_def store_shared_def set_map_put sorted_map_put)
qed

lemma cs_step_ok:
  assumes "cs_step q T cs cs'" and "cs_ok cs" and "cs_root cs = Some r"
  shows "cs_ok cs' \<and> cs_root cs' = Some r"
  using assms(1)
proof cases
  case (accepted i oc success)
  show ?thesis
  proof (cases "status_ok cs")
    case True
    with accept_handler_ok [OF assms(2) accepted(1) True assms(3), of oc] accepted(2) assms(3)
    show ?thesis by (cases success) auto
  next
    case False
    with accepted(2) have "cs' = cs\<lparr>accepting := remove1 i (accepting cs)\<rparr>"
      by (simp add: accept_handler_def)
    moreover have "set (remove1 i (accepting cs)) \<subseteq> set (accepting cs)" by (rule set_remove1_subset)
    ultimately show ?thesis using False assms(2,3) by (simp add: cs_ok_def subset_eq)
  qed
next
  case (lost i)
  then obtain cl where "map_of (cs_clients cs) i = Some cl"
    by (auto simp: connection_lost_def split: option.splits)
  from cs_ok_replace [OF assms(2) this] lost assms(3) show ?thesis
    by (auto simp: connection_lost_def Let_def store_shared_def andThen_eq_Inr split: option.splits prod.splits)
next
  case (handled i cl a p s)
  with cs_ok_replace [OF assms(2) handled(2)] assms(3) show ?thesis
    by (simp add: store_shared_def)
next
  case stopped
  then have "cs' = cs\<lparr>acc_status := \<lparr>ok_flag = False\<rparr>, acc_links := links_new\<rparr>"
    using acceptor_destroy_ok [OF assms(2)] by simp
  with assms(2,3) show ?thesis by (simp add: cs_ok_def)
qed

lemma cs_ok_start:
  assumes "listen_to_acceptor (conn_server_new r s) = Inr cs"
  shows "cs_ok (accept cs) \<and> cs_root (accept cs) = r"
proof -
  have cs: "cs = (conn_server_new r s)\<lparr>acc_links := acc_joined\<rparr>"
    using assms by (simp add: listen_to_acceptor_def conn_server_new_def acc_link_simps)
  have "links_ok links_new {}" by (simp add: links_ok_def linked_def unlocked_def links_new_def)
  then show ?thesis by (simp add: cs cs_ok_def accept_def conn_server_new_def object_status_new_def)
qed

lemma listens: "listen_to_acceptor (conn_server_new r s) = Inr ((conn_server_new r s)\<lparr>acc_links := acc_joined\<rparr>)"
  by (simp add: listen_to_acceptor_def conn_server_new_def acc_link_simps)

lemma cs_reach_ok:
  "cs_reach q T (conn_server_new (Some r) s) cs \<Longrightarrow> cs_ok cs \<and> cs_root cs = Some r"
proof (induction rule: cs_reach.induct)
  case (start cs)
  then show ?case by (rule cs_ok_start)
next
  case (step cs cs')
  then show ?case by (blast dest: cs_step_ok)
qed

section \<open>Shutting down\<close>

lemma listener_destroy_links:
  assumes "linked ls" and "unlocked ls"
  obtains ls' where "listener_destroy l ls = Inr ls'" and "linked ls'" and "unlocked ls'"
    and "\<And>x. listener_of ls' x = (if listener_of ls x = Some l then None else listener_of ls x)"
  using link_step_linked [OF assms, of "Destroy_listener l"] listener_destroy_eq [OF assms, of l] that
  by auto

lemma observable_destroy_links:
  assumes "linked ls" and "unlocked ls"
  obtains ls' where "observable_destroy ob ls = Inr ls'" and "linked ls'" and "unlocked ls'"
    and "\<And>x. listener_of ls' x = (if x = ob then None else listener_of ls x)"
  using link_step_linked [OF assms, of "Destroy_observable ob"] observable_destroy_eq [OF assms, of ob] that
  by auto

lemma client_destroy_ok:
  assumes "links_ok ls (insert i I)" and "i \<notin> I"
  shows "\<exists>ls'. links_ok ls' I
    \<and> client_destroy q T i s ls
      = Some (Inr (s\<lparr>pkg_queue := \<lparr>elements = tl (elements (pkg_queue s) @ [None])\<rparr>\<rparr>, ls'))"
proof -
  have lu: "linked ls" "unlocked ls" using assms(1) by (simp_all add: links_ok_def)
  obtain a where a: "listener_destroy (srv_lst i) ls = Inr a" "linked a" "unlocked a"
    "\<And>x. listener_of a x = (if listener_of ls x = Some (srv_lst i) then None else listener_of ls x)"
    using lu by (rule listener_destroy_links) blast
  obtain b where b: "listener_destroy (sd_lst i) a = Inr b" "linked b" "unlocked b"
    "\<And>x. listener_of b x = (if listener_of a x = Some (sd_lst i) then None else listener_of a x)"
    using a(2,3) by (rule listener_destroy_links) blast
  obtain c where c: "observable_destroy (sd_obs i) b = Inr c" "linked c" "unlocked c"
    "\<And>x. listener_of c x = (if x = sd_obs i then None else listener_of b x)"
    using b(2,3) by (rule observable_destroy_links) blast
  obtain d where d: "observable_destroy (sc_obs i) c = Inr d" "linked d" "unlocked d"
    "\<And>x. listener_of d x = (if x = sc_obs i then None else listener_of c x)"
    using c(2,3) by (rule observable_destroy_links) blast
  have ne: "j \<noteq> i" and old: "joined ls j" if "j \<in> I" for j
    using assms that by (auto simp: links_ok_def)
  have "joined d j" if "j \<in> I" for j
    using old [OF that] ne [OF that] by (simp add: joined_def a(4) b(4) c(4) d(4))
  moreover have "\<exists>j \<in> I. ob = sc_obs j \<or> ob = sd_obs j" if "listener_of d ob \<noteq> None" for ob
  proof -
    have "listener_of ls ob \<noteq> None" "ob \<noteq> sc_obs i" "ob \<noteq> sd_obs i"
      using that by (auto simp: a(4) b(4) c(4) d(4) split: if_splits)
    then show ?thesis using assms(1) by (auto simp: links_ok_def)
  qed
  ultimately show ?thesis
    using a(1) b(1) c(1) d by (intro exI [of _ d]) (simp add: client_destroy_def links_ok_def sync_join_ends)
qed

lemma clients_clear_ok:
  assumes "links_ok (cs_links cs) (fst ` set cls)" and "distinct (map fst cls)"
  shows "\<exists>ls. clients_clear q T cls cs = Some (Inr (cs\<lparr>cs_links := ls\<rparr>)) \<and> links_ok ls {}"
  using assms
proof (induction cls arbitrary: cs)
  case Nil
  then show ?case by (simp add: exI [of _ "cs_links cs"])
next
  case (Cons e cls)
  obtain i cl where e: "e = (i, cl)" by (cases e)
  let ?s = "with_shared cs (cl_server cl)"
  let ?s' = "?s\<lparr>pkg_queue := \<lparr>elements = tl (elements (pkg_queue ?s) @ [None])\<rparr>\<rparr>"
  have "links_ok (cs_links cs) (insert i (fst ` set cls))" "i \<notin> fst ` set cls"
    using Cons.prems e by simp_all
  from client_destroy_ok [OF this, of q T ?s] obtain ls where
    d: "client_destroy q T i ?s (cs_links cs) = Some (Inr (?s', ls))" and "links_ok ls (fst ` set cls)" by blast
  moreover have "store_shared ?s' (cs\<lparr>cs_links := ls\<rparr>) = cs\<lparr>cs_links := ls\<rparr>"
    by (simp add: store_shared_def with_shared_def)
  ultimately show ?case using Cons.IH [of "cs\<lparr>cs_links := ls\<rparr>"] Cons.prems(2) e by auto
qed

section \<open>Properties\<close>

text \<open>A server with two nodes, listening.\<close>

definition listening :: "(byte list, byte list) sample conn_server" where
  "listening = accept ((conn_server_new (Some (App 0)) sample_server)\<lparr>acc_links := acc_joined\<rparr>)"

lemma listening_reach: "cs_reach plain_qt samples (conn_server_new (Some (App 0)) sample_server) listening"
  unfolding listening_def by (rule cs_reach.start [OF listens])

lemma listening_facts: "ok_flag (acc_status listening)" "accepting listening = [0]"
  by (simp_all add: listening_def accept_def conn_server_new_def object_status_new_def)



text \<open>
  In any order of accepts, lost connections and handled packets there is exactly one accept under
  way while the acceptor lives, each client is linked to its dispatcher and the dispatcher to its
  byte stream, no mutex stays locked - and every connection ever accepted still has its client,
  the closed ones included: the map only grows.
\<close>

theorem clients_never_forgotten:
  assumes "cs_reach q T (conn_server_new (Some r) s0) cs"
  shows "(\<forall>i \<in> fst ` set (cs_clients cs). joined (cs_links cs) i) \<and> unlocked (cs_links cs)
     \<and> (status_ok cs \<longrightarrow> length (accepting cs) = 1 \<and> next_socket cs = Suc (length (cs_clients cs)))"
  using cs_reach_ok [OF assms] by (simp add: cs_ok_def links_ok_def)

theorem clients_never_forgotten_witness:
  "status_ok listening \<and> next_socket listening = Suc (length (cs_clients listening))"
  using clients_never_forgotten [OF listening_reach] by (simp add: listening_facts)

text \<open>
  One failed accept ends the server, whatever connections it has. While the acceptor lives, its handler
  ignores the error and goes on as if the accept had succeeded; the first operation on the socket
  that was never opened throws, in the thread of the event loop, where nothing catches it. After the
  acceptor has been destroyed the handler does nothing.
\<close>

theorem failed_accept_ends_server:
  assumes "cs_reach q T (conn_server_new (Some r) s0) cs" and "i \<in> set (accepting cs)"
  shows "accept_handler oc False i (cs\<lparr>accepting := remove1 i (accepting cs)\<rparr>)
     = (if status_ok cs then Inl Uncaught_exception else Inr (cs\<lparr>accepting := remove1 i (accepting cs)\<rparr>))"
proof (cases "status_ok cs")
  case True
  from cs_reach_ok [OF assms(1)] accept_handler_ok [OF _ assms(2) True, of r oc] True show ?thesis by simp
qed (simp add: accept_handler_def)

theorem failed_accept_ends_server_witness:
  "accept_handler [] False 0 (listening\<lparr>accepting := []\<rparr>) = Inl Uncaught_exception"
proof -
  have "0 \<in> set (accepting listening)" by (simp add: listening_facts)
  from failed_accept_ends_server [OF listening_reach this, of "[]"] show ?thesis
    by (simp add: listening_facts)
qed

text \<open>What the destructor of a \<^verbatim>\<open>conn_server\<close> leaves.\<close>

definition conn_server_ended :: "links \<Rightarrow> 't conn_server \<Rightarrow> 't conn_server" where
  "conn_server_ended ls cs =
     cs\<lparr>cs_state := set_ok False (cs_state cs), cs_clients := [], cs_links := ls, acc_links := links_new\<rparr>"

lemma conn_server_destroy_ok:
  assumes "cs_ok cs"
  obtains ls where "conn_server_destroy q T cs = Some (Inr (conn_server_ended ls cs))" and "links_ok ls {}"
proof -
  let ?cs = "cs\<lparr>cs_state := set_ok False (cs_state cs)\<rparr>"
  have "links_ok (cs_links ?cs) (fst ` set (cs_clients cs))" and "sorted_map (cs_clients cs)"
    using assms by (simp_all add: cs_ok_def)
  moreover from this have "distinct (map fst (cs_clients cs))" by (simp add: sorted_map_distinct)
  ultimately obtain ls where "clients_clear q T (cs_clients cs) ?cs = Some (Inr (?cs\<lparr>cs_links := ls\<rparr>))"
    and no: "links_ok ls {}" using clients_clear_ok by blast
  moreover have "listener_destroy conn_lst (acc_links cs) = Inr links_new"
    using assms by (auto simp: cs_ok_def acc_link_simps)
  ultimately have "conn_server_destroy q T cs = Some (Inr (conn_server_ended ls cs))"
    by (simp add: conn_server_destroy_def conn_server_ended_def)
  then show thesis using that no by blast
qed

text \<open>
  Destroying the \<^verbatim>\<open>conn_server\<close>, when the processing thread of each connection is between two packets:
  every thread is joined, and all links are taken apart without locking a mutex twice. But the
  receives of the connections are still under way in the event loop, and each of them completes on
  an object that is gone.
\<close>

theorem shutdown_leaves_receives:
  assumes "cs_reach q T (conn_server_new (Some r) s0) cs"
  shows "\<exists>cs'. conn_server_destroy q T cs = Some (Inr cs') \<and> unlocked (cs_links cs')
     \<and> (\<forall>ob. listener_of (cs_links cs') ob = None)
     \<and> (\<forall>i. connection_lost T i cs' = Some (Inl Use_after_free))"
proof -
  obtain ls where "conn_server_destroy q T cs = Some (Inr (conn_server_ended ls cs))" "links_ok ls {}"
    using conn_server_destroy_ok cs_reach_ok [OF assms] by blast
  then show ?thesis by (auto simp: conn_server_ended_def links_ok_def connection_lost_def)
qed

theorem shutdown_leaves_receives_witness:
  "\<exists>cs'. conn_server_destroy plain_qt samples listening = Some (Inr cs')
     \<and> connection_lost samples 0 cs' = Some (Inl Use_after_free)"
  using shutdown_leaves_receives [OF listening_reach] by blast

text \<open>
  C23: closing one connection breaks the others. The clean-up of the closed connection deletes its
  proxies, one after the other, and first of all the one with the lowest id. A node_sync of another
  connection that has given this one an id keeps the pointer: when its thread takes the next
  request for that id right after the deletion, the handler runs on a deleted node. The clean-up does so
  itself when it goes on, so that the loss of the connection ends in a fault.
\<close>

theorem closed_connection_breaks_others:
  fixes cs ci
  defines "s \<equiv> with_shared cs (cl_server ci)"
  assumes "cs_ok cs" and "map_of (cs_clients cs) i = Some ci"
    and "sync_ok s" and "owner_laws T" and "owners_alive T s"
    and "own s x c" and "root_node s \<noteq> Some (Proxy x)"
    and "\<forall>y d. own s y d \<and> root_node s \<noteq> Some (Proxy y) \<longrightarrow> cn_nid c \<le> cn_nid d"
    and "map_of (cs_clients cs) j = Some cj" and "i \<noteq> j"
    and "map_of (tracked (cl_server cj)) (get_nid p) = Some (Some (Proxy x))"
  shows "connection_lost T i cs = Some (Inl Use_after_free)
    \<and> (\<exists>n s1 s2. cleanup_iterate T base_get_root n s = Inr s1 \<and> tracked s1 \<noteq> []
         \<and> cleanup_entry T base_get_root s1 = Inr (Some (Proxy x), s2)
         \<and> cmd_at T a p (with_shared (store_shared s2 cs) (cl_server cj)) = Inl Use_after_free)"
proof
  have "root_known T base_get_root s" by (simp add: root_known_def)
  note state = assms(4-6) this
  have "i \<in> fst ` set (cs_clients cs)" using assms(3) by (force dest: map_of_SomeD)
  with assms(2) have l: "joined (cs_links cs) i" unfolding cs_ok_def links_ok_def by blast
  have "doomed s (Proxy x)" using assms(7,8) by (auto simp: doomed_own)
  with sync_ok_closed [OF state] have "stream_closed T base_get_root s = Some (Inl Use_after_free)" by metis
  with l show "connection_lost T i cs = Some (Inl Use_after_free)"
    by (simp add: connection_lost_def assms(3) data_ready_def notify_bytestream_def bytestream_closed_def
        notify_stream_def joined_def Let_def flip: s_def)
  obtain n s1 s2 where "cleanup_iterate T base_get_root n s = Inr s1" "tracked s1 \<noteq> []"
    "cleanup_entry T base_get_root s1 = Inr (Some (Proxy x), s2)" "proxies s2 = (proxies s)(x := None)"
    using doomed_reached [OF state assms(7,8)] assms(9) by metis
  moreover from this(4) have "cmd_at T a p (with_shared (store_shared s2 cs) (cl_server cj)) = Inl Use_after_free"
    using assms(12) by (simp add: cmd_at_def get_node_def with_shared_def store_shared_def alive_def)
  ultimately show "\<exists>n s1 s2. cleanup_iterate T base_get_root n s = Inr s1 \<and> tracked s1 \<noteq> []
         \<and> cleanup_entry T base_get_root s1 = Inr (Some (Proxy x), s2)
         \<and> cmd_at T a p (with_shared (store_shared s2 cs) (cl_server cj)) = Inl Use_after_free" by blast
qed

text \<open>
  Two connections: the peer of connection 1 has attached a property, and connection 2 has given its
  proxy the id 1.
\<close>

definition two_connections :: "(byte list, byte list) sample conn_server" where
  "two_connections =
     (let conn = \<lparr>cl_socket = (socket_client_new [])\<lparr>is_connected := True\<rparr>, cl_codec = set_transport codec_new,
                  cl_dispatcher = dispatcher_new, cl_server = sample_attached\<rparr>;
          join = (\<lambda>i ls. link_update (sd_obs i) (Some (srv_lst i)) (link_update (sd_obs i) (Some (srv_lst i))
                   (link_update (sc_obs i) (Some (sd_lst i)) ls)))
      in (conn_server_new (Some (App 0)) sample_attached)
          \<lparr>cs_links := join 2 (join 1 links_new),
           cs_clients := [(1, conn), (2, conn\<lparr>cl_server := sample_attached\<lparr>self := 2\<rparr>\<rparr>)],
           acc_links := links_new, acc_status := set_ok False object_status_new, next_socket := 3\<rparr>)"

lemma two_connections_ok: "cs_ok two_connections"
proof -
  have "links_ok links_new {}" by (simp add: links_ok_def linked_def unlocked_def links_new_def)
  from link_update_join [OF link_update_join [OF this, of 1], of 2] show ?thesis
    by (simp add: cs_ok_def two_connections_def conn_server_new_def sorted_map_def insert_commute Let_def)
qed

theorem closed_connection_breaks_others_witness:
  "\<exists>s1 s2 c2. connection_lost samples 1 two_connections = Some (Inl Use_after_free)
     \<and> map_of (cs_clients two_connections) 2 = Some c2
     \<and> cleanup_entry samples base_get_root s1 = Inr (Some (Proxy 0), s2)
     \<and> cmd_at samples 9 (mk_package 1 CMD_AT []) (with_shared (store_shared s2 two_connections) (cl_server c2))
         = Inl Use_after_free"
proof -
  obtain c1 c2 where c: "map_of (cs_clients two_connections) 1 = Some c1"
    "map_of (cs_clients two_connections) 2 = Some c2"
    "cl_server c1 = sample_attached" "cl_server c2 = sample_attached\<lparr>self := 2\<rparr>"
    by (simp add: two_connections_def Let_def)
  have sh: "with_shared two_connections (cl_server c1) = sample_attached"
    by (simp add: c with_shared_def two_connections_def conn_server_new_def sync_new_def Let_def)
  have t: "root_node sample_attached \<noteq> Some (Proxy 0)"
    "map_of (tracked (cl_server c2)) (get_nid (mk_package 1 CMD_AT [])) = Some (Some (Proxy 0))"
    by (simp_all add: c sample_attached_def adopt_def sample_server_def sync_new_def)
  have first: "\<forall>y d. own sample_attached y d \<and> root_node sample_attached \<noteq> Some (Proxy y)
      \<longrightarrow> cn_nid \<lparr>cn_nid = 1, cn_client = Some 1, cn_fake = fake_for type_int 1 1\<rparr> \<le> cn_nid d"
    by (auto simp: own_def sample_attached_def adopt_def sample_server_def sync_new_def split: if_splits)
  have "(1 :: nat) \<noteq> 2" by simp
  from closed_connection_breaks_others [OF two_connections_ok c(1), unfolded sh,
      OF sample_attached_ok sample_owner_laws sample_attached_owners sample_attached_own t(1) first c(2) this t(2)]
  show ?thesis using c(2) by blast
qed

end
