(* ===== verification/Session.thy ===== *)
theory Session
  imports Sync_Queue Sync_Cleanup
begin

text \<open>
  Two node_syncs as peers of one connection: each property takes a request one side makes, hands its packet
  to the packet handlers of the other side, and the reply, if there is one, back to the operation
  that waits for it. The lemmas compute the packets on the wire and what the reading side gets out of
  them. That the packets arrive whole, in order and at the right waiter is the subject of the lower
  layers (\<open>Package_Codec\<close>, \<open>Byte_Streams\<close>, \<open>Dispatcher\<close>).
\<close>

section \<open>Packets on the wire\<close>

lemma response_mk: "response n c = mk_package n c []"
  by (simp add: response_def package_new_mk)

lemma prop_request_mk: "prop_request n c = mk_package n c []"
  by (simp add: prop_request_def package_new_mk)

text \<open>A list of names: a count and the strings.\<close>

definition wire_names :: "string list \<Rightarrow> byte list" where
  "wire_names xs = concat (map wire_string xs)"

definition wire_list :: "string list \<Rightarrow> byte list" where
  "wire_list xs = bytes_u32 (of_nat (length xs)) @ wire_names xs"

lemma wire_names_simps [simp]:
  "wire_names [] = []" "wire_names (x # xs) = wire_string x @ wire_names xs"
  by (simp_all add: wire_names_def)

lemma length_wire_names: "4 * length xs \<le> length (wire_names xs)"
  by (induction xs) auto

lemma append_strings_mk:
  "fits_int (wire_names xs) \<Longrightarrow> append_strings xs (mk_package n c pl) = Inr (mk_package n c (pl @ wire_names xs))"
  by (induction xs arbitrary: pl) (auto simp: append_string_mk)

lemma read_names_at:
  assumes "fits_int (pre @ wire_names xs @ post)"
  shows "read_names (length xs) (mk_package n c (pre @ wire_names xs @ post)) (of_nat (length pre)) = Inr xs"
  using assms
proof (induction xs arbitrary: pre)
  case Nil
  then show ?case by simp
next
  case (Cons x xs)
  let ?p = "mk_package n c (pre @ wire_names (x # xs) @ post)"
  have "read_string ?p [] (of_nat (length pre)) = Inr (x, of_nat (length (pre @ wire_string x)))"
    using read_string_at [of pre x "wire_names xs @ post" n c "[]"] Cons.prems by simp
  moreover have "read_names (length xs) ?p (of_nat (length (pre @ wire_string x))) = Inr xs"
    using Cons.IH [of "pre @ wire_string x"] Cons.prems by simp
  ultimately show ?case by simp
qed

text \<open>
  What \<^verbatim>\<open>send\<close> does to packets (\<open>request_reply_roundtrip\<close>): the request arrives as the copy
  made for the parameter of \<^verbatim>\<open>send\<close>, the reply after the assignments to \<^verbatim>\<open>in\<close> and to the result.
  Both add zero bytes at the end; a payload has to leave room for them.
\<close>

definition received :: "package \<Rightarrow> package" where
  "received rep = package_assign package_new (package_assign package_new rep)"

lemma received_mk [simp]: "received (mk_package n c pl) = mk_package n c (pl @ replicate 18 0)"
proof -
  have "replicate 9 (0::byte) @ replicate 9 0 = replicate 18 0" by (simp flip: replicate_add)
  then show ?thesis by (simp add: received_def package_new_mk)
qed

abbreviation fits_wire :: "byte list \<Rightarrow> bool" where
  "fits_wire pl \<equiv> length pl + 18 < 2 ^ 31"

text \<open>A request, answered: the reply is the only thing the server sends.\<close>

definition answered ::
  "('qs, 'qb) qt_api \<Rightarrow> ('t, 'qs, 'qb) tree_api \<Rightarrow> addr \<Rightarrow> package \<Rightarrow> 't sync \<Rightarrow> package \<Rightarrow> 't sync \<Rightarrow> bool" where
  "answered q T a req S rep S' \<longleftrightarrow>
     process_package q T a (package_copy req) S = Inr S' \<and> dev_calls S' = dev_calls S @ [Reply_to a rep]"

text \<open>A request, asked: the state after \<^verbatim>\<open>dev->send\<close> with the answer at hand.\<close>

lemma dev_send_answer:
  "has_dev s \<Longrightarrow> dev_send req (s\<lparr>answers := [Some rep]\<rparr>)
     = Inr (rep, s\<lparr>answers := [], dev_calls := dev_calls s @ [Ask req]\<rparr>)"
  by (simp add: dev_send_def)

lemma dev_send_failure:
  "has_dev s \<Longrightarrow> dev_send req (s\<lparr>answers := [None]\<rparr>)
     = Inr (package_new, s\<lparr>answers := [], dev_calls := dev_calls s @ [Ask req]\<rparr>)"
  by (simp add: dev_send_def)

section \<open>Names of children\<close>

lemma cmd_ls_reply:
  assumes "get_node nid s = Some (App i)" and "has_dev s"
    and "fits_int (wire_list (t_ls T (tree s) (App i)))"
  shows "cmd_ls T a (mk_package nid CMD_LS post) s
    = Inr (s\<lparr>dev_calls := dev_calls s
        @ [Reply_to a (mk_package nid CMD_LS_SUCCESS (wire_list (t_ls T (tree s) (App i))))]\<rparr>)"
  using assms
  by (simp add: cmd_ls_def node_ls_def response_mk append_strings_mk wire_list_def dev_reply_def)

lemma sync_ls_reply:
  assumes "has_dev s" and "fits_int (wire_list names @ post)"
  shows "sync_ls nid (s\<lparr>answers := [Some (mk_package nid' CMD_LS_SUCCESS (wire_list names @ post))]\<rparr>)
    = Inr (names, s\<lparr>answers := [], dev_calls := dev_calls s @ [Ask (mk_package nid CMD_LS [])]\<rparr>)"
proof -
  let ?rep = "mk_package nid' CMD_LS_SUCCESS (wire_list names @ post)"
  have count: "read_u32 ?rep 0 = Inr (of_nat (length names))"
    using read_u32_at [of "[]" "of_nat (length names)" "wire_names names @ post" nid' CMD_LS_SUCCESS] assms(2)
    by (simp add: wire_list_def)
  have "length names < 2 ^ 32"
    using assms(2) length_wire_names [of names] by (simp add: wire_list_def)
  then have n: "unat (of_nat (length names) :: u32) = length names" by (rule unat_of_nat_u32)
  have "read_names (length names) ?rep 4 = Inr names"
    using read_names_at [of "bytes_u32 (of_nat (length names))" names post nid' CMD_LS_SUCCESS] assms(2)
    by (simp add: wire_list_def)
  with count n assms(1) show ?thesis
    by (simp add: sync_ls_def dev_send_answer response_mk [unfolded response_def])
qed

text \<open>
  \<^verbatim>\<open>ls\<close> across the connection gives the names of the children of the node, in the order of the
  tree they are in.
\<close>

theorem remote_ls:
  assumes "get_node nid S = Some (App i)" and "has_dev S" and "has_dev C"
    and "fits_wire (wire_list (t_ls TS (tree S) (App i)))"
  shows "\<exists>req rep S' C'. answered q TS a req S rep S'
    \<and> sync_ls nid (C\<lparr>answers := [Some (received rep)]\<rparr>) = Inr (t_ls TS (tree S) (App i), C')
    \<and> dev_calls C' = dev_calls C @ [Ask req]"
proof -
  let ?req = "mk_package nid CMD_LS []"
  let ?rep = "mk_package nid CMD_LS_SUCCESS (wire_list (t_ls TS (tree S) (App i)))"
  have "answered q TS a ?req S ?rep (S\<lparr>dev_calls := dev_calls S @ [Reply_to a ?rep]\<rparr>)"
    using cmd_ls_reply [OF assms(1,2), of TS] assms(4) by (simp add: answered_def process_package_def cmd_defs)
  moreover have "sync_ls nid (C\<lparr>answers := [Some (received ?rep)]\<rparr>) = Inr (t_ls TS (tree S) (App i),
      C\<lparr>answers := [], dev_calls := dev_calls C @ [Ask ?req]\<rparr>)"
    using sync_ls_reply [OF assms(3), of "t_ls TS (tree S) (App i)" "replicate 18 0" nid nid] assms(4) by simp
  ultimately show ?thesis by fastforce
qed

theorem remote_ls_witness:
  "\<exists>req rep S' C'. answered plain_qt samples 5 req sample_server rep S'
    \<and> sync_ls 0 ((sync_new 2 False no_nodes)\<lparr>has_dev := True, answers := [Some (received rep)]\<rparr>) = Inr ([''a'', ''b''], C')"
proof -
  have "t_ls samples (tree sample_server) (App 0) = [''a'', ''b'']" by (simp add: sample_state)
  moreover have "get_node 0 sample_server = Some (App 0)" "has_dev sample_server"
    by (simp_all add: get_node_def sample_server_def)
  ultimately show ?thesis
    using remote_ls [of 0 sample_server 0 "(sync_new 2 False no_nodes)\<lparr>has_dev := True\<rparr>" samples plain_qt 5]
    by (auto simp: wire_list_def)
qed

section \<open>Fetching a node\<close>

text \<open>The type name a node is announced with.\<close>

definition type_name :: "('t, 'qs, 'qb) tree_api \<Rightarrow> 't \<Rightarrow> node_ref \<Rightarrow> string" where
  "type_name T t n = (case t_prop T t n of None \<Rightarrow> [] | Some v \<Rightarrow> prop_type v)"

lemma read_string_only:
  assumes "fits_int (wire_string x @ post)"
  shows "read_string (mk_package n c (wire_string x @ post)) s0 0 = Inr (x, of_nat (4 + length x))"
  using read_string_at [of "[]" x post n c s0] assms by simp

lemma cmd_at_reply:
  assumes "get_node nid s = Some t" and "alive s t" and "fits_int (wire_string name @ post)"
    and "t_at T t name (tree s) = (Some n, tr)" and "alive s n"
    and "node_nid n (s\<lparr>tree := tr\<rparr>) = Inr (k, s1)" and "has_dev s1"
    and "fits_int (wire_string (type_name T tr n))"
  shows "cmd_at T a (mk_package nid CMD_AT (wire_string name @ post)) s
    = Inr (s1\<lparr>dev_calls := dev_calls s1
        @ [Reply_to a (mk_package k CMD_AT_SUCCESS (wire_string (type_name T tr n)))]\<rparr>)"
proof -
  have "alive (s\<lparr>tree := tr\<rparr>) n" using assms(5) alive_cong [of "s\<lparr>tree := tr\<rparr>" s n] by simp
  moreover have "tree s1 = tr" using node_nid_frame [OF assms(6)] by simp
  moreover have "append_string (type_name T tr n) (mk_package k CMD_AT_SUCCESS [])
      = Inr (mk_package k CMD_AT_SUCCESS (wire_string (type_name T tr n)))"
    using assms(8) append_string_mk [of "type_name T tr n" k CMD_AT_SUCCESS "[]"] by simp
  ultimately show ?thesis
    using assms
    by (simp add: cmd_at_def read_string_only response_mk dev_reply_def flip: type_name_def)
qed

lemma fetch_node_reply:
  assumes "has_dev s" and "fits_int name" and "fits_int (wire_string type @ post)" and "type \<in> known_types"
  shows "fetch_node T nid name (s\<lparr>answers := [Some (mk_package k CMD_AT_SUCCESS (wire_string type @ post))]\<rparr>)
    = Inr (Some (Proxy (next_proxy s)),
        adopt (born T type s) (fake_for type (self s) k) k
          (s\<lparr>answers := [], dev_calls := dev_calls s @ [Ask (mk_package nid CMD_AT (wire_string name))]\<rparr>))"
proof -
  let ?s = "s\<lparr>answers := [], dev_calls := dev_calls s @ [Ask (mk_package nid CMD_AT (wire_string name))]\<rparr>"
  obtain m s2 where gen: "generate T type ?s = (m, s2)" by (cases "generate T type ?s")
  with assms(4) generate_None obtain cl where cl: "m = Some cl" by (cases m) (auto simp: generate_None)
  have g: "cl = Proxy (next_proxy s)" "do_track_as (Some (Proxy (next_proxy s))) k
      (proxy_set_nid k (Proxy (next_proxy s)) s2) = adopt (born T type s) (fake_for type (self s) k) k ?s"
    using generate_adopt [OF gen [unfolded cl], of k] by auto
  have "proxy_set_client (Some (self (adopt (born T type ?s) (fake_for type (self ?s) k) k ?s)))
      (Proxy (next_proxy ?s)) (adopt (born T type ?s) (fake_for type (self ?s) k) k ?s)
      = adopt (born T type ?s) (fake_for type (self ?s) k) k ?s"
    using proxy_set_client_adopt [of ?s] by (simp add: adopt_def)
  then show ?thesis
    using assms gen cl g
    by (simp add: fetch_node_def package_new_mk append_string_mk dev_send_answer read_string_only
        cmd_defs Let_def)
qed

text \<open>The server's side: the child gets an id, and nothing is sent for that.\<close>

lemma server_names_child:
  assumes "server_ok S" and "has_dev S"
  obtains k S1 where "node_nid (App j) (S\<lparr>tree := tr\<rparr>) = Inr (k, S1)" and "dev_calls S1 = dev_calls S"
    and "has_dev S1" and "get_node k S1 = Some (App j)" and "tree S1 = tr"
proof -
  let ?S = "S\<lparr>tree := tr\<rparr>"
  have S: "is_server ?S" "sorted_map (tracked ?S)"
    using assms(1) by (simp_all add: server_ok_def sync_ok_def)
  show ?thesis
  proof (cases "find_key (Some (App j)) (tracked ?S)")
    case (Some k)
    with that [of k ?S] get_node_found [OF S(2) Some] assms(2) show ?thesis
      by (simp add: node_nid_known get_node_def)
  next
    case None
    have "get_node (current_nid S) (do_track_as (Some (App j)) (current_nid S)
        (?S\<lparr>current_nid := current_nid S + 1\<rparr>)) = Some (App j)"
      using smap.find_put [OF S(2)] by (simp add: do_track_as_def get_node_def)
    with that node_nid_server [OF S(1) None] assms(2) show ?thesis by (simp add: do_track_as_def)
  qed
qed

lemma server_answers_at:
  assumes "server_ok S" and "has_dev S" and "get_node nid S = Some (App i)"
    and "t_at TS (App i) name (tree S) = (Some (App j), tr)" and "fits_wire (wire_string name)"
    and "fits_wire (wire_string (type_name TS tr (App j)))"
  obtains k S' where "answered q TS a (mk_package nid CMD_AT (wire_string name)) S
      (mk_package k CMD_AT_SUCCESS (wire_string (type_name TS tr (App j)))) S'"
    and "get_node k S' = Some (App j)" and "tree S' = tr" and "has_dev S'"
proof -
  let ?type = "type_name TS tr (App j)"
  obtain k S1 where nid: "node_nid (App j) (S\<lparr>tree := tr\<rparr>) = Inr (k, S1)"
    and S1: "dev_calls S1 = dev_calls S" "has_dev S1" "get_node k S1 = Some (App j)" "tree S1 = tr"
    using server_names_child [OF assms(1,2)] .
  let ?rep = "mk_package k CMD_AT_SUCCESS (wire_string ?type)"
  let ?S' = "S1\<lparr>dev_calls := dev_calls S1 @ [Reply_to a ?rep]\<rparr>"
  have "alive S (App i)" "alive S (App j)" by (simp_all add: alive_def)
  then have "cmd_at TS a (package_copy (mk_package nid CMD_AT (wire_string name))) S = Inr ?S'"
    using cmd_at_reply [OF assms(3) _ _ assms(4) _ nid S1(2), where post = "replicate 9 0"] assms(5,6) by simp
  then have "answered q TS a (mk_package nid CMD_AT (wire_string name)) S ?rep ?S'"
    using S1 by (simp add: answered_def process_package_def cmd_defs)
  moreover have "get_node k ?S' = Some (App j)" using S1(3) by (simp add: get_node_def)
  ultimately show ?thesis using that S1(2,4) by simp
qed

text \<open>
  C1: fetching a child across the connection gives a proxy that stands for that child: both sides have it
  in their tables under the same id, the server's entry is the child itself, the client's is the new
  proxy, which knows its id and its connection and has the type of the child. It holds for the
  types a client can make a proxy of, which are all the types of properties but \<^verbatim>\<open>float\<close>, and the plain node.
\<close>

theorem remote_fetch:
  assumes "server_ok S" and "has_dev S"
    and "get_node nid S = Some (App i)" and "t_at TS (App i) name (tree S) = (Some (App j), tr)"
    and "fits_wire (wire_string name)" and "fits_wire (wire_string (type_name TS tr (App j)))"
    and "type_name TS tr (App j) \<in> known_types"
    and "has_dev C" and "sorted_map (tracked C)"
  shows "\<exists>req rep S' C' k cl. answered q TS a req S rep S'
    \<and> fetch_node TC nid name (C\<lparr>answers := [Some (received rep)]\<rparr>) = Inr (Some cl, C')
    \<and> get_node k S' = Some (App j) \<and> get_node k C' = Some cl
    \<and> proxy_of C' cl = Some \<lparr>cn_nid = k, cn_client = Some (self C),
          cn_fake = fake_for (type_name TS tr (App j)) (self C) k\<rparr>
    \<and> tree C' = t_new TC cl (type_name TS tr (App j)) (tree C)"
proof -
  let ?type = "type_name TS tr (App j)"
  let ?req = "mk_package nid CMD_AT (wire_string name)"
  obtain k S' where S': "answered q TS a ?req S (mk_package k CMD_AT_SUCCESS (wire_string ?type)) S'"
    "get_node k S' = Some (App j)"
    using server_answers_at [OF assms(1-6)] .
  let ?rep = "mk_package k CMD_AT_SUCCESS (wire_string ?type)"
  let ?C = "C\<lparr>answers := [], dev_calls := dev_calls C @ [Ask ?req]\<rparr>"
  let ?C' = "adopt (born TC ?type C) (fake_for ?type (self C) k) k ?C"
  have "fetch_node TC nid name (C\<lparr>answers := [Some (received ?rep)]\<rparr>) = Inr (Some (Proxy (next_proxy C)), ?C')"
    using fetch_node_reply [of C name ?type "replicate 18 0" TC nid k] assms(5-8) by simp
  moreover have "get_node k ?C' = Some (Proxy (next_proxy C))"
    using smap.find_put [OF assms(9)] by (simp add: adopt_def get_node_def)
  moreover have "proxy_of ?C' (Proxy (next_proxy C)) = Some \<lparr>cn_nid = k, cn_client = Some (self C),
      cn_fake = fake_for ?type (self C) k\<rparr>"
    by (simp add: adopt_def proxy_of_def)
  moreover have "tree ?C' = born TC ?type C" by (simp add: adopt_def)
  ultimately show ?thesis using S' by blast
qed

text \<open>A client before its first request.\<close>

definition sample_client :: "(byte list, byte list) sample sync" where
  "sample_client = (sync_new 2 False no_nodes)\<lparr>has_dev := True\<rparr>"

theorem remote_fetch_witness:
  "\<exists>req rep S' C' cl. answered plain_qt samples 5 req sample_server rep S'
    \<and> fetch_node samples 0 ''a'' (sample_client\<lparr>answers := [Some (received rep)]\<rparr>) = Inr (Some cl, C')
    \<and> tree C' = t_new samples cl type_int (tree sample_client)"
proof -
  have at: "t_at samples (App 0) ''a'' (tree sample_server) = (Some (App 1), sample_nodes)"
    by (simp add: sample_state)
  have type: "type_name samples sample_nodes (App 1) = type_int"
    by (simp add: type_name_def sample_state)
  have S: "has_dev sample_server" "get_node 0 sample_server = Some (App 0)"
    by (simp_all add: sample_server_def get_node_def)
  have C: "has_dev sample_client" "sorted_map (tracked sample_client)"
    by (simp_all add: sample_client_def sync_new_def)
  have "fits_wire (wire_string ''a'')" "fits_wire (wire_string type_int)" by (simp_all add: type_names)
  with remote_fetch [OF sample_server_ok S at _ _ _ C] type show ?thesis
    by (simp add: known_types_def) blast
qed

text \<open>
  C29: what cannot be found is reported, and changes nothing on either side: for an id the server does
  not track, a fetch gives a null pointer and a list of names is empty.
\<close>

theorem unknown_id_errors:
  assumes "map_of (tracked S) nid = None" and "has_dev S" and "has_dev C"
    and "fits_int name"
  shows "(\<exists>rep S' C'. answered q TS a (mk_package nid CMD_AT (wire_string name)) S rep S'
      \<and> tracked S' = tracked S \<and> tree S' = tree S
      \<and> fetch_node TC nid name (C\<lparr>answers := [Some (received rep)]\<rparr>) = Inr (None, C')
      \<and> tracked C' = tracked C \<and> proxies C' = proxies C \<and> tree C' = tree C)
    \<and> (\<exists>rep S' C'. answered q TS a (mk_package nid CMD_LS []) S rep S'
      \<and> tracked S' = tracked S \<and> tree S' = tree S
      \<and> sync_ls nid (C\<lparr>answers := [Some (received rep)]\<rparr>) = Inr ([], C')
      \<and> tracked C' = tracked C \<and> proxies C' = proxies C \<and> tree C' = tree C)"
proof -
  let ?r = "\<lambda>c. mk_package nid c []"
  let ?S = "\<lambda>c. S\<lparr>dev_calls := dev_calls S @ [Reply_to a (?r c)]\<rparr>"
  let ?C = "\<lambda>p. C\<lparr>answers := [], dev_calls := dev_calls C @ [Ask p]\<rparr>"
  have none: "get_node nid S = None" using assms(1) by (simp add: get_node_def)
  have "answered q TS a (mk_package nid CMD_AT (wire_string name)) S (?r CMD_AT_ERROR) (?S CMD_AT_ERROR)"
    using none assms(2)
    by (simp add: answered_def process_package_def cmd_defs cmd_at_def response_mk dev_reply_def)
  moreover have "fetch_node TC nid name (C\<lparr>answers := [Some (received (?r CMD_AT_ERROR))]\<rparr>)
      = Inr (None, ?C (mk_package nid CMD_AT (wire_string name)))"
    using assms(3,4) by (simp add: fetch_node_def package_new_mk append_string_mk dev_send_answer)
  moreover have "answered q TS a (?r CMD_LS) S (?r CMD_LS_ERROR) (?S CMD_LS_ERROR)"
    using none assms(2)
    by (simp add: answered_def process_package_def cmd_defs cmd_ls_def response_mk dev_reply_def)
  moreover have "sync_ls nid (C\<lparr>answers := [Some (received (?r CMD_LS_ERROR))]\<rparr>) = Inr ([], ?C (?r CMD_LS))"
    using assms(3) by (simp add: sync_ls_def package_new_mk dev_send_answer cmd_defs)
  ultimately show ?thesis by (intro conjI exI) (assumption | simp)+
qed

theorem unknown_id_errors_witness:
  "\<exists>rep S' C'. answered plain_qt samples 5 (mk_package 9 CMD_AT (wire_string ''a'')) sample_server rep S'
      \<and> fetch_node samples 9 ''a'' (sample_client\<lparr>answers := [Some (received rep)]\<rparr>) = Inr (None, C')
      \<and> tracked C' = []"
proof -
  have h: "map_of (tracked sample_server) 9 = None" "has_dev sample_server" "has_dev sample_client"
    "fits_int ''a''" and "tracked sample_client = []"
    by (simp_all add: sample_server_def sample_client_def sync_new_def)
  with unknown_id_errors [OF h, of plain_qt samples 5 samples] show ?thesis by metis
qed

section \<open>Values\<close>

text \<open>The tree: storing a value changes the value, and notifying changes none.\<close>

definition value_laws :: "('t, 'qs, 'qb) tree_api \<Rightarrow> bool" where
  "value_laws T \<longleftrightarrow>
     (\<forall>n call t v. t_prop T t n = Some v \<longrightarrow>
        t_prop T (fst (t_store T n call t)) n = Some (v\<lparr>prop_value := stored call\<rparr>)) \<and>
     (\<forall>n t. t_prop T (fst (t_notify_change T n t)) = t_prop T t)"

text \<open>
  The notifications a store into \<open>n\<close> and the \<^verbatim>\<open>notify_change\<close> after it make to the node_sync: none,
  when it is not a listener of the property; else they are about the property itself.
\<close>

definition silent_at :: "('t, 'qs, 'qb) tree_api \<Rightarrow> node_ref \<Rightarrow> 't \<Rightarrow> bool" where
  "silent_at T n t \<longleftrightarrow>
     (\<forall>call. snd (t_store T n call t) = []
        \<and> snd (t_notify_change T n (fst (t_store T n call t))) = [])"

definition own_updates_at :: "('t, 'qs, 'qb) tree_api \<Rightarrow> node_ref \<Rightarrow> 't \<Rightarrow> bool" where
  "own_updates_at T n t \<longleftrightarrow>
     (\<forall>call. set (snd (t_store T n call t)) \<subseteq> {Updated n}
        \<and> set (snd (t_notify_change T n (fst (t_store T n call t)))) \<subseteq> {Updated n})"

lemma store_law:
  "value_laws T \<Longrightarrow> t_prop T t n = Some v \<Longrightarrow>
     t_prop T (fst (t_store T n call t)) n = Some (v\<lparr>prop_value := stored call\<rparr>)"
  unfolding value_laws_def by blast

lemma notify_law: "value_laws T \<Longrightarrow> t_prop T (fst (t_notify_change T n t)) = t_prop T t"
  unfolding value_laws_def by blast

text \<open>A property and a property of the other side that holds values of the same type.\<close>

definition same_kind ::
  "('qs, 'qb) qt_api \<Rightarrow> ('qs, 'qb) prop_view \<Rightarrow> ('qs, 'qb) prop_view \<Rightarrow> bool" where
  "same_kind q v w \<longleftrightarrow> qt_laws q \<and> prop_typed v \<and> prop_typed w \<and> prop_type v = prop_type w"

lemma value_travels:
  assumes "same_kind q sv cv" and "no_nul q (prop_value sv)"
  obtains call where "machine_deserialize q machine_init (machine_serialize q machine_init sv) cv = Some call"
    and "stored call = prop_value sv"
proof -
  have "cv\<lparr>prop_value := prop_value sv\<rparr> = sv" using assms(1) by (simp add: same_kind_def)
  then have "map_option stored
      (machine_deserialize q machine_init (machine_serialize q machine_init sv) cv) = Some (prop_value sv)"
    using mach.des_ser [of q cv "prop_value sv"] assms by (simp add: same_kind_def prop_typed_def)
  with that show ?thesis by auto
qed

text \<open>The packet that carries a value.\<close>

definition wire_value :: "byte list \<Rightarrow> byte list" where
  "wire_value buf = bytes_u32 (of_nat (length buf)) @ buf"

lemma append_wire_value:
  "fits_int (wire_value buf) \<Longrightarrow> append_buffer buf (mk_package n c []) = Inr (mk_package n c (wire_value buf))"
  by (simp add: append_buffer_mk wire_value_def)

lemma read_wire_value:
  "fits_int (wire_value buf @ post) \<Longrightarrow> read_buffer (mk_package n c (wire_value buf @ post)) = Inr buf"
  using read_buffer_mk [of buf post n c] by (simp add: wire_value_def)

lemma get_prop_Some:
  "get_prop T nid s = Inr (Some (n, v)) \<longleftrightarrow>
     map_of (tracked s) nid = Some (Some n) \<and> alive s n \<and> t_prop T (tree s) n = Some v"
  by (auto simp: get_prop_def cast_prop_def split: option.splits if_splits)

lemma fake_of_App [simp]: "fake_of s (App i) = None"
  by (simp add: fake_of_def proxy_of_def)

lemma refresh_value_App [simp]: "refresh_value q T (App i) s = Inr s"
  by (simp add: refresh_value_def)

lemma fake_of_cong: "proxies s' = proxies s \<Longrightarrow> fake_of s' n = fake_of s n"
  by (simp add: fake_of_def proxy_of_def split: node_ref.splits)

lemma fake_of_deserialization:
  "fake_of (set_deserialization b n s) n = map_option (\<lambda>f. f\<lparr>fk_deserialization := b\<rparr>) (fake_of s n)"
proof (cases n)
  case (Proxy i)
  then show ?thesis
    by (cases "proxies s i") (simp_all add: fake_of_def proxy_of_def set_deserialization_def update_proxy_def)
qed (simp add: fake_of_def proxy_of_def)

lemma deserialization_frame [simp]:
  "tree (set_deserialization b n s) = tree s" "tracked (set_deserialization b n s) = tracked s"
  "dev_calls (set_deserialization b n s) = dev_calls s" "self (set_deserialization b n s) = self s"
  "has_dev (set_deserialization b n s) = has_dev s"
  "update_in_process (set_deserialization b n s) = update_in_process s"
  by (simp_all add: set_deserialization_def update_proxy_def split: node_ref.splits)

lemma cmd_get_prop_reply:
  assumes "get_prop T nid s = Inr (Some (App j, v))" and "has_dev s"
    and "fits_int (wire_value (machine_serialize q machine_init v))"
  shows "cmd_get_prop q T a (mk_package nid CMD_PROP_GET_VALUE post) s
    = Inr (s\<lparr>dev_calls := dev_calls s @ [Reply_to a
        (mk_package nid CMD_PROP_GET_VALUE_SUCCESS (wire_value (machine_serialize q machine_init v)))]\<rparr>)"
  using assms assms(1) [unfolded get_prop_Some]
  by (simp add: cmd_get_prop_def response_mk append_wire_value dev_reply_def)

lemma update_prop_reply:
  assumes "get_prop T nid s = Inr (Some (n, v))" and "fake_of s n = Some f" and "\<not> fk_deserialization f"
    and "\<not> update_in_process s" and "has_dev s"
    and "machine_deserialize q machine_init buf v = Some call" and "fits_int (wire_value buf @ post)"
    and "silent_at T n (tree s)"
  shows "\<exists>s'. update_prop q T nid (s\<lparr>answers := [Some (mk_package nid c (wire_value buf @ post))]\<rparr>) = Inr s'
    \<and> tree s' = fst (t_store T n call (tree s)) \<and> fake_of s' n = Some f \<and> \<not> update_in_process s'
    \<and> dev_calls s' = dev_calls s @ [Ask (mk_package nid CMD_PROP_GET_VALUE [])]"
proof -
  let ?s = "s\<lparr>answers := [Some (mk_package nid c (wire_value buf @ post))]\<rparr>"
  let ?s1 = "s\<lparr>answers := [], dev_calls := dev_calls s @ [Ask (mk_package nid CMD_PROP_GET_VALUE [])]\<rparr>"
  let ?s2 = "set_deserialization True n (?s1\<lparr>update_in_process := True\<rparr>)"
  let ?s3 = "?s2\<lparr>tree := fst (t_store T n call (tree s))\<rparr>"
  let ?s' = "(set_deserialization False n ?s3)\<lparr>update_in_process := False\<rparr>"
  have get: "get_prop T nid ?s = Inr (Some (n, v))"
    using assms(1) alive_cong [of ?s s] by (simp add: get_prop_Some)
  obtain t where t: "t_store T n call (tree s) = (t, [])"
    using assms(8) unfolding silent_at_def by (metis prod.collapse)
  have "fake_of (?s1\<lparr>update_in_process := True\<rparr>) n = Some f"
    using fake_of_cong [of "?s1\<lparr>update_in_process := True\<rparr>" s n] assms(2) by simp
  then have flag: "fake_of ?s3 n = Some (f\<lparr>fk_deserialization := True\<rparr>)"
    using fake_of_cong [of ?s3 ?s2 n] by (simp add: fake_of_deserialization)
  then have store: "store_fetched q T buf (n, v) ?s2 = Inr ?s3"
    using assms(6) t by (simp add: store_fetched_def store_with_def split: store_call.split)
  have "fake_of ?s n = Some f" using fake_of_cong [of ?s s n] assms(2) by simp
  with get store assms have "update_prop q T nid ?s = Inr ?s'"
    by (simp add: update_prop_def prop_request_mk dev_send_answer read_wire_value)
  moreover have "fake_of ?s' n = Some f"
  proof -
    have "fake_of (set_deserialization False n ?s3) n = Some f"
      using assms(3) flag by (simp add: fake_of_deserialization)
    then show ?thesis
      using fake_of_cong [of ?s' "set_deserialization False n ?s3" n] by simp
  qed
  ultimately show ?thesis by (intro exI [of _ ?s']) simp
qed

text \<open>The two sides after the child \<^verbatim>\<open>a\<close>, an integer property, has been fetched under the id 1.\<close>

definition fetched_server :: "(byte list, byte list) sample sync" where
  "fetched_server = do_track_as (Some (App 1)) 1 (sample_server\<lparr>current_nid := 2\<rparr>)"

definition fetched_client :: "(byte list, byte list) sample sync" where
  "fetched_client = adopt (born samples type_int sample_client) (fake_for type_int 2 1) 1 sample_client"

definition int_prop :: "u32 \<Rightarrow> (byte list, byte list) prop_view" where
  "int_prop w = \<lparr>prop_type = type_int, prop_value = VInt w\<rparr>"

definition int_fake :: fake where
  "int_fake = \<lparr>fk_nid = Some 1, fk_deserialization = False, fk_client = Some 2\<rparr>"

lemma fetched_server_facts:
  "get_prop samples 1 fetched_server = Inr (Some (App 1, int_prop 7))" "has_dev fetched_server"
  "find_key (Some (App 1)) (tracked fetched_server) = Some 1"
  "t_prop samples (tree fetched_server) (App 1) = Some (int_prop 7)"
  by (simp_all add: get_prop_Some fetched_server_def do_track_as_def sample_state alive_def int_prop_def)

lemma fetched_server_ok: "server_ok fetched_server"
proof -
  have "sync_ok (sample_server\<lparr>current_nid := 2\<rparr>)"
    using sample_server_ok by (subst sync_ok_cong [of _ sample_server]) (simp_all add: server_ok_def)
  then have "sync_ok fetched_server"
    unfolding fetched_server_def by (intro sync_ok_track) (simp_all add: sample_server_def alive_def)
  then show ?thesis
    by (simp add: server_ok_def ids_counted_def fetched_server_def do_track_as_def sample_server_def
        sync_new_def)
qed

lemma fetched_client_facts:
  "get_prop samples 1 fetched_client = Inr (Some (Proxy 0, int_prop 0))" "has_dev fetched_client"
  "fake_of fetched_client (Proxy 0) = Some int_fake" "self fetched_client = 2"
  "\<not> update_in_process fetched_client" "dev_calls fetched_client = []"
  by (simp_all add: get_prop_Some fetched_client_def adopt_def sample_client_def sync_new_def sample_defs
      alive_def int_prop_def fake_of_def proxy_of_def fake_for_def int_fake_def)

lemma sample_value_laws: "value_laws (sample_tree qs qb)"
  by (simp add: value_laws_def sample_tree_def)

lemma fetched_silent: "silent_at samples (Proxy 0) (tree fetched_client)"
  by (simp add: silent_at_def fetched_client_def adopt_def sample_client_def sync_new_def sample_defs)

lemma fetched_own_updates: "own_updates_at samples (App 1) (tree fetched_server)"
  by (simp add: own_updates_at_def fetched_server_def do_track_as_def sample_state)

lemma int_same_kind: "same_kind plain_qt (int_prop v) (int_prop w)"
  by (simp add: same_kind_def plain_qt_laws prop_typed_def int_prop_def)

lemma int_bytes: "machine_serialize q machine_init \<lparr>prop_type = type_int, prop_value = VInt w\<rparr> = bytes_u32 w"
  by (simp add: machine_serialize_def)

text \<open>One request and its answer bring the value into the proxy.\<close>

lemma value_exchanged:
  assumes "get_prop TS nid S = Inr (Some (App j, sv))" and "has_dev S"
    and "get_prop TC nid C = Inr (Some (Proxy i, cv))" and "fake_of C (Proxy i) = Some f"
    and "fk_client f = Some (self C)" and "fk_nid f = Some nid" and "\<not> fk_deserialization f"
    and "\<not> update_in_process C" and "has_dev C"
    and "same_kind q sv cv" and "no_nul q (prop_value sv)"
    and "fits_wire (wire_value (machine_serialize q machine_init sv))"
    and "value_laws TC" and "silent_at TC (Proxy i) (tree C)"
  obtains req rep S' C' where "answered q TS a req S rep S'"
    and "fake_get_value q TC (Proxy i) (C\<lparr>answers := [Some (received rep)]\<rparr>) = Inr (Some (prop_value sv), C')"
    and "map_option prop_value (t_prop TC (tree C') (Proxy i)) = Some (prop_value sv)"
    and "fake_of C' (Proxy i) = Some f" and "\<not> update_in_process C'"
    and "dev_calls C' = dev_calls C @ [Ask req]"
proof -
  let ?buf = "machine_serialize q machine_init sv"
  let ?req = "mk_package nid CMD_PROP_GET_VALUE []"
  let ?rep = "mk_package nid CMD_PROP_GET_VALUE_SUCCESS (wire_value ?buf)"
  obtain call where call: "machine_deserialize q machine_init ?buf cv = Some call" "stored call = prop_value sv"
    using value_travels [OF assms(10,11)] .
  obtain C' where run: "update_prop q TC nid (C\<lparr>answers := [Some (received ?rep)]\<rparr>) = Inr C'"
    and C': "tree C' = fst (t_store TC (Proxy i) call (tree C))" "fake_of C' (Proxy i) = Some f"
      "\<not> update_in_process C'" "dev_calls C' = dev_calls C @ [Ask ?req]"
    using update_prop_reply [OF assms(3,4,7,8,9) call(1) _ assms(14), of "replicate 18 0"
        CMD_PROP_GET_VALUE_SUCCESS] assms(12) by auto
  have "t_prop TC (tree C) (Proxy i) = Some cv" using assms(3) by (simp add: get_prop_Some)
  from store_law [OF assms(13) this] C'(1) call(2)
  have val: "map_option prop_value (t_prop TC (tree C') (Proxy i)) = Some (prop_value sv)" by simp
  have "fake_of (C\<lparr>answers := [Some (received ?rep)]\<rparr>) (Proxy i) = Some f"
    using fake_of_cong [of "C\<lparr>answers := [Some (received ?rep)]\<rparr>" C] assms(4) by simp
  with run val assms(5,6) have "fake_get_value q TC (Proxy i) (C\<lparr>answers := [Some (received ?rep)]\<rparr>)
      = Inr (Some (prop_value sv), C')"
    by (simp add: fake_get_value_def refresh_value_def)
  moreover have "answered q TS a ?req S ?rep (S\<lparr>dev_calls := dev_calls S @ [Reply_to a ?rep]\<rparr>)"
    using cmd_get_prop_reply [OF assms(1,2), of q a "replicate 9 0"] assms(12) by (simp add: answered_def process_package_def cmd_defs)
  ultimately show ?thesis using that val C' by blast
qed

text \<open>
  C6: reading a property through its proxy gives the value the property has on the server at that
  time, and the proxy keeps that value; the read makes one request, and does not send the value back: the
  proxy is in deserialization while the answer is stored, and not afterwards. It holds for a value
  that fits a packet and has no NUL character, which would end a string on its way, and for a proxy whose
  changes are not reported to a node_sync.
\<close>

theorem remote_get_value:
  assumes "get_prop TS nid S = Inr (Some (App j, sv))" and "has_dev S"
    and "get_prop TC nid C = Inr (Some (Proxy i, cv))" and "fake_of C (Proxy i) = Some f"
    and "fk_client f = Some (self C)" and "fk_nid f = Some nid" and "\<not> fk_deserialization f"
    and "\<not> update_in_process C" and "has_dev C"
    and "same_kind q sv cv" and "no_nul q (prop_value sv)"
    and "fits_wire (wire_value (machine_serialize q machine_init sv))"
    and "value_laws TC" and "silent_at TC (Proxy i) (tree C)"
  shows "\<exists>req rep S' C'. answered q TS a req S rep S'
    \<and> fake_get_value q TC (Proxy i) (C\<lparr>answers := [Some (received rep)]\<rparr>) = Inr (Some (prop_value sv), C')
    \<and> map_option prop_value (t_prop TC (tree C') (Proxy i)) = Some (prop_value sv)
    \<and> fake_of C' (Proxy i) = Some f \<and> \<not> update_in_process C'
    \<and> dev_calls C' = dev_calls C @ [Ask req]"
proof -
  obtain req rep S' C' where "answered q TS a req S rep S'"
    "fake_get_value q TC (Proxy i) (C\<lparr>answers := [Some (received rep)]\<rparr>) = Inr (Some (prop_value sv), C')"
    "map_option prop_value (t_prop TC (tree C') (Proxy i)) = Some (prop_value sv)"
    "fake_of C' (Proxy i) = Some f" "\<not> update_in_process C'" "dev_calls C' = dev_calls C @ [Ask req]"
    using value_exchanged [OF assms] .
  then show ?thesis by blast
qed

theorem remote_get_value_witness:
  "\<exists>req rep S' C'. answered plain_qt samples 5 req fetched_server rep S'
    \<and> fake_get_value plain_qt samples (Proxy 0) (fetched_client\<lparr>answers := [Some (received rep)]\<rparr>)
        = Inr (Some (VInt 7), C')"
proof -
  have "fk_client int_fake = Some (self fetched_client)" "fk_nid int_fake = Some 1"
    "\<not> fk_deserialization int_fake" "no_nul plain_qt (prop_value (int_prop 7))"
    "fits_wire (wire_value (machine_serialize plain_qt machine_init (int_prop 7)))"
    by (simp_all add: int_fake_def fetched_client_facts int_prop_def int_bytes wire_value_def)
  from remote_get_value [OF fetched_server_facts(1,2) fetched_client_facts(1,3) this(1-3)
      fetched_client_facts(5,2) int_same_kind this(4,5) sample_value_laws fetched_silent, of 5]
  show ?thesis unfolding int_prop_def prop_view.select_convs by blast
qed

text \<open>What a server that is subscribed to its property sends when it is notified.\<close>

definition update_packet :: "nid \<Rightarrow> byte list \<Rightarrow> package" where
  "update_packet nid buf = mk_package nid CMD_PROP_VALUE_UPDATED (wire_value buf)"

lemma updated_packet:
  assumes "find_key (Some (App j)) (tracked s) = Some nid" and "t_prop T (tree s) (App j) = Some v"
    and "fits_int (wire_value (machine_serialize q machine_init v))" and "has_dev s"
  shows "updated q T (App j) s
    = Inr (s\<lparr>dev_calls := dev_calls s @ [Write (update_packet nid (machine_serialize q machine_init v))]\<rparr>)"
  using assms
  by (simp add: updated_def updated_with_def get_nid_of_def package_new_mk append_wire_value
      update_packet_def dev_write_def)

lemma update_events:
  assumes "set evs \<subseteq> {Updated (App j)}" and "find_key (Some (App j)) (tracked s) = Some nid"
    and "t_prop T (tree s) (App j) = Some v"
    and "fits_int (wire_value (machine_serialize q machine_init v))" and "has_dev s"
  shows "handle_events q T evs s = Inr (s\<lparr>dev_calls := dev_calls s
    @ replicate (length evs) (Write (update_packet nid (machine_serialize q machine_init v)))\<rparr>)"
  using assms
proof (induction evs arbitrary: s)
  case Nil
  then show ?case by simp
next
  case (Cons e evs)
  let ?s = "s\<lparr>dev_calls := dev_calls s @ [Write (update_packet nid (machine_serialize q machine_init v))]\<rparr>"
  from Cons.prems have "e = Updated (App j)" by simp
  moreover have "handle_events q T evs ?s = Inr (?s\<lparr>dev_calls := dev_calls ?s
    @ replicate (length evs) (Write (update_packet nid (machine_serialize q machine_init v)))\<rparr>)"
    using Cons.prems by (intro Cons.IH) simp_all
  ultimately show ?case
    using updated_packet [OF Cons.prems(2-5)] by (simp add: updated_def)
qed

text \<open>What \<^verbatim>\<open>set_value\<close> on a proxy sends.\<close>

definition set_packet :: "nid \<Rightarrow> byte list \<Rightarrow> package" where
  "set_packet nid buf = mk_package nid CMD_PROP_SET_VALUE buf"

lemma serialize_raw_typed:
  assumes "type = value_type v"
  shows "machine_serialize_raw q machine_init type v
    = Inr (machine_serialize q machine_init \<lparr>prop_type = type, prop_value = v\<rparr>)"
  using assms
  by (cases v) (simp_all add: machine_serialize_raw_def machine_serialize_def)

lemma set_value_sends:
  assumes "t_store T (Proxy i) (Set_value v) (tree s) = (t, [])"
    and "fake_of s (Proxy i) = Some f" and "fk_client f = Some (self s)" and "fk_nid f = Some nid"
    and "\<not> fk_deserialization f" and "t_prop T t (Proxy i) = Some p" and "prop_type p = value_type v"
    and "machine_serialize q machine_init \<lparr>prop_type = value_type v, prop_value = v\<rparr> = buf"
    and "buf \<noteq> []" and "fits_int buf" and "has_dev s"
  shows "store_value q T (Proxy i) (Set_value v) s
    = Inr (s\<lparr>tree := t, dev_calls := dev_calls s @ [Write (set_packet nid buf)]\<rparr>)"
proof -
  have "fake_of (s\<lparr>tree := t\<rparr>) (Proxy i) = Some f"
    using fake_of_cong [of "s\<lparr>tree := t\<rparr>" s] assms(2) by simp
  with assms show ?thesis
    by (simp add: store_value_def store_with_def request_set_def request_prop_set_value_def set_value_request_def
        serialize_raw_typed prop_request_mk set_packet_def dev_write_def)
qed

lemma package_read_all:
  "fits_int buf \<Longrightarrow> package_read (mk_package n c buf) 0 (of_nat (length buf)) = Inr (Some buf)"
  using package_read_mk [of 0 "length buf" buf n c] by simp

text \<open>What a handler of a set request does on the node it is about.\<close>

lemma cmd_prop_value_stores:
  assumes "map_of (tracked s) nid = Some (Some (App j))" and "t_prop T (tree s) (App j) = Some v"
    and "find_key (Some (App j)) (tracked s) = Some nid"
    and "machine_deserialize q machine_init buf v = Some call" and "fits_int buf" and "has_dev s"
    and "value_laws T" and "own_updates_at T (App j) (tree s)"
    and "fits_int (wire_value (machine_serialize q machine_init (v\<lparr>prop_value := stored call\<rparr>)))"
  shows "\<exists>k s'. cmd_prop_value q T (set_packet nid buf) s = Inr s'
    \<and> t_prop T (tree s') (App j) = Some (v\<lparr>prop_value := stored call\<rparr>)
    \<and> tracked s' = tracked s \<and> \<not> update_in_process s'
    \<and> dev_calls s' = dev_calls s @ replicate k
        (Write (update_packet nid (machine_serialize q machine_init (v\<lparr>prop_value := stored call\<rparr>))))"
proof -
  let ?v = "v\<lparr>prop_value := stored call\<rparr>"
  let ?w = "Write (update_packet nid (machine_serialize q machine_init ?v))"
  obtain t evs where st: "t_store T (App j) call (tree s) = (t, evs)"
    by (cases "t_store T (App j) call (tree s)")
  obtain t' evs' where nt: "t_notify_change T (App j) t = (t', evs')"
    by (cases "t_notify_change T (App j) t")
  have v: "t_prop T t (App j) = Some ?v" "t_prop T t' (App j) = Some ?v"
    using store_law [OF assms(7,2), of call] notify_law [OF assms(7), of "App j" t] st nt by simp_all
  have only: "set evs \<subseteq> {Updated (App j)}" "set evs' \<subseteq> {Updated (App j)}"
    using assms(8) st nt unfolding own_updates_at_def by (metis fst_conv snd_conv)+
  let ?s1 = "s\<lparr>update_in_process := True, tree := t\<rparr>"
  let ?s2 = "?s1\<lparr>dev_calls := dev_calls s @ replicate (length evs) ?w\<rparr>"
  let ?s3 = "?s2\<lparr>update_in_process := False, tree := t'\<rparr>"
  let ?s4 = "?s3\<lparr>dev_calls := dev_calls ?s3 @ replicate (length evs') ?w\<rparr>"
  have "handle_events q T evs ?s1 = Inr ?s2"
    using update_events [OF only(1), of ?s1 nid T ?v q] assms v by simp
  then have store: "deserialize_into q T buf (App j, v) (s\<lparr>update_in_process := True\<rparr>) = Inr ?s2"
    using assms(4) st by (simp add: deserialize_into_def store_value_def store_with_def)
  have notify: "notify_change q T (App j) (?s2\<lparr>update_in_process := False\<rparr>) = Inr ?s4"
    using update_events [OF only(2), of ?s3 nid T ?v q] assms v nt by (simp add: notify_change_def)
  have "cmd_prop_value q T (set_packet nid buf) s = Inr ?s4"
    using assms(1,2,5) store notify package_read_all [OF assms(5), of nid CMD_PROP_SET_VALUE]
    by (simp add: cmd_prop_value_def set_packet_def tracked_at_def cast_prop_def alive_def)
  moreover have "dev_calls ?s4 = dev_calls s @ replicate (length evs + length evs') ?w"
    by (simp add: replicate_add)
  ultimately show ?thesis
    using v by (intro exI [of _ "length evs + length evs'"] exI [of _ ?s4]) simp
qed

text \<open>
  C12: setting a value through a proxy sets it on the server, if the value has a serialized form that is
  not empty - an empty string or byte array is never sent - and that fits a packet, and no NUL
  character, at which a string would be cut. The proxy then sends one packet; the server's handler stores
  exactly that value into the property, and if this connection is subscribed to the property, every
  notification it sends back carries the new value.
\<close>

theorem remote_set_value:
  assumes "t_store TC (Proxy i) (Set_value v) (tree C) = (t, [])"
    and "fake_of C (Proxy i) = Some f" and "fk_client f = Some (self C)" and "fk_nid f = Some nid"
    and "\<not> fk_deserialization f" and "t_prop TC t (Proxy i) = Some p" and "prop_type p = value_type v"
    and "has_dev C"
    and "machine_serialize q machine_init (sv\<lparr>prop_value := v\<rparr>) \<noteq> []"
    and "fits_int (wire_value (machine_serialize q machine_init (sv\<lparr>prop_value := v\<rparr>)))"
    and "server_ok S" and "has_dev S" and "find_key (Some (App j)) (tracked S) = Some nid"
    and "t_prop TS (tree S) (App j) = Some sv" and "prop_typed sv" and "prop_type sv = value_type v"
    and "qt_laws q" and "no_nul q v" and "value_laws TS" and "own_updates_at TS (App j) (tree S)"
  shows "\<exists>req C' S' k upd. store_value q TC (Proxy i) (Set_value v) C = Inr C'
    \<and> dev_calls C' = dev_calls C @ [Write req]
    \<and> process_package q TS a req S = Inr S'
    \<and> t_prop TS (tree S') (App j) = Some (sv\<lparr>prop_value := v\<rparr>)
    \<and> tracked S' = tracked S \<and> dev_calls S' = dev_calls S @ replicate k (Write upd)
    \<and> get_cmd upd = CMD_PROP_VALUE_UPDATED \<and> get_nid upd = nid
    \<and> read_buffer upd = Inr (machine_serialize q machine_init (sv\<lparr>prop_value := v\<rparr>))"
proof -
  let ?sv = "sv\<lparr>prop_value := v\<rparr>"
  let ?buf = "machine_serialize q machine_init ?sv"
  have whole: "\<lparr>prop_type = value_type v, prop_value = v\<rparr> = ?sv"
    by (simp flip: assms(16))
  have sent: "store_value q TC (Proxy i) (Set_value v) C
      = Inr (C\<lparr>tree := t, dev_calls := dev_calls C @ [Write (set_packet nid ?buf)]\<rparr>)"
    using assms(1-10)
    by (intro set_value_sends [where p = p]) (simp_all only: whole wire_value_def, simp_all)
  have "map_option stored (machine_deserialize q machine_init ?buf sv) = Some v"
    using mach.des_ser [of q sv v] assms(15-18) by simp
  then obtain call where call: "machine_deserialize q machine_init ?buf sv = Some call" "stored call = v"
    by auto
  have sorted: "sorted_map (tracked S)" using assms(11) by (simp add: server_ok_def sync_ok_def)
  have "map_of (tracked S) nid = Some (Some (App j))"
    by (rule smap.rev_find_Some [OF sorted assms(13)])
  from cmd_prop_value_stores [OF this assms(14,13) call(1) _ assms(12,19,20)] call(2) assms(10)
  obtain k S' where run: "cmd_prop_value q TS (set_packet nid ?buf) S = Inr S'"
    and S': "t_prop TS (tree S') (App j) = Some ?sv" "tracked S' = tracked S"
      "dev_calls S' = dev_calls S @ replicate k (Write (update_packet nid ?buf))"
    by (auto simp: wire_value_def)
  have "process_package q TS a (set_packet nid ?buf) S = Inr S'"
    using run by (simp add: process_package_def cmd_defs set_packet_def)
  moreover have "read_buffer (update_packet nid ?buf) = Inr ?buf"
    using read_wire_value [where post = "[]"] assms(10) by (simp add: update_packet_def)
  ultimately show ?thesis using sent S' by (fastforce simp: update_packet_def)
qed

theorem remote_set_value_witness:
  "\<exists>req C' S'. store_value plain_qt samples (Proxy 0) (Set_value (VInt 9)) fetched_client = Inr C'
    \<and> dev_calls C' = [Write req] \<and> process_package plain_qt samples 5 req fetched_server = Inr S'
    \<and> t_prop samples (tree S') (App 1) = Some (int_prop 9)"
proof -
  obtain t where t: "t_store samples (Proxy 0) (Set_value (VInt 9)) (tree fetched_client) = (t, [])"
    using fetched_silent unfolding silent_at_def by (metis prod.collapse)
  have p: "t_prop samples t (Proxy 0) = Some (int_prop 9)"
    using t by (auto simp: fetched_client_def adopt_def sample_client_def sync_new_def sample_defs int_prop_def
        type_names)
  have f: "fk_client int_fake = Some (self fetched_client)" "fk_nid int_fake = Some 1"
    "\<not> fk_deserialization int_fake"
    by (simp_all add: int_fake_def fetched_client_facts)
  have v: "prop_type (int_prop 9) = value_type (VInt 9 :: (byte list, byte list) pvalue)"
    "machine_serialize plain_qt machine_init (int_prop 7\<lparr>prop_value := VInt 9\<rparr>) \<noteq> []"
    "fits_int (wire_value (machine_serialize plain_qt machine_init (int_prop 7\<lparr>prop_value := VInt 9\<rparr>)))"
    "prop_typed (int_prop 7)" "prop_type (int_prop 7) = value_type (VInt 9 :: (byte list, byte list) pvalue)"
    "no_nul plain_qt (VInt 9)" "int_prop 7\<lparr>prop_value := VInt 9\<rparr> = int_prop 9"
    by (simp_all add: int_prop_def int_bytes wire_value_def prop_typed_def)
  from remote_set_value [OF t fetched_client_facts(3) f p v(1) fetched_client_facts(2) v(2,3) fetched_server_ok
      fetched_server_facts(2,3,4) v(4,5) plain_qt_laws v(6) sample_value_laws fetched_own_updates, of 5]
  show ?thesis unfolding v(7) fetched_client_facts(6) append_Nil by blast
qed

text \<open>What the handler of a published value does.\<close>

lemma update_packet_stores:
  assumes "get_prop T nid s = Inr (Some (Proxy i, cv))" and "fake_of s (Proxy i) = Some f"
    and "\<not> fk_deserialization f" and "machine_deserialize q machine_init buf cv = Some call"
    and "fits_int (wire_value buf)" and "value_laws T" and "silent_at T (Proxy i) (tree s)"
  shows "\<exists>s'. process_package q T a (update_packet nid buf) s = Inr s'
    \<and> tree s' = fst (t_notify_change T (Proxy i) (fst (t_store T (Proxy i) call (tree s))))
    \<and> t_prop T (tree s') (Proxy i) = Some (cv\<lparr>prop_value := stored call\<rparr>)
    \<and> tracked s' = tracked s \<and> dev_calls s' = dev_calls s \<and> fake_of s' (Proxy i) = Some f
    \<and> \<not> update_in_process s' \<and> self s' = self s \<and> has_dev s' = has_dev s"
proof -
  obtain t where t: "t_store T (Proxy i) call (tree s) = (t, [])"
    using assms(7) unfolding silent_at_def by (metis prod.collapse)
  obtain t' where t': "t_notify_change T (Proxy i) t = (t', [])"
    using assms(7) t unfolding silent_at_def by (metis fst_conv prod.collapse)
  have cv: "t_prop T (tree s) (Proxy i) = Some cv" using assms(1) by (simp add: get_prop_Some)
  have val: "t_prop T t' (Proxy i) = Some (cv\<lparr>prop_value := stored call\<rparr>)"
    using store_law [OF assms(6) cv, of call] notify_law [OF assms(6), of "Proxy i" t] t t' by simp
  let ?s1 = "set_deserialization True (Proxy i) (s\<lparr>update_in_process := True\<rparr>)"
  let ?s2 = "?s1\<lparr>tree := t'\<rparr>"
  let ?s' = "(set_deserialization False (Proxy i) ?s2)\<lparr>update_in_process := False\<rparr>"
  have "fake_of (s\<lparr>update_in_process := True\<rparr>) (Proxy i) = Some f"
    using fake_of_cong [of "s\<lparr>update_in_process := True\<rparr>" s] assms(2) by simp
  then have f1: "fake_of ?s1 (Proxy i) = Some (f\<lparr>fk_deserialization := True\<rparr>)"
    by (simp add: fake_of_deserialization)
  have "fake_of (?s1\<lparr>tree := t\<rparr>) (Proxy i) = Some (f\<lparr>fk_deserialization := True\<rparr>)"
    using fake_of_cong [of "?s1\<lparr>tree := t\<rparr>" ?s1] f1 by simp
  then have store: "deserialize_into q T buf (Proxy i, cv) ?s1 = Inr (?s1\<lparr>tree := t\<rparr>)"
    using assms(4) t by (simp add: deserialize_into_def store_value_def store_with_def split: store_call.splits)
  have "process_prop_value q T (update_packet nid buf) s = Inr ?s'"
    using assms(1,2,3) store t' read_wire_value [of _ "[]" nid CMD_PROP_VALUE_UPDATED] assms(5)
    by (simp add: process_prop_value_def update_packet_def notify_change_def)
  then have run: "process_package q T a (update_packet nid buf) s = Inr ?s'"
    by (simp add: process_package_def cmd_defs update_packet_def)
  have "fake_of ?s2 (Proxy i) = Some (f\<lparr>fk_deserialization := True\<rparr>)"
    using fake_of_cong [of ?s2 ?s1] f1 by simp
  then have "fake_of (set_deserialization False (Proxy i) ?s2) (Proxy i) = Some f"
    using assms(3) by (simp add: fake_of_deserialization)
  then have "fake_of ?s' (Proxy i) = Some f"
    using fake_of_cong [of ?s' "set_deserialization False (Proxy i) ?s2"] by simp
  with run val t t' show ?thesis by (intro exI [of _ ?s']) simp
qed

text \<open>
  A value that is published reaches the proxy of a subscriber: the proxy gets exactly the value, is ready
  for the next message, and the subscriber sends nothing back, so an update does not echo.
\<close>

theorem published_value_arrives:
  assumes "find_key (Some (App j)) (tracked S) = Some nid" and "t_prop TS (tree S) (App j) = Some sv"
    and "has_dev S" and "fits_int (wire_value (machine_serialize q machine_init sv))"
    and "get_prop TC nid C = Inr (Some (Proxy i, cv))" and "fake_of C (Proxy i) = Some f"
    and "\<not> fk_deserialization f" and "same_kind q sv cv" and "no_nul q (prop_value sv)"
    and "value_laws TC" and "silent_at TC (Proxy i) (tree C)"
  shows "\<exists>req S' C'. updated q TS (App j) S = Inr S' \<and> dev_calls S' = dev_calls S @ [Write req]
    \<and> process_package q TC a req C = Inr C'
    \<and> t_prop TC (tree C') (Proxy i) = Some (cv\<lparr>prop_value := prop_value sv\<rparr>)
    \<and> dev_calls C' = dev_calls C \<and> fake_of C' (Proxy i) = Some f \<and> \<not> update_in_process C'"
proof -
  obtain call where call: "machine_deserialize q machine_init (machine_serialize q machine_init sv) cv = Some call"
    "stored call = prop_value sv"
    using value_travels [OF assms(8,9)] .
  from update_packet_stores [OF assms(5-7) call(1) assms(4,10,11), of a]
    updated_packet [OF assms(1,2,4,3)] call(2)
  show ?thesis by fastforce
qed

theorem published_value_arrives_witness:
  "\<exists>req S' C'. updated plain_qt samples (App 1) fetched_server = Inr S'
    \<and> process_package plain_qt samples 5 req fetched_client = Inr C' \<and> dev_calls C' = []
    \<and> t_prop samples (tree C') (Proxy 0) = Some (int_prop 7)"
proof -
  have v: "\<not> fk_deserialization int_fake" "no_nul plain_qt (prop_value (int_prop 7))"
    "fits_int (wire_value (machine_serialize plain_qt machine_init (int_prop 7)))"
    "int_prop 0\<lparr>prop_value := prop_value (int_prop 7)\<rparr> = int_prop 7"
    by (simp_all add: int_fake_def int_prop_def int_bytes wire_value_def)
  from published_value_arrives [OF fetched_server_facts(3,4,2) v(3) fetched_client_facts(1,3) v(1) int_same_kind
      v(2) sample_value_laws fetched_silent, of 5]
  show ?thesis unfolding v(4) fetched_client_facts(6) by blast
qed

end
