(* ===== verification/Session_Tree.thy ===== *)
theory Session_Tree
  imports Session
begin

text \<open>
  How the tree itself is kept in step: a node that one side adds to its tree (\<^verbatim>\<open>child_added\<close>), or attaches
  below a proxy (\<^verbatim>\<open>attach\<close>), appears on the other side as a proxy at the same place, tracked under the
  same id, and is not reported back.
\<close>

section \<open>Attaching a new proxy\<close>

text \<open>The nodes a new proxy can be attached to: those of the application, and own proxies.\<close>

definition adopter :: "('t, 'qs, 'qb) tree_api \<Rightarrow> 't sync \<Rightarrow> node_ref \<Rightarrow> string \<Rightarrow> bool" where
  "adopter T s P name \<longleftrightarrow>
     (case P of App _ \<Rightarrow> True
      | Proxy i \<Rightarrow> own_proxy s (Proxy i) \<and> t_children T (tree s) P name = None)"

text \<open>The listener events an attach makes to the node_sync: at most the new child itself.\<close>

definition attach_events_ok ::
  "('t, 'qs, 'qb) tree_api \<Rightarrow> node_ref \<Rightarrow> string \<Rightarrow> node_ref \<Rightarrow> 't \<Rightarrow> bool" where
  "attach_events_ok T P name n t \<longleftrightarrow> set (snd (t_attach T P name n t)) \<subseteq> {Child_added P n}"

lemma own_proxy_alive: "own_proxy s n \<Longrightarrow> alive s n"
  by (auto simp: own_proxy_def alive_def proxy_of_def split: node_ref.splits option.splits)

lemma own_child_added:
  assumes "own_proxy s n" and "alive s P" and "find_key (Some P) (tracked s) = Some k"
  shows "child_added T P n s = Inr s"
  using assms own_proxy_alive [OF assms(1)]
  by (simp add: child_added_def node_nid_known)

lemma own_child_events:
  assumes "set evs \<subseteq> {Child_added P n}"
    and "own_proxy s n" and "alive s P" and "find_key (Some P) (tracked s) = Some k"
  shows "handle_events q T evs s = Inr s"
  using assms(1)
proof (induction evs)
  case Nil
  then show ?case by simp
next
  case (Cons e evs)
  then show ?case using own_child_added [OF assms(2-4), of T] by simp
qed

lemma attach_new:
  assumes "own_proxy s n" and "alive s P" and "find_key (Some P) (tracked s) = Some k"
    and "adopter T s P name" and "attach_events_ok T P name n (tree s)"
  shows "node_attach q T P name n s = Inr (s\<lparr>tree := fst (t_attach T P name n (tree s))\<rparr>)"
proof -
  obtain t evs where t: "t_attach T P name n (tree s) = (t, evs)"
    by (cases "t_attach T P name n (tree s)")
  let ?s = "s\<lparr>tree := t\<rparr>"
  have "handle_events q T evs ?s = Inr ?s"
  proof (rule own_child_events)
    show "set evs \<subseteq> {Child_added P n}" using assms(5) t by (simp add: attach_events_ok_def)
    show "own_proxy ?s n" using assms(1) own_proxy_cong [of ?s s] by simp
    show "alive ?s P" using assms(2) alive_cong [of ?s s] by simp
    show "find_key (Some P) (tracked ?s) = Some k" using assms(3) by simp
  qed
  then have base: "base_attach q T P name n s = Inr ?s" using t by (simp add: base_attach_def)
  show ?thesis
  proof (cases P)
    case (App i)
    with base t show ?thesis by (simp add: node_attach_def)
  next
    case (Proxy i)
    with assms(4) obtain c where c: "proxies s i = Some c" "cn_client c = Some (self s)"
      by (auto simp: adopter_def own_proxy_def proxy_of_def split: option.splits)
    from assms(1) obtain oc where "proxy_of ?s n = Some oc" "cn_client oc = Some (self s)"
      by (auto simp: own_proxy_def proxy_of_def split: option.splits node_ref.splits)
    with base t c assms(4) Proxy show ?thesis
      by (simp add: node_attach_def client_attach_def adopter_def)
  qed
qed

text \<open>A new proxy is own, the nodes that were there stay, and their ids too.\<close>

lemma adopt_own: "own_proxy (adopt t fk k s) (Proxy (next_proxy s))"
  by (simp add: own_proxy_def proxy_of_def adopt_def)

lemma adopt_alive: "alive s n \<Longrightarrow> alive (adopt t fk k s) n"
  by (auto simp: alive_def adopt_def split: node_ref.splits)

lemma adopt_find_key:
  assumes "sync_ok s" and "find_key (Some P) (tracked s) = Some kp" and "map_of (tracked s) k \<noteq> Some (Some P)"
  shows "find_key (Some P) (tracked (adopt t fk k s)) = Some kp"
proof -
  have sorted: "sorted_map (tracked s)" using assms(1) by (simp add: sync_ok_def)
  have "map_of (tracked s) kp = Some (Some P)" by (rule smap.rev_find_Some [OF sorted assms(2)])
  then have "entry_ok s kp (Some P)" using assms(1) unfolding sync_ok_def by blast
  then have "P \<noteq> Proxy (next_proxy s)"
    using assms(1) by (auto simp: sync_ok_def addresses_ok_def split: option.splits)
  then show ?thesis
    using find_key_put_other [OF sorted, of k "Some P" "Some (Proxy (next_proxy s))"] assms(2,3)
    by (simp add: adopt_def)
qed

section \<open>A child is added\<close>

definition child_packet :: "nid \<Rightarrow> nid \<Rightarrow> string \<Rightarrow> string \<Rightarrow> bool \<Rightarrow> package" where
  "child_packet kp kn name type b = mk_package kp CMD_CHILD_ADDED
     (bytes_u64 kn @ wire_string name @ wire_string type @ [if b then 1 else 0])"

lemma child_added_sends:
  assumes "find_key (Some (App p)) (tracked s) = Some kp" and "node_nid (App j) s = Inr (kn, s1)"
    and "has_dev s" and "has_dev s1"
    and "fits_int (t_name T (tree s) (App j))" and "fits_int (type_name T (tree s) (App j))"
  shows "child_added T (App p) (App j) s = Inr (s1\<lparr>dev_calls := dev_calls s1
    @ [Write (child_packet kp kn (t_name T (tree s) (App j)) (type_name T (tree s) (App j))
         (t_owner T (tree s) (App j) = Some (App p)))]\<rparr>)"
proof -
  have "\<not> own_proxy s (App j)" by (simp add: own_proxy_def proxy_of_def)
  then show ?thesis
    using assms node_nid_frame [OF assms(2)]
    by (simp add: child_added_def alive_def node_nid_known package_new_mk append_string_mk
        child_packet_def dev_write_def flip: type_name_def)
qed

lemma read_child_packet:
  assumes "fits_int (bytes_u64 kn @ wire_string name @ wire_string type @ [if b then 1 else 0])"
  shows "read_nid (child_packet kp kn name type b) (size_of_int 0) = Inr kn"
    and "read_string (child_packet kp kn name type b) [] (0 + 8)
      = Inr (name, of_nat (length (bytes_u64 kn @ wire_string name)))"
    and "read_string (child_packet kp kn name type b) [] (of_nat (length (bytes_u64 kn @ wire_string name)))
      = Inr (type, of_nat (length (bytes_u64 kn @ wire_string name @ wire_string type)))"
    and "read_bool (child_packet kp kn name type b)
      (size_of_int (of_nat (length (bytes_u64 kn @ wire_string name @ wire_string type)))) = Inr b"
proof -
  let ?b = "[if b then 1 else 0 :: byte]"
  show "read_nid (child_packet kp kn name type b) (size_of_int 0) = Inr kn"
    using read_nid_at [of "[]" kn "wire_string name @ wire_string type @ ?b" kp CMD_CHILD_ADDED] assms
    by (simp add: child_packet_def)
  show "read_string (child_packet kp kn name type b) [] (0 + 8)
      = Inr (name, of_nat (length (bytes_u64 kn @ wire_string name)))"
    using read_string_at [of "bytes_u64 kn" name "wire_string type @ ?b" kp CMD_CHILD_ADDED "[]"] assms
    by (simp add: child_packet_def)
  show "read_string (child_packet kp kn name type b) [] (of_nat (length (bytes_u64 kn @ wire_string name)))
      = Inr (type, of_nat (length (bytes_u64 kn @ wire_string name @ wire_string type)))"
    using read_string_at [of "bytes_u64 kn @ wire_string name" type ?b kp CMD_CHILD_ADDED "[]"] assms
    by (simp add: child_packet_def)
  have "length (bytes_u64 kn @ wire_string name @ wire_string type) < 2 ^ 31" using assms by simp
  then have "size_of_int (of_nat (length (bytes_u64 kn @ wire_string name @ wire_string type)))
      = of_nat (length (bytes_u64 kn @ wire_string name @ wire_string type))"
    by (rule size_of_int_of_nat)
  then show "read_bool (child_packet kp kn name type b)
      (size_of_int (of_nat (length (bytes_u64 kn @ wire_string name @ wire_string type)))) = Inr b"
    using read_bool_at [of "bytes_u64 kn @ wire_string name @ wire_string type" b "[]" kp CMD_CHILD_ADDED] assms
    by (simp add: child_packet_def del: length_append)
qed

text \<open>A proxy made for an id: the peer is asked for its future children.\<close>

lemma generate_and_subscribe:
  assumes "type \<in> known_types" and "generate T type s = (m, s1)" and "has_dev s"
  shows "m = Some (Proxy (next_proxy s))
    \<and> do_track_as m k (proxy_set_nid k (Proxy (next_proxy s)) s1)
        = adopt (born T type s) (fake_for type (self s) k) k s
    \<and> client_subscribe_add_remove (Proxy (next_proxy s)) (adopt (born T type s) (fake_for type (self s) k) k s)
        = Inr ((adopt (born T type s) (fake_for type (self s) k) k s)
            \<lparr>dev_calls := dev_calls s @ [Write (prop_request k CMD_SUBSCRIBE_ADD_REMOVE)]\<rparr>)"
proof -
  from assms(1,2) obtain cl where m: "m = Some cl" by (cases m) (auto simp: generate_None)
  with generate_adopt [OF assms(2) [unfolded m], of k] assms(3) show ?thesis
    by (auto simp: client_subscribe_add_remove_def proxy_of_def adopt_def client_write_def dev_write_def)
qed

lemma adopt_adopter:
  assumes "sync_ok s" and "adopter T (s\<lparr>tree := t\<rparr>) P name"
  shows "adopter T (adopt t fk k s) P name"
proof (cases P)
  case (App i)
  then show ?thesis by (simp add: adopter_def)
next
  case (Proxy i)
  from assms(2) Proxy obtain c where c: "proxies s i = Some c" "cn_client c = Some (self s)"
    by (auto simp: adopter_def own_proxy_def proxy_of_def split: option.splits)
  with assms(1) have "i \<noteq> next_proxy s" by (auto simp: sync_ok_def addresses_ok_def)
  with assms(2) c Proxy show ?thesis by (simp add: adopter_def own_proxy_def proxy_of_def adopt_def)
qed

text \<open>
  Where a new proxy for the id \<open>k\<close> ends up: tracked, attached under the name, the peer asked for its
  future children, and nothing else sent.
\<close>

definition mirrored ::
  "('t, 'qs, 'qb) tree_api \<Rightarrow> node_ref \<Rightarrow> string \<Rightarrow> string \<Rightarrow> nid \<Rightarrow> 't sync \<Rightarrow> 't sync" where
  "mirrored T P name type k s =
     (adopt (fst (t_attach T P name (Proxy (next_proxy s)) (born T type s))) (fake_for type (self s) k) k s)
       \<lparr>dev_calls := dev_calls s @ [Write (prop_request k CMD_SUBSCRIBE_ADD_REMOVE)]\<rparr>"

text \<open>When it can be put there.\<close>

definition can_mirror ::
  "('t, 'qs, 'qb) tree_api \<Rightarrow> node_ref \<Rightarrow> string \<Rightarrow> string \<Rightarrow> 't sync \<Rightarrow> bool" where
  "can_mirror T P name type s \<longleftrightarrow>
     type \<in> known_types \<and> adopter T (s\<lparr>tree := born T type s\<rparr>) P name
     \<and> attach_events_ok T P name (Proxy (next_proxy s)) (born T type s)"

lemma tracked_alive:
  assumes "sync_ok s" and "find_key (Some P) (tracked s) = Some k"
  shows "alive s P"
proof -
  have "sorted_map (tracked s)" using assms(1) by (simp add: sync_ok_def)
  then have "map_of (tracked s) k = Some (Some P)" using assms(2) by (rule smap.rev_find_Some)
  then have "entry_ok s k (Some P)" using assms(1) unfolding sync_ok_def by blast
  then show ?thesis by (rule entry_alive)
qed

lemma mirror_attach:
  assumes "sync_ok s" and "find_key (Some P) (tracked s) = Some kp" and "map_of (tracked s) k \<noteq> Some (Some P)"
    and "can_mirror T P name type s" and "proxies s' = proxies (adopt (born T type s) fk k s)"
    and "tracked s' = tracked (adopt (born T type s) fk k s)" and "self s' = self s"
    and "tree s' = born T type s"
  shows "node_attach q T P name (Proxy (next_proxy s)) s'
    = Inr (s'\<lparr>tree := fst (t_attach T P name (Proxy (next_proxy s)) (born T type s))\<rparr>)"
proof -
  let ?a = "adopt (born T type s) fk k s"
  have self: "self s' = self ?a" using assms(7) by (simp add: adopt_def)
  have "own_proxy s' (Proxy (next_proxy s))"
    using adopt_own [of "born T type s" fk k s] own_proxy_cong [OF assms(5) self] by simp
  moreover have "alive s' P"
    using adopt_alive [OF tracked_alive [OF assms(1,2)]] alive_cong [OF assms(5)] by simp
  moreover have "find_key (Some P) (tracked s') = Some kp"
    unfolding assms(6) by (rule adopt_find_key [OF assms(1-3)])
  moreover have "adopter T s' P name"
  proof -
    have "adopter T ?a P name" using assms(1,4) by (intro adopt_adopter) (simp_all add: can_mirror_def)
    moreover have "tree s' = tree ?a" using assms(8) by (simp add: adopt_def)
    ultimately show ?thesis
      using own_proxy_cong [OF assms(5) self] by (simp add: adopter_def split: node_ref.splits)
  qed
  ultimately show ?thesis
    using attach_new [of s' "Proxy (next_proxy s)" P kp T name q] assms(4,8)
    by (simp add: can_mirror_def)
qed

lemma cmd_child_added_mirrors:
  assumes "sync_ok s" and "has_dev s" and "find_key (Some P) (tracked s) = Some kp"
    and "map_of (tracked s) kn = None" and "can_mirror T P name type s"
    and "fits_int (bytes_u64 kn @ wire_string name @ wire_string type @ [if b then 1 else 0])"
  shows "cmd_child_added q T (child_packet kp kn name type b) s
    = Inr (let m = mirrored T P name type kn s
           in if b then m\<lparr>tree := t_set_owner T (Proxy (next_proxy s)) P (tree m)\<rparr> else m)"
proof -
  have sorted: "sorted_map (tracked s)" using assms(1) by (simp add: sync_ok_def)
  have parent: "get_node kp s = Some P" by (rule get_node_found [OF sorted assms(3)])
  have new: "get_node kn s = None" using assms(4) by (simp add: get_node_def)
  have type: "type \<in> known_types" using assms(5) by (simp add: can_mirror_def)
  obtain m s1 where gen: "generate T type s = (m, s1)" by (cases "generate T type s")
  note g = generate_and_subscribe [OF type gen assms(2), of kn]
  let ?a = "(adopt (born T type s) (fake_for type (self s) kn) kn s)
      \<lparr>dev_calls := dev_calls s @ [Write (prop_request kn CMD_SUBSCRIBE_ADD_REMOVE)]\<rparr>"
  have found: "found_or_generated T kn type s = Inr (Some (Proxy (next_proxy s)), ?a)"
    using new gen g by (auto simp: found_or_generated_def)
  have "node_attach q T P name (Proxy (next_proxy s)) ?a
      = Inr (?a\<lparr>tree := fst (t_attach T P name (Proxy (next_proxy s)) (born T type s))\<rparr>)"
    using assms(4) by (intro mirror_attach [OF assms(1,3) _ assms(5)]) (simp_all add: adopt_def)
  then have "node_attach q T P name (Proxy (next_proxy s)) ?a = Inr (mirrored T P name type kn s)"
    by (simp add: mirrored_def adopt_def)
  with parent found show ?thesis
    using read_child_packet [OF assms(6), of kp]
    by (simp add: cmd_child_added_def child_packet_def Let_def)
qed

text \<open>
  C15: a child added to the server's tree appears in the client's tree. The server gives the child an
  id and announces it; the client makes a proxy of the right type for that id, attaches it to its own node for the
  parent under the child's name, makes the parent its owner if it is the owner on the server, asks to be
  told of its children, and does not report the new child back. It holds for a child of a type the
  client can make a proxy of, with an id the client has not yet in its table.
\<close>

theorem added_child_mirrored:
  assumes "server_ok S" and "has_dev S" and "find_key (Some (App p)) (tracked S) = Some kp"
    and "node_nid (App j) S = Inr (kn, S1)"
    and "t_name TS (tree S) (App j) = name" and "type_name TS (tree S) (App j) = type"
    and "fits_int (bytes_u64 kn @ wire_string name @ wire_string type @ [0])"
    and "sync_ok C" and "has_dev C" and "find_key (Some P) (tracked C) = Some kp"
    and "map_of (tracked C) kn = None" and "can_mirror TC P name type C"
  shows "\<exists>req S' C'. child_added TS (App p) (App j) S = Inr S'
    \<and> dev_calls S' = dev_calls S @ [Write req] \<and> get_node kn S' = Some (App j)
    \<and> process_package q TC a req C = Inr C'
    \<and> get_node kn C' = Some (Proxy (next_proxy C))
    \<and> tree C' = (let t = tree (mirrored TC P name type kn C)
                  in if t_owner TS (tree S) (App j) = Some (App p)
                     then t_set_owner TC (Proxy (next_proxy C)) P t else t)
    \<and> dev_calls C' = dev_calls C @ [Write (prop_request kn CMD_SUBSCRIBE_ADD_REMOVE)]"
proof -
  let ?b = "t_owner TS (tree S) (App j) = Some (App p)"
  let ?req = "child_packet kp kn name type ?b"
  have S: "is_server S" "sorted_map (tracked S)" using assms(1) by (simp_all add: server_ok_def sync_ok_def)
  have S1: "has_dev S1 \<and> dev_calls S1 = dev_calls S \<and> get_node kn S1 = Some (App j)"
    using assms(4)
  proof (cases rule: node_nid_cases)
    case known
    then show ?thesis using assms(2) get_node_found [OF S(2)] by simp
  next
    case (new s1)
    then show ?thesis
      using S assms(2) smap.find_put [OF S(2)]
      by (auto simp: generate_nid_def do_track_as_def get_node_def)
  qed
  let ?S' = "S1\<lparr>dev_calls := dev_calls S1 @ [Write ?req]\<rparr>"
  have "child_added TS (App p) (App j) S = Inr ?S'"
    using child_added_sends [OF assms(3,4,2), of TS, unfolded assms(5,6)] S1 assms(7) by simp
  moreover have "get_node kn ?S' = Some (App j)" using S1 by (simp add: get_node_def)
  moreover
  let ?C' = "let m = mirrored TC P name type kn C
      in if ?b then m\<lparr>tree := t_set_owner TC (Proxy (next_proxy C)) P (tree m)\<rparr> else m"
  have "cmd_child_added q TC ?req C = Inr ?C'"
    using assms(7) by (intro cmd_child_added_mirrors [OF assms(8-12)]) simp
  then have "process_package q TC a ?req C = Inr ?C'"
    by (simp add: process_package_def cmd_defs child_packet_def)
  moreover have "get_node kn ?C' = Some (Proxy (next_proxy C))"
    using assms(8) smap.find_put [of "tracked C"]
    by (simp add: Let_def mirrored_def adopt_def get_node_def sync_ok_def)
  moreover have "dev_calls ?C' = dev_calls C @ [Write (prop_request kn CMD_SUBSCRIBE_ADD_REMOVE)]"
    by (simp add: Let_def mirrored_def)
  ultimately show ?thesis using S1 by (intro exI [of _ ?req] exI [of _ ?S'] exI [of _ ?C']) (simp add: Let_def)
qed

text \<open>A client whose root is a node of the application, after \<^verbatim>\<open>client_nonroot::stream_opened\<close>.\<close>

definition sample_nonroot :: "(byte list, byte list) sample sync" where
  "sample_nonroot = do_track_as (Some (App 0)) 0
     ((sync_new 2 False (no_nodes\<lparr>sm_watched := [App 0]\<rparr>))\<lparr>has_dev := True, root_node := Some (App 0)\<rparr>)"

lemma sample_nonroot_opened:
  "\<exists>calls. nonroot_stream_opened plain_qt samples
      ((sync_new 2 False no_nodes)\<lparr>has_dev := True, root_node := Some (App 0)\<rparr>)
    = Inr (sample_nonroot\<lparr>dev_calls := calls\<rparr>)"
  by (simp add: nonroot_stream_opened_def subscribe_add_remove_def dev_write_def do_track_as_def
      sample_nonroot_def sync_new_def sample_defs)

lemma sample_nonroot_ok: "sync_ok sample_nonroot"
proof -
  have "sync_ok ((sync_new 2 False t)\<lparr>has_dev := True, root_node := r\<rparr>)" for t :: "'t" and r
    by (simp add: sync_ok_def sync_new_def own_def addresses_ok_def)
  then show ?thesis unfolding sample_nonroot_def by (intro sync_ok_track) (simp_all add: sync_new_def alive_def)
qed

lemma sample_nonroot_facts:
  "has_dev sample_nonroot" "find_key (Some (App 0)) (tracked sample_nonroot) = Some 0"
  "map_of (tracked sample_nonroot) 0 = Some (Some (App 0))" "map_of (tracked sample_nonroot) 1 = None"
  by (simp_all add: sample_nonroot_def do_track_as_def sync_new_def)

lemma sample_can_mirror: "can_mirror samples (App 0) ''a'' type_int sample_nonroot"
  by (simp add: can_mirror_def known_types_def adopter_def attach_events_ok_def sample_nonroot_def
      do_track_as_def sync_new_def sample_defs)

theorem added_child_mirrored_witness:
  "\<exists>req S' C'. child_added samples (App 0) (App 1) sample_server = Inr S'
    \<and> process_package plain_qt samples 5 req sample_nonroot = Inr C'
    \<and> get_node 1 S' = Some (App 1) \<and> get_node 1 C' = Some (Proxy (next_proxy sample_nonroot))"
proof -
  have S: "has_dev sample_server" "find_key (Some (App 0)) (tracked sample_server) = Some 0"
    "node_nid (App 1) sample_server
      = Inr (1, do_track_as (Some (App 1)) 1 (sample_server\<lparr>current_nid := 1 + 1\<rparr>))"
    "t_name samples (tree sample_server) (App 1) = ''a''"
    "type_name samples (tree sample_server) (App 1) = type_int"
    by (simp_all add: sample_state node_nid_server type_name_def)
  have "fits_int (bytes_u64 1 @ wire_string ''a'' @ wire_string type_int @ [0])" by (simp add: type_names)
  from added_child_mirrored [OF sample_server_ok S this sample_nonroot_ok sample_nonroot_facts(1,2,4)
      sample_can_mirror, of plain_qt 5]
  show ?thesis by blast
qed

section \<open>A child is attached below a proxy\<close>

definition attach_packet :: "nid \<Rightarrow> string \<Rightarrow> string \<Rightarrow> nid \<Rightarrow> package" where
  "attach_packet nid type name k =
     mk_package nid CMD_NODE_ATTACH (wire_string type @ wire_string name @ bytes_u64 k)"

lemma sync_attach_sends:
  assumes "alive s n" and "node_nid n s = Inr (k, s1)" and "has_dev s1"
    and "fits_int (type_name T (tree s) n)" and "fits_int (t_name T (tree s) n)"
  shows "sync_attach T nid n s = Inr (s1\<lparr>dev_calls := dev_calls s1
    @ [Write (attach_packet nid (type_name T (tree s) n) (t_name T (tree s) n) k)]\<rparr>)"
  using assms
  by (simp add: sync_attach_def package_new_mk append_string_mk attach_packet_def dev_write_def
      flip: type_name_def)

lemma read_attach_packet:
  assumes "fits_int (wire_string type @ wire_string name @ bytes_u64 k)"
  shows "read_string (attach_packet nid type name k) [] 0 = Inr (type, of_nat (length (wire_string type)))"
    and "read_string (attach_packet nid type name k) [] (of_nat (length (wire_string type)))
      = Inr (name, of_nat (length (wire_string type @ wire_string name)))"
    and "read_nid (attach_packet nid type name k)
      (size_of_int (of_nat (length (wire_string type @ wire_string name)))) = Inr k"
proof -
  show "read_string (attach_packet nid type name k) [] 0 = Inr (type, of_nat (length (wire_string type)))"
    using read_string_at [of "[]" type "wire_string name @ bytes_u64 k" nid CMD_NODE_ATTACH "[]"] assms
    by (simp add: attach_packet_def)
  show "read_string (attach_packet nid type name k) [] (of_nat (length (wire_string type)))
      = Inr (name, of_nat (length (wire_string type @ wire_string name)))"
    using read_string_at [of "wire_string type" name "bytes_u64 k" nid CMD_NODE_ATTACH "[]"] assms
    by (simp add: attach_packet_def)
  have "length (wire_string type @ wire_string name) < 2 ^ 31" using assms by simp
  then have "size_of_int (of_nat (length (wire_string type @ wire_string name)))
      = of_nat (length (wire_string type @ wire_string name))" by (rule size_of_int_of_nat)
  then show "read_nid (attach_packet nid type name k)
      (size_of_int (of_nat (length (wire_string type @ wire_string name)))) = Inr k"
    using read_nid_at [of "wire_string type @ wire_string name" k "[]" nid CMD_NODE_ATTACH] assms
    by (simp add: attach_packet_def del: length_append)
qed

lemma cmd_attach_mirrors:
  assumes "sync_ok s" and "has_dev s" and "find_key (Some P) (tracked s) = Some nid"
    and "map_of (tracked s) k \<noteq> Some (Some P)" and "can_mirror T P name type s"
    and "fits_int (wire_string type @ wire_string name @ bytes_u64 k)"
  shows "cmd_attach q T (attach_packet nid type name k) s = Inr (mirrored T P name type k s)"
proof -
  have sorted: "sorted_map (tracked s)" using assms(1) by (simp add: sync_ok_def)
  have parent: "map_of (tracked s) nid = Some (Some P)" by (rule smap.rev_find_Some [OF sorted assms(3)])
  have type: "type \<in> known_types" using assms(5) by (simp add: can_mirror_def)
  obtain m s1 where gen: "generate T type s = (m, s1)" by (cases "generate T type s")
  note g = generate_and_subscribe [OF type gen assms(2), of k]
  let ?a = "adopt (born T type s) (fake_for type (self s) k) k s"
  have "alive ?a P" by (rule adopt_alive [OF tracked_alive [OF assms(1,3)]])
  then have "deref ?a (Some P) = Inr P" by (simp add: deref_def)
  moreover have "node_attach q T P name (Proxy (next_proxy s)) ?a
      = Inr (?a\<lparr>tree := fst (t_attach T P name (Proxy (next_proxy s)) (born T type s))\<rparr>)"
    by (rule mirror_attach [OF assms(1,3,4,5)]) (simp_all add: adopt_def)
  moreover have "client_subscribe_add_remove (Proxy (next_proxy s))
      (?a\<lparr>tree := fst (t_attach T P name (Proxy (next_proxy s)) (born T type s))\<rparr>)
    = Inr (mirrored T P name type k s)"
    using assms(2)
    by (simp add: client_subscribe_add_remove_def proxy_of_def adopt_def client_write_def dev_write_def
        mirrored_def)
  ultimately show ?thesis
    using parent gen g read_attach_packet [OF assms(6), of nid]
    by (auto simp: cmd_attach_def attach_packet_def Let_def)
qed

text \<open>A request for an id: the reader thread of the server answers it, and \<^verbatim>\<open>generate_nid\<close> takes the answer.\<close>

lemma nid_requested:
  assumes "is_server S" and "has_dev S" and "has_dev C" and "\<not> is_server C"
  defines "ask \<equiv> mk_package 0 CMD_GENERATE_NID []" and "rep \<equiv> mk_package (current_nid S) 0 []"
  shows "process_notification (Some (b, package_copy ask)) S
      = Inr (S\<lparr>current_nid := current_nid S + 1, dev_calls := dev_calls S @ [Reply_to b rep]\<rparr>)"
    and "generate_nid (C\<lparr>answers := [Some (received rep)]\<rparr>)
      = Inr (current_nid S, C\<lparr>answers := [], dev_calls := dev_calls C @ [Ask ask]\<rparr>)"
proof -
  show "process_notification (Some (b, package_copy ask)) S
      = Inr (S\<lparr>current_nid := current_nid S + 1, dev_calls := dev_calls S @ [Reply_to b rep]\<rparr>)"
    using assms(1,2)
    by (simp add: process_notification_def ask_def rep_def generate_nid_def dev_reply_def package_new_mk vec_mk_package)
  show "generate_nid (C\<lparr>answers := [Some (received rep)]\<rparr>)
      = Inr (current_nid S, C\<lparr>answers := [], dev_calls := dev_calls C @ [Ask ask]\<rparr>)"
    using assms(3,4) by (simp add: generate_nid_def ask_def rep_def dev_send_answer package_new_mk)
qed

text \<open>\<^verbatim>\<open>attach\<close> on a proxy that no node_sync listens to, with a child of the application that has no id yet.\<close>

lemma proxy_attach_sends:
  assumes "proxies s p = Some c" and "cn_client c = Some (self s)"
    and "t_children T (tree s) (Proxy p) name = None"
    and "t_attach T (Proxy p) name (App j) (tree s) = (t, [])"
    and "find_key (Some (App j)) (tracked s) = None" and "has_dev s1"
    and "generate_nid (s\<lparr>tree := t\<rparr>) = Inr (k, s1)"
    and "fits_int (type_name T t (App j))" and "fits_int (t_name T t (App j))"
  shows "node_attach q T (Proxy p) name (App j) s
    = Inr ((do_track_as (Some (App j)) k s1)\<lparr>dev_calls := dev_calls s1
        @ [Write (attach_packet (cn_nid c) (type_name T t (App j)) (t_name T t (App j)) k)]\<rparr>)"
proof -
  have "base_attach q T (Proxy p) name (App j) s = Inr (s\<lparr>tree := t\<rparr>)" using assms(4) by (simp add: base_attach_def)
  moreover have "node_nid (App j) (s\<lparr>tree := t\<rparr>) = Inr (k, do_track_as (Some (App j)) k s1)"
    using assms(5,7) by (simp add: node_nid_def get_nid_of_def do_track_def)
  then have "sync_attach T (cn_nid c) (App j) (s\<lparr>tree := t\<rparr>)
      = Inr ((do_track_as (Some (App j)) k s1)\<lparr>dev_calls := dev_calls s1
          @ [Write (attach_packet (cn_nid c) (type_name T t (App j)) (t_name T t (App j)) k)]\<rparr>)"
    using sync_attach_sends [of "s\<lparr>tree := t\<rparr>" "App j" k _ T "cn_nid c"] assms(6,8,9)
    by (simp add: alive_def do_track_as_def)
  ultimately show ?thesis
    using assms(1-3) by (simp add: node_attach_def client_attach_def proxy_of_def)
qed

lemma can_mirror_cong:
  "tree s' = tree s \<Longrightarrow> proxies s' = proxies s \<Longrightarrow> next_proxy s' = next_proxy s \<Longrightarrow> self s' = self s
     \<Longrightarrow> can_mirror T P name type s' = can_mirror T P name type s"
  using own_proxy_cong [of s' s] own_proxy_cong [of "s'\<lparr>tree := born T type s\<rparr>" "s\<lparr>tree := born T type s\<rparr>"]
  by (simp add: can_mirror_def adopter_def split: node_ref.splits)

text \<open>
  C14: a node attached below a proxy appears below the node the proxy stands for. When the client's
  application attaches a new node of its own to a proxy, the client asks the server for an id, which the
  server's reader thread answers; it puts the node into its table under that id and sends one packet.
  The server's handler makes a proxy of the right type for it under the same id, attaches it to its
  own node under the child's name, and asks to be told of the children of the new node. It holds for
  a child of a type a proxy can be made of, and for a proxy that no node_sync of the client listens to.
\<close>

theorem attached_node_mirrored:
  assumes "sync_ok C" and "has_dev C" and "\<not> is_server C"
    and "proxies C p = Some c" and "cn_client c = Some (self C)"
    and "t_children TC (tree C) (Proxy p) name = None"
    and "t_attach TC (Proxy p) name (App j) (tree C) = (t, [])"
    and "find_key (Some (App j)) (tracked C) = None"
    and "t_name TC t (App j) = name" and "type_name TC t (App j) = type"
    and "fits_int (wire_string type @ wire_string name @ bytes_u64 (current_nid S))"
    and "server_ok S" and "has_dev S" and "find_key (Some P) (tracked S) = Some (cn_nid c)"
    and "can_mirror TS P name type S"
  shows "\<exists>ask rep k S1 C' req S'.
      process_notification (Some (b, package_copy ask)) S = Inr S1 \<and> dev_calls S1 = dev_calls S @ [Reply_to b rep]
    \<and> node_attach q TC (Proxy p) name (App j) (C\<lparr>answers := [Some (received rep)]\<rparr>) = Inr C'
    \<and> dev_calls C' = dev_calls C @ [Ask ask, Write req] \<and> tree C' = t \<and> get_node k C' = Some (App j)
    \<and> process_package q TS a req S1 = Inr S' \<and> S' = mirrored TS P name type k S1
    \<and> get_node k S' = Some (Proxy (next_proxy S)) \<and> sync_ok S'"
proof -
  let ?k = "current_nid S"
  let ?ask = "mk_package 0 CMD_GENERATE_NID []" and ?rep = "mk_package ?k 0 []"
  let ?req = "attach_packet (cn_nid c) type name ?k"
  let ?C = "C\<lparr>answers := [Some (received ?rep)]\<rparr>"
  let ?C1 = "C\<lparr>tree := t, answers := [], dev_calls := dev_calls C @ [Ask ?ask]\<rparr>"
  let ?C' = "(do_track_as (Some (App j)) ?k ?C1)\<lparr>dev_calls := dev_calls ?C1 @ [Write ?req]\<rparr>"
  let ?S1 = "S\<lparr>current_nid := ?k + 1, dev_calls := dev_calls S @ [Reply_to b ?rep]\<rparr>"
  let ?S' = "mirrored TS P name type ?k ?S1"
  have S: "is_server S" "sync_ok S" "map_of (tracked S) ?k = None"
    using assms(12) by (auto simp: server_ok_def ids_counted_def)
  have fits: "fits_int type" "fits_int name" using assms(11) by auto
  have ask: "process_notification (Some (b, package_copy ?ask)) S = Inr ?S1"
    by (rule nid_requested(1) [OF S(1) assms(13,2,3)])
  have "generate_nid ((C\<lparr>tree := t\<rparr>)\<lparr>answers := [Some (received ?rep)]\<rparr>) = Inr (?k, ?C1)"
    using nid_requested(2) [OF S(1) assms(13), of "C\<lparr>tree := t\<rparr>"] assms(2,3) by simp
  moreover have "(C\<lparr>tree := t\<rparr>)\<lparr>answers := [Some (received ?rep)]\<rparr> = ?C\<lparr>tree := t\<rparr>" by (cases C) simp
  ultimately have "generate_nid (?C\<lparr>tree := t\<rparr>) = Inr (?k, ?C1)" by (simp only:)
  from proxy_attach_sends [OF _ _ _ _ _ _ this, where p = p and c = c and q = q and T = TC and name = name] assms(2,4-10) fits
  have sent: "node_attach q TC (Proxy p) name (App j) ?C = Inr ?C'" by simp
  have S1: "sync_ok ?S1" using S(2) by (subst sync_ok_cong [of _ S]) simp_all
  have "can_mirror TS P name type ?S1" using assms(15) by (subst can_mirror_cong [of _ S]) simp_all
  then have "cmd_attach q TS ?req ?S1 = Inr ?S'"
    using assms(11,13,14) S(3) by (intro cmd_attach_mirrors [OF S1]) simp_all
  then have run: "process_package q TS a ?req ?S1 = Inr ?S'"
    by (simp add: process_package_def cmd_defs attach_packet_def)
  have "get_node ?k ?C' = Some (App j)"
    using assms(1) smap.find_put [of "tracked C"] by (simp add: get_node_def do_track_as_def sync_ok_def)
  moreover have "get_node ?k ?S' = Some (Proxy (next_proxy S))"
    using S(2) smap.find_put [of "tracked S"] by (simp add: mirrored_def adopt_def get_node_def sync_ok_def)
  moreover have "sync_ok ?S'"
  proof -
    have "sync_ok (adopt t' (fake_for type (self ?S1) ?k) ?k ?S1)" for t'
      using S(3) by (intro sync_ok_adopt [OF S1]) simp
    then show ?thesis unfolding mirrored_def by (subst sync_ok_cong) simp_all
  qed
  ultimately show ?thesis using ask sent run
    by (intro exI [of _ ?ask] exI [of _ ?rep] exI [of _ ?k] exI [of _ ?S1] exI [of _ ?C'] exI [of _ ?req] exI [of _ ?S'])
      (simp add: do_track_as_def)
qed

text \<open>The client of the sample, which has fetched the root's child \<^verbatim>\<open>a\<close>, attaches a node \<^verbatim>\<open>b\<close> to its proxy.\<close>

theorem attached_node_mirrored_witness:
  "\<exists>ask rep k S1 C' req S'. process_notification (Some (5, package_copy ask)) fetched_server = Inr S1
    \<and> node_attach plain_qt samples (Proxy 0) ''b'' (App 8) (fetched_client\<lparr>answers := [Some (received rep)]\<rparr>) = Inr C'
    \<and> dev_calls C' = [Ask ask, Write req]
    \<and> process_package plain_qt samples 6 req S1 = Inr S' \<and> get_node k S' = Some (Proxy 0)"
proof -
  let ?c = "\<lparr>cn_nid = 1, cn_client = Some 2, cn_fake = fake_for type_int 2 1\<rparr>"
  let ?t = "add_kid (Proxy 0) ''b'' (App 8) (tree fetched_client)"
  have C: "\<not> is_server fetched_client" "proxies fetched_client 0 = Some ?c" "cn_client ?c = Some (self fetched_client)"
    "t_children samples (tree fetched_client) (Proxy 0) ''b'' = None"
    "t_attach samples (Proxy 0) ''b'' (App 8) (tree fetched_client) = (?t, [])"
    "find_key (Some (App 8)) (tracked fetched_client) = None"
    "t_name samples ?t (App 8) = ''b''" "type_name samples ?t (App 8) = []"
    by (simp_all add: fetched_client_def adopt_def sample_client_def sync_new_def sample_defs type_name_def)
  have ok: "sync_ok fetched_client"
  proof -
    have "sync_ok sample_client"
      by (auto simp: sample_client_def sync_new_def sync_ok_def sorted_map_def addresses_ok_def own_def)
    then show ?thesis
      unfolding fetched_client_def by (intro sync_ok_adopt) (simp_all add: sample_client_def sync_new_def)
  qed
  have S: "find_key (Some (App 1)) (tracked fetched_server) = Some (cn_nid ?c)"
    "can_mirror samples (App 1) ''b'' [] fetched_server" "next_proxy fetched_server = 0"
    by (simp_all add: fetched_server_facts can_mirror_def known_types_def adopter_def attach_events_ok_def
        fetched_server_def do_track_as_def sample_state)
  have "fits_int (wire_string [] @ wire_string ''b'' @ bytes_u64 (current_nid fetched_server))" by simp
  from attached_node_mirrored [OF ok fetched_client_facts(2) C(1-8) this fetched_server_ok fetched_server_facts(2)
      S(1,2), of 5 plain_qt 6, unfolded fetched_client_facts(6) S(3) append.simps]
  show ?thesis by (elim exE conjE) (intro exI conjI)
qed

end
