(* ===== verification/Session_Limits.thy ===== *)
theory Session_Limits
  imports Session_Tree
begin

text \<open>
  Walks through remote paths and subscriptions, and where the protocol loses something: values and types
  that do not cross the connection, requests that fail, and nodes that are reached twice.
\<close>

section \<open>Paths\<close>

lemma strip_slashes_length: "length (strip_slashes path) \<le> length path"
  by (simp add: strip_slashes_def Let_def length_dropWhile_le)

text \<open>Splitting a path that is not empty leaves a shorter rest.\<close>

definition split_law :: "('t, 'qs, 'qb) tree_api \<Rightarrow> bool" where
  "split_law T \<longleftrightarrow> (\<forall>path. path \<noteq> [] \<longrightarrow> length (snd (t_split T path)) < length path)"

text \<open>One level of the walk needs fuel only for the rest of the path.\<close>

lemma client_get_level:
  assumes "\<And>m s'. client_get q T fuel m (snd (t_split T (strip_slashes path))) create s' \<noteq> None"
  shows "client_get q T (Suc fuel) n path create s \<noteq> None"
  using assms by (auto simp: Let_def split: option.splits sum.splits prod.splits bool.splits)

lemma client_get_end: "strip_slashes path = [] \<Longrightarrow> client_get q T (Suc fuel) n path create s \<noteq> None"
  by (auto split: option.splits)

text \<open>
  C35: walking a path through proxies ends: each level consumes a part of the path, so one more level
  than the path has characters is enough, whatever the peer answers.
\<close>

theorem client_get_terminates:
  assumes "split_law T" and "length path < fuel"
  shows "client_get q T fuel n path create s \<noteq> None"
  using assms(2)
proof (induction fuel arbitrary: n path s)
  case 0
  then show ?case by simp
next
  case (Suc fuel)
  show ?case
  proof (cases "strip_slashes path = []")
    case True
    then show ?thesis by (rule client_get_end)
  next
    case False
    with assms(1) have "length (snd (t_split T (strip_slashes path))) < length (strip_slashes path)"
      unfolding split_law_def by blast
    with strip_slashes_length [of path] Suc.prems show ?thesis
      by (intro client_get_level Suc.IH) linarith
  qed
qed

lemma split_path_shorter: "path \<noteq> [] \<Longrightarrow> length (snd (split_path path)) < length path"
proof (induction path rule: split_path.induct)
  case 1
  then show ?case by simp
next
  case (2 c cs)
  show ?case
  proof (cases "c = CHR ''/'' \<and> cs \<noteq> []")
    case True
    with 2 show ?thesis by auto
  next
    case False
    then show ?thesis using length_dropWhile_le [of "\<lambda>c. c \<noteq> CHR ''/''" cs] by auto
  qed
qed

theorem client_get_terminates_witness:
  "client_get plain_qt samples 4 (Proxy 0) ''a/b'' True fetched_client \<noteq> None"
proof (rule client_get_terminates)
  show "split_law samples" using split_path_shorter by (simp add: split_law_def sample_tree_def)
qed simp

section \<open>Subscriptions\<close>

text \<open>
  The listeners of the application on the property of a proxy come and go; the packets the proxy
  sends keep the peer's view of it: subscribed or not.
\<close>

datatype listener_op = Add_listener | Remove_listener

fun listener_step ::
  "('t, 'qs, 'qb) tree_api \<Rightarrow> node_ref \<Rightarrow> listener_op \<Rightarrow> 't sync \<Rightarrow> fault + 't sync" where
  "listener_step T n Add_listener s = prop_add_listener T n s"
| "listener_step T n Remove_listener s = prop_remove_listener T n s"

fun listener_run ::
  "('t, 'qs, 'qb) tree_api \<Rightarrow> node_ref \<Rightarrow> listener_op list \<Rightarrow> 't sync \<Rightarrow> fault + 't sync" where
  "listener_run T n [] s = Inr s"
| "listener_run T n (x # xs) s = andThen (listener_step T n x s) (listener_run T n xs)"

text \<open>What the peer makes of the packets: whether the node is subscribed in the end.\<close>

fun subscribed :: "nid \<Rightarrow> bool \<Rightarrow> dev_call list \<Rightarrow> bool" where
  "subscribed nid b [] = b"
| "subscribed nid b (Write p # cs) =
     subscribed nid (if p = prop_request nid CMD_SUBSCRIBE then True
                     else if p = prop_request nid CMD_UNSUBSCRIBE then False else b) cs"
| "subscribed nid b (_ # cs) = subscribed nid b cs"

lemma subscribed_append: "subscribed nid b (cs @ ds) = subscribed nid (subscribed nid b cs) ds"
  by (induction nid b cs rule: subscribed.induct) simp_all

text \<open>The listener list of the tree.\<close>

definition listener_laws :: "('t, 'qs, 'qb) tree_api \<Rightarrow> bool" where
  "listener_laws T \<longleftrightarrow>
     (\<forall>n t. t_prop_listeners T (t_listen_prop T n t) n = Suc (t_prop_listeners T t n)) \<and>
     (\<forall>n t. t_prop_listeners T (t_unlisten_prop T n t) n = t_prop_listeners T t n - 1)"

lemma listener_step_subscribes:
  assumes "listener_laws T" and "fake_of s n = Some f" and "fk_nid f = Some nid"
    and "fk_client f = Some (self s)" and "has_dev s"
  shows "\<exists>s' cs. listener_step T n x s = Inr s' \<and> dev_calls s' = dev_calls s @ cs
    \<and> (subscribed nid (t_prop_listeners T (tree s) n > 0) cs \<longleftrightarrow> t_prop_listeners T (tree s') n > 0)
    \<and> fake_of s' n = Some f \<and> self s' = self s \<and> has_dev s'"
proof (cases x)
  case Add_listener
  let ?t = "t_listen_prop T n (tree s)"
  let ?cs = "if t_prop_listeners T ?t n = 1 then [Write (prop_request nid CMD_SUBSCRIBE)] else []"
  let ?s' = "s\<lparr>tree := ?t, dev_calls := dev_calls s @ ?cs\<rparr>"
  have count: "t_prop_listeners T ?t n = Suc (t_prop_listeners T (tree s) n)"
    using assms(1) unfolding listener_laws_def by blast
  have "fake_of (s\<lparr>tree := ?t\<rparr>) n = Some f" using fake_of_cong [of "s\<lparr>tree := ?t\<rparr>" s] assms(2) by simp
  then have "listener_step T n x s = Inr ?s'"
    using assms(3-5) Add_listener
    by (simp add: prop_add_listener_def client_write_def dev_write_def)
  moreover have "fake_of ?s' n = Some f" using fake_of_cong [of ?s' s] assms(2) by simp
  ultimately show ?thesis using count assms(5) by (intro exI [of _ ?s'] exI [of _ ?cs]) simp
next
  case Remove_listener
  let ?t = "t_unlisten_prop T n (tree s)"
  let ?cs = "if t_prop_listeners T ?t n = 0 then [Write (prop_request nid CMD_UNSUBSCRIBE)] else []"
  let ?s' = "s\<lparr>tree := ?t, dev_calls := dev_calls s @ ?cs\<rparr>"
  have count: "t_prop_listeners T ?t n = t_prop_listeners T (tree s) n - 1"
    using assms(1) unfolding listener_laws_def by blast
  have "fake_of (s\<lparr>tree := ?t\<rparr>) n = Some f" using fake_of_cong [of "s\<lparr>tree := ?t\<rparr>" s] assms(2) by simp
  then have "listener_step T n x s = Inr ?s'"
    using assms(3-5) Remove_listener
    by (simp add: prop_remove_listener_def client_write_def dev_write_def)
  moreover have "fake_of ?s' n = Some f" using fake_of_cong [of ?s' s] assms(2) by simp
  moreover have "subscribed nid b [Write (prop_request nid CMD_UNSUBSCRIBE)] = False" for b
    by (simp add: prop_request_mk cmd_defs)
  ultimately show ?thesis using count assms(5) by (intro exI [of _ ?s'] exI [of _ ?cs]) auto
qed

text \<open>
  C31: the peer is subscribed exactly as long as the proxy has listeners: after any sequence of added and
  removed listeners, the last of the packets sent for the proxy's id says subscribe if a listener is
  left and unsubscribe if none is.
\<close>

theorem subscription_follows_listeners:
  assumes "listener_laws T" and "fake_of s n = Some f" and "fk_nid f = Some nid"
    and "fk_client f = Some (self s)" and "has_dev s"
  shows "\<exists>s' cs. listener_run T n xs s = Inr s' \<and> dev_calls s' = dev_calls s @ cs
    \<and> (subscribed nid (t_prop_listeners T (tree s) n > 0) cs \<longleftrightarrow> t_prop_listeners T (tree s') n > 0)"
  using assms(2,4,5)
proof (induction xs arbitrary: s)
  case Nil
  then show ?case by simp
next
  case (Cons x xs)
  obtain s1 cs where step: "listener_step T n x s = Inr s1" "dev_calls s1 = dev_calls s @ cs"
    "subscribed nid (t_prop_listeners T (tree s) n > 0) cs \<longleftrightarrow> t_prop_listeners T (tree s1) n > 0"
    and s1: "fake_of s1 n = Some f" "self s1 = self s" "has_dev s1"
    using listener_step_subscribes [OF assms(1) Cons.prems(1) assms(3) Cons.prems(2,3)] by metis
  obtain s2 ds where rest: "listener_run T n xs s1 = Inr s2" "dev_calls s2 = dev_calls s1 @ ds"
    "subscribed nid (t_prop_listeners T (tree s1) n > 0) ds \<longleftrightarrow> t_prop_listeners T (tree s2) n > 0"
    using Cons.IH [OF s1(1)] s1 Cons.prems(2) by metis
  show ?case
    using step rest by (intro exI [of _ s2] exI [of _ "cs @ ds"]) (simp add: subscribed_append)
qed

theorem subscription_follows_listeners_witness:
  "\<exists>s'. listener_run samples (Proxy 0) [Add_listener, Add_listener, Remove_listener, Remove_listener] fetched_client
      = Inr s' \<and> (subscribed 1 False (dev_calls s') \<longleftrightarrow> t_prop_listeners samples (tree s') (Proxy 0) > 0)"
proof -
  have "listener_laws samples"
    by (simp add: listener_laws_def sample_tree_def count_list_remove1)
  moreover have "fk_nid int_fake = Some 1" "fk_client int_fake = Some (self fetched_client)"
    by (simp_all add: int_fake_def fetched_client_facts)
  moreover have "t_prop_listeners samples (tree fetched_client) (Proxy 0) = 0"
    by (simp add: fetched_client_def adopt_def sample_client_def sync_new_def sample_defs)
  ultimately show ?thesis
    using subscription_follows_listeners [of samples fetched_client "Proxy 0" int_fake 1
        "[Add_listener, Add_listener, Remove_listener, Remove_listener]"]
      fetched_client_facts(2,3,6) by (auto simp del: listener_run.simps)
qed

section \<open>What does not cross the connection\<close>

lemma fetch_node_unknown_type:
  assumes "has_dev s" and "fits_int name" and "fits_int (wire_string type @ post)" and "type \<notin> known_types"
  shows "fetch_node T nid name (s\<lparr>answers := [Some (mk_package k CMD_AT_SUCCESS (wire_string type @ post))]\<rparr>)
    = Inr (None, s\<lparr>answers := [], dev_calls := dev_calls s @ [Ask (mk_package nid CMD_AT (wire_string name))]\<rparr>)"
proof -
  let ?s = "s\<lparr>answers := [], dev_calls := dev_calls s @ [Ask (mk_package nid CMD_AT (wire_string name))]\<rparr>"
  have "generate T type ?s = (None, ?s)" using assms(4) generate_None by metis
  with assms show ?thesis
    by (simp add: fetch_node_def package_new_mk append_string_mk dev_send_answer read_string_only cmd_defs)
qed

text \<open>
  A property of type \<^verbatim>\<open>float\<close> cannot be reached from the other side, although both sides can
  serialize its value: the server finds it, tracks it and announces its type, but the table of proxy
  factories has no entry for the type, so the fetch gives a null pointer.
\<close>

theorem float_property_unreachable:
  assumes "server_ok S" and "has_dev S"
    and "get_node nid S = Some (App i)" and "t_at TS (App i) name (tree S) = (Some (App j), tr)"
    and "fits_wire (wire_string name)" and "type_name TS tr (App j) = type_float" and "has_dev C"
  shows "\<exists>rep S' C' k. answered q TS a (mk_package nid CMD_AT (wire_string name)) S rep S'
    \<and> get_cmd rep = CMD_AT_SUCCESS \<and> get_node k S' = Some (App j)
    \<and> fetch_node TC nid name (C\<lparr>answers := [Some (received rep)]\<rparr>) = Inr (None, C') \<and> tracked C' = tracked C
    \<and> machine_init type_float = Some (Plain PFloat)"
proof -
  let ?req = "mk_package nid CMD_AT (wire_string name)"
  have fits: "fits_wire (wire_string type_float)" by (simp add: type_names)
  obtain k S' where S': "answered q TS a ?req S (mk_package k CMD_AT_SUCCESS (wire_string type_float)) S'"
    "get_node k S' = Some (App j)"
    using server_answers_at [OF assms(1-5), unfolded assms(6), OF fits] .
  let ?rep = "mk_package k CMD_AT_SUCCESS (wire_string type_float)"
  have "type_float \<notin> known_types" by (simp add: known_types_def)
  then have "fetch_node TC nid name (C\<lparr>answers := [Some (received ?rep)]\<rparr>)
      = Inr (None, C\<lparr>answers := [], dev_calls := dev_calls C @ [Ask ?req]\<rparr>)"
    using fetch_node_unknown_type [of C name type_float "replicate 18 0" TC nid k] assms(5,7) fits by simp
  with S' show ?thesis by fastforce
qed

theorem float_property_unreachable_witness:
  "\<exists>rep S' C'. answered plain_qt samples 5 (mk_package 0 CMD_AT (wire_string ''a''))
      (sample_server\<lparr>tree := sample_nodes\<lparr>sm_prop := [App 1 \<mapsto> \<lparr>prop_type = type_float, prop_value = VFloat 0\<rparr>]\<rparr>\<rparr>) rep S'
    \<and> fetch_node samples 0 ''a'' (sample_client\<lparr>answers := [Some (received rep)]\<rparr>) = Inr (None, C')"
proof -
  let ?t = "sample_nodes\<lparr>sm_prop := [App 1 \<mapsto> \<lparr>prop_type = type_float, prop_value = VFloat 0\<rparr>]\<rparr>"
  let ?S = "sample_server\<lparr>tree := ?t\<rparr>"
  have "server_ok ?S"
    using sample_server_ok sync_ok_cong [of ?S sample_server] by (simp add: server_ok_def ids_counted_def)
  moreover have "has_dev ?S" "get_node 0 ?S = Some (App 0)" "has_dev sample_client"
    by (simp_all add: sample_server_def sample_client_def get_node_def)
  moreover have "t_at samples (App 0) ''a'' (tree ?S) = (Some (App 1), ?t)"
    "type_name samples ?t (App 1) = type_float" "fits_wire (wire_string ''a'')"
    by (simp_all add: sample_state type_name_def)
  ultimately show ?thesis
    using float_property_unreachable [of ?S 0 0 samples "''a''" 1 ?t sample_client plain_qt 5 samples] by blast
qed

text \<open>
  An empty string cannot be set through a proxy: the value is stored in the proxy, but its
  serialized form has no bytes, and then no request is sent.
\<close>

theorem empty_string_not_sent:
  assumes "t_store T (Proxy i) (Set_value (VQString e)) (tree s) = (t, [])" and "qs_to_std q e = []"
    and "fake_of s (Proxy i) = Some f" and "fk_client f = Some (self s)" and "\<not> fk_deserialization f"
    and "t_prop T t (Proxy i) = Some p" and "prop_type p = type_QString"
  shows "store_value q T (Proxy i) (Set_value (VQString e)) s = Inr (s\<lparr>tree := t\<rparr>)"
proof -
  have "fake_of (s\<lparr>tree := t\<rparr>) (Proxy i) = Some f"
    using fake_of_cong [of "s\<lparr>tree := t\<rparr>" s] assms(3) by simp
  with assms show ?thesis
    by (simp add: store_value_def store_with_def request_set_def request_prop_set_value_def set_value_request_def
        machine_serialize_raw_def)
qed

theorem empty_string_not_sent_witness:
  "\<exists>s'. store_value plain_qt samples (Proxy 0) (Set_value (VQString []))
      (adopt (born samples type_QString sample_client) (fake_for type_QString 2 1) 1 sample_client) = Inr s'
    \<and> dev_calls s' = []"
proof -
  let ?s = "adopt (born samples type_QString sample_client) (fake_for type_QString 2 1) 1 sample_client"
  let ?t = "fst (t_store samples (Proxy 0) (Set_value (VQString [])) (tree ?s))"
  have "t_store samples (Proxy 0) (Set_value (VQString [])) (tree ?s) = (?t, [])"
    "fake_of ?s (Proxy 0) = Some int_fake" "fk_client int_fake = Some (self ?s)" "\<not> fk_deserialization int_fake"
    "t_prop samples ?t (Proxy 0) = Some \<lparr>prop_type = type_QString, prop_value = VQString []\<rparr>"
    by (simp_all add: adopt_def sample_client_def sync_new_def sample_defs fake_of_def proxy_of_def fake_for_def
        int_fake_def)
  from empty_string_not_sent [OF this(1) _ this(2-5)]
  have "store_value plain_qt samples (Proxy 0) (Set_value (VQString [])) ?s = Inr (?s\<lparr>tree := ?t\<rparr>)"
    by (simp add: plain_qt_def)
  then show ?thesis by (intro exI [of _ "?s\<lparr>tree := ?t\<rparr>"]) (simp add: adopt_def sample_client_def sync_new_def)
qed

section \<open>Failed and repeated requests\<close>

text \<open>
  A fetch that fails because the connection is closed is taken for a success: the unset reply has
  no error code, an empty type and the id 0, so the caller gets an untyped node, and the entry of the
  root in the table is replaced by it.
\<close>

theorem failed_fetch_gives_node:
  assumes "has_dev s" and "fits_int name" and "sorted_map (tracked s)"
  shows "\<exists>s'. fetch_node T nid name (s\<lparr>answers := [None]\<rparr>) = Inr (Some (Proxy (next_proxy s)), s')
    \<and> get_node 0 s' = Some (Proxy (next_proxy s)) \<and> fake_of s' (Proxy (next_proxy s)) = None"
proof -
  let ?s = "s\<lparr>answers := [], dev_calls := dev_calls s @ [Ask (mk_package nid CMD_AT (wire_string name))]\<rparr>"
  have type: "read_string (mk_package 0 0 []) [] 0 = Inr ([], 4)"
  proof -
    have "read_u32 (mk_package 0 0 []) 0 = Inr 0" using read_u32_short [of "[]" 0 0 0] by simp
    moreover have "package_read (mk_package 0 0 []) (size_of_int 4) 0 = Inr None"
      using package_read_mk [of 4 0 "[]" 0 0] size_of_int_of_nat [of 4] by simp
    ultimately show ?thesis by (simp add: read_string_def bytes_str_def)
  qed
  obtain m s2 where gen: "generate T [] ?s = (m, s2)" by (cases "generate T [] ?s")
  then obtain cl where cl: "m = Some cl" by (cases m) (auto simp: generate_None known_types_def)
  have g: "cl = Proxy (next_proxy s)" "do_track_as (Some (Proxy (next_proxy s))) 0
      (proxy_set_nid 0 (Proxy (next_proxy s)) s2) = adopt (born T [] s) None 0 ?s"
    using generate_adopt [OF gen [unfolded cl], of 0] by (auto simp: fake_for_def)
  have "proxy_set_client (Some (self (adopt (born T [] s) None 0 ?s))) (Proxy (next_proxy s))
      (adopt (born T [] s) None 0 ?s) = adopt (born T [] s) None 0 ?s"
    using proxy_set_client_adopt [of ?s "born T [] s" None 0] by (simp add: adopt_def)
  then have "fetch_node T nid name (s\<lparr>answers := [None]\<rparr>)
      = Inr (Some (Proxy (next_proxy s)), adopt (born T [] s) None 0 ?s)"
    using assms(1,2) gen cl g type
    by (simp add: fetch_node_def package_new_mk append_string_mk dev_send_failure cmd_defs Let_def)
  then show ?thesis
    using smap.find_put [OF assms(3)] by (simp add: adopt_def get_node_def fake_of_def proxy_of_def)
qed

theorem failed_fetch_gives_node_witness:
  "\<exists>s'. fetch_node samples 0 ''a'' (fetched_client\<lparr>answers := [None]\<rparr>) = Inr (Some (Proxy 1), s')
    \<and> get_node 0 s' = Some (Proxy 1)"
proof -
  have "has_dev fetched_client" "fits_int ''a''" "sorted_map (tracked fetched_client)" "next_proxy fetched_client = 1"
    by (simp_all add: fetched_client_def adopt_def sample_client_def sync_new_def sorted_map_def)
  with failed_fetch_gives_node [OF this(1-3), of samples 0] show ?thesis by auto
qed

text \<open>
  Fetching a node a second time, as a tree in which one node has two parents invites, orphans its
  first proxy: the new proxy takes over the id in the table, the first one stays in the process with
  the id and the connection it had, and the clean-up of the connection no longer deletes it.
\<close>

theorem second_fetch_orphans_proxy:
  assumes "sync_ok s" and "own s i c" and "has_dev s" and "fits_int name" and "fits_wire (wire_string type)"
    and "type \<in> known_types" and "root_node s \<noteq> Some (Proxy i)"
  shows "\<exists>s'. fetch_node T nid name
        (s\<lparr>answers := [Some (received (mk_package (cn_nid c) CMD_AT_SUCCESS (wire_string type)))]\<rparr>)
      = Inr (Some (Proxy (next_proxy s)), s')
    \<and> own s' i c \<and> find_key (Some (Proxy i)) (tracked s') = None \<and> \<not> sync_ok s'"
proof -
  let ?k = "cn_nid c"
  let ?s = "s\<lparr>answers := [], dev_calls := dev_calls s @ [Ask (mk_package nid CMD_AT (wire_string name))]\<rparr>"
  let ?s' = "adopt (born T type s) (fake_for type (self s) ?k) ?k ?s"
  have sorted: "sorted_map (tracked s)" using assms(1) by (simp add: sync_ok_def)
  have new: "i \<noteq> next_proxy s" using assms(1,2) by (auto simp: sync_ok_def addresses_ok_def own_def)
  have own: "own ?s' i c" using assms(2) new by (simp add: own_def adopt_def)
  have find: "map_of (tracked ?s') = (map_of (tracked s))(?k \<mapsto> Some (Proxy (next_proxy s)))"
    using smap.find_put [OF sorted] by (simp add: adopt_def)
  have "map_of (tracked ?s') k \<noteq> Some (Some (Proxy i))" for k
  proof
    assume "map_of (tracked ?s') k = Some (Some (Proxy i))"
    with find new have k: "k \<noteq> ?k" "map_of (tracked s) k = Some (Some (Proxy i))"
      by (auto split: if_splits)
    then have "entry_ok s k (Some (Proxy i))" using assms(1) unfolding sync_ok_def by blast
    with assms(2) k(1) show False by (simp add: own_def)
  qed
  then have lost: "find_key (Some (Proxy i)) (tracked ?s') = None"
    using smap.rev_find_Some [of "tracked ?s'" "Some (Proxy i)"] smap.invar_put [OF sorted]
    by (cases "find_key (Some (Proxy i)) (tracked ?s')") (auto simp: adopt_def)
  have "\<not> sync_ok ?s'"
    using own \<open>\<And>k. map_of (tracked ?s') k \<noteq> Some (Some (Proxy i))\<close> own_tracked by blast
  moreover have "fetch_node T nid name
      (s\<lparr>answers := [Some (received (mk_package ?k CMD_AT_SUCCESS (wire_string type)))]\<rparr>)
      = Inr (Some (Proxy (next_proxy s)), ?s')"
    using fetch_node_reply [of s name type "replicate 18 0" T nid ?k] assms(3-6) by simp
  ultimately show ?thesis using own lost by blast
qed

theorem second_fetch_orphans_proxy_witness:
  "\<exists>s'. fetch_node samples 0 ''a''
      (sample_attached\<lparr>answers := [Some (received (mk_package 1 CMD_AT_SUCCESS (wire_string type_int)))]\<rparr>)
    = Inr (Some (Proxy 1), s') \<and> \<not> sync_ok s'"
proof -
  have "has_dev sample_attached" "fits_int ''a''" "fits_wire (wire_string type_int)" "type_int \<in> known_types"
    "root_node sample_attached \<noteq> Some (Proxy 0)" "next_proxy sample_attached = 1"
    by (simp_all add: sample_attached_def adopt_def sample_server_def sync_new_def type_names known_types_def)
  then show ?thesis
    using second_fetch_orphans_proxy [OF sample_attached_ok sample_attached_own, of "''a''" type_int samples 0]
    by auto
qed

section \<open>After the connection has closed\<close>

text \<open>
  A property that changes after its connection has closed is published under an id that was never set.
  The clean-up empties the table, but the node_sync stays registered as a listener; \<^verbatim>\<open>updated\<close> then looks the property
  up in vain, does not test the result, and uses the variable.
\<close>

theorem update_after_close_unset_id:
  assumes "stream_closed T get_root s = Some (Inr s')"
  shows "updated q T (App i) s' = Inl Uninitialised"
proof -
  have "tracked s' = []" if "cleanup_children T get_root fuel s = Some (Inr s')" for fuel s
    using that by (induction T get_root fuel s rule: cleanup_children.induct) (auto split: if_splits sum.splits)
  then have "tracked s' = []" using assms by (simp add: stream_closed_def del: cleanup_children.simps)
  then show ?thesis by (simp add: updated_def updated_with_def get_nid_of_def)
qed

theorem update_after_close_unset_id_witness:
  "\<exists>s'. stream_closed samples base_get_root sample_server = Some (Inr s')
     \<and> updated plain_qt samples (App 1) s' = Inl Uninitialised"
proof -
  have "\<not> doomed sample_server n" for n by (simp add: doomed_own own_def sample_server_def sync_new_def)
  moreover have "root_known samples base_get_root sample_server" by (simp add: root_known_def)
  ultimately obtain s' where "stream_closed samples base_get_root sample_server = Some (Inr s')"
    using sync_ok_closed [OF sample_server_sync sample_owner_laws sample_server_owners] by metis
  with update_after_close_unset_id [OF this, of plain_qt 1] show ?thesis by blast
qed

end
