(* ===== verification/Session_History.thy ===== *)
theory Session_History
  imports Session_Limits
begin

text \<open>
  What holds over many messages of a connection: a sequence of published values leaves the proxy with
  the last one, a value that was set through a proxy is the value the proxy reads next, and
  however many nodes are fetched and tracked, every proxy stands for the node its id names on the server.
\<close>

section \<open>A sequence of published values\<close>

text \<open>
  The tree: storing into a property that has a listener notifies it, about this property only, and
  does not change who listens.
\<close>

definition publish_laws :: "('t, 'qs, 'qb) tree_api \<Rightarrow> node_ref \<Rightarrow> bool" where
  "publish_laws T n \<longleftrightarrow>
     (\<forall>t call. t_prop_listeners T t n > 0 \<longrightarrow>
        set (snd (t_store T n call t)) = {Updated n}
        \<and> t_prop_listeners T (fst (t_store T n call t)) n = t_prop_listeners T t n)"

text \<open>A node_sync that does not listen to a property is not notified later either.\<close>

definition silence_lasts :: "('t, 'qs, 'qb) tree_api \<Rightarrow> node_ref \<Rightarrow> bool" where
  "silence_lasts T n \<longleftrightarrow>
     (\<forall>t call. silent_at T n t \<longrightarrow> silent_at T n (fst (t_notify_change T n (fst (t_store T n call t)))))"

text \<open>The application stores one value after the other.\<close>

fun publish ::
  "('qs, 'qb) qt_api \<Rightarrow> ('t, 'qs, 'qb) tree_api \<Rightarrow> node_ref \<Rightarrow> ('qs, 'qb) pvalue list \<Rightarrow> 't sync
     \<Rightarrow> fault + 't sync" where
  "publish q T n [] s = Inr s"
| "publish q T n (v # vs) s = andThen (store_value q T n (Set_value v) s) (publish q T n vs)"

text \<open>A value that a property of type \<open>type\<close> can hold and a packet can carry.\<close>

definition sendable :: "('qs, 'qb) qt_api \<Rightarrow> string \<Rightarrow> ('qs, 'qb) pvalue \<Rightarrow> bool" where
  "sendable q type v \<longleftrightarrow> value_type v = type \<and> no_nul q v
     \<and> fits_int (wire_value (machine_serialize q machine_init \<lparr>prop_type = type, prop_value = v\<rparr>))"

abbreviation value_packet where
  "value_packet q nid type v \<equiv> update_packet nid (machine_serialize q machine_init \<lparr>prop_type = type, prop_value = v\<rparr>)"

lemma publish_one:
  assumes "publish_laws T (App j)" and "t_prop_listeners T (tree s) (App j) > 0" and "value_laws T"
    and "find_key (Some (App j)) (tracked s) = Some nid" and "t_prop T (tree s) (App j) = Some sv"
    and "sendable q (prop_type sv) v" and "has_dev s"
  shows "\<exists>s' n. store_value q T (App j) (Set_value v) s = Inr s'
    \<and> dev_calls s' = dev_calls s @ replicate (Suc n) (Write (value_packet q nid (prop_type sv) v))
    \<and> t_prop T (tree s') (App j) = Some (sv\<lparr>prop_value := v\<rparr>) \<and> t_prop_listeners T (tree s') (App j) > 0
    \<and> tracked s' = tracked s \<and> has_dev s'"
proof -
  obtain t evs where t: "t_store T (App j) (Set_value v) (tree s) = (t, evs)"
    by (cases "t_store T (App j) (Set_value v) (tree s)")
  then have evs: "set evs = {Updated (App j)}" and lst: "t_prop_listeners T t (App j) > 0"
    using assms(1,2) unfolding publish_laws_def by (metis fst_conv snd_conv)+
  then obtain n where n: "length evs = Suc n" by (cases evs) auto
  have val: "t_prop T t (App j) = Some (sv\<lparr>prop_value := v\<rparr>)"
    using store_law [OF assms(3,5), of "Set_value v"] t by simp
  have whole: "\<lparr>prop_type = prop_type sv, prop_value = v\<rparr> = sv\<lparr>prop_value := v\<rparr>" by simp
  let ?s = "s\<lparr>tree := t\<rparr>"
  let ?s' = "?s\<lparr>dev_calls := dev_calls s @ replicate (Suc n) (Write (value_packet q nid (prop_type sv) v))\<rparr>"
  have "handle_events q T evs ?s = Inr ?s'"
    using update_events [of evs j ?s nid T "sv\<lparr>prop_value := v\<rparr>" q] evs n val assms(4,6,7)
    by (simp add: sendable_def whole)
  then have "store_value q T (App j) (Set_value v) s = Inr ?s'" using t by (simp add: store_value_def store_with_def)
  with val lst assms(7) show ?thesis by (intro exI [of _ ?s'] exI [of _ n]) simp
qed

text \<open>The packets: each value at least once, in order.\<close>

inductive carries :: "('qs, 'qb) qt_api \<Rightarrow> nid \<Rightarrow> string \<Rightarrow> ('qs, 'qb) pvalue list \<Rightarrow> package list \<Rightarrow> bool"
  for q nid type where
  none: "carries q nid type [] []"
| one: "carries q nid type vs ps
    \<Longrightarrow> carries q nid type (v # vs) (replicate (Suc n) (value_packet q nid type v) @ ps)"

lemma publish_all:
  assumes "publish_laws T (App j)" and "value_laws T"
    and "t_prop_listeners T (tree s) (App j) > 0" and "find_key (Some (App j)) (tracked s) = Some nid"
    and "t_prop T (tree s) (App j) = Some sv" and "list_all (sendable q (prop_type sv)) vs" and "has_dev s"
  shows "\<exists>s' ps. publish q T (App j) vs s = Inr s' \<and> dev_calls s' = dev_calls s @ map Write ps
    \<and> carries q nid (prop_type sv) vs ps
    \<and> t_prop T (tree s') (App j) = Some (if vs = [] then sv else sv\<lparr>prop_value := last vs\<rparr>)"
  using assms(3-7)
proof (induction vs arbitrary: s sv)
  case Nil
  then show ?case by (auto intro: carries.none)
next
  case (Cons v vs)
  from Cons.prems(4) have ok: "sendable q (prop_type sv) v" "list_all (sendable q (prop_type sv)) vs" by simp_all
  obtain s1 n where one: "store_value q T (App j) (Set_value v) s = Inr s1"
    and s1: "dev_calls s1 = dev_calls s @ replicate (Suc n) (Write (value_packet q nid (prop_type sv) v))"
      "t_prop T (tree s1) (App j) = Some (sv\<lparr>prop_value := v\<rparr>)" "t_prop_listeners T (tree s1) (App j) > 0"
      "tracked s1 = tracked s" "has_dev s1"
    using publish_one [OF assms(1) Cons.prems(1) assms(2) Cons.prems(2,3) ok(1) Cons.prems(5)] by blast
  from Cons.IH [OF s1(3) _ s1(2) _ s1(5)] s1(4) Cons.prems(2) ok(2) obtain s' ps where
    rest: "publish q T (App j) vs s1 = Inr s'" "dev_calls s' = dev_calls s1 @ map Write ps"
      "carries q nid (prop_type sv) vs ps"
      "t_prop T (tree s') (App j) = Some (if vs = [] then sv\<lparr>prop_value := v\<rparr> else sv\<lparr>prop_value := last vs\<rparr>)"
    by auto
  have "carries q nid (prop_type sv) (v # vs) (replicate (Suc n) (value_packet q nid (prop_type sv) v) @ ps)"
    by (rule carries.one [OF rest(3)])
  with one rest s1(1) show ?case
    by (intro exI [of _ s'] exI [of _ "replicate (Suc n) (value_packet q nid (prop_type sv) v) @ ps"])
      (simp del: replicate_Suc)
qed

lemma carries_values:
  assumes "carries q nid type vs ps"
  shows "\<exists>ws. ps = map (value_packet q nid type) ws \<and> set ws \<subseteq> set vs
    \<and> (if vs = [] then ws = [] else ws \<noteq> [] \<and> last ws = last vs)"
  using assms
proof (induction rule: carries.induct)
  case none
  then show ?case by simp
next
  case (one vs ps v n)
  then obtain ws where "ps = map (value_packet q nid type) ws" "set ws \<subseteq> set vs"
    "if vs = [] then ws = [] else ws \<noteq> [] \<and> last ws = last vs" by blast
  then show ?case
    by (intro exI [of _ "replicate (Suc n) v @ ws"])
      (auto simp: last_append last_replicate map_replicate_const simp del: replicate_Suc split: if_splits)
qed

text \<open>The proxy of a property of type \<open>type\<close> that has the value \<open>w\<close> and is not in the middle of an update.\<close>

definition receiver ::
  "('t, 'qs, 'qb) tree_api \<Rightarrow> nid \<Rightarrow> nat \<Rightarrow> string \<Rightarrow> fake \<Rightarrow> ('qs, 'qb) pvalue \<Rightarrow> 't sync \<Rightarrow> bool" where
  "receiver T nid i type f w s \<longleftrightarrow>
     map_of (tracked s) nid = Some (Some (Proxy i))
     \<and> t_prop T (tree s) (Proxy i) = Some \<lparr>prop_type = type, prop_value = w\<rparr> \<and> value_type w = type
     \<and> fake_of s (Proxy i) = Some f \<and> \<not> fk_deserialization f \<and> silent_at T (Proxy i) (tree s)"

lemma receiver_get_prop:
  "receiver T nid i type f w s \<Longrightarrow> get_prop T nid s = Inr (Some (Proxy i, \<lparr>prop_type = type, prop_value = w\<rparr>))"
  by (cases "proxies s i") (auto simp: receiver_def get_prop_Some fake_of_def proxy_of_def alive_def)

lemma receiver_queue [simp]: "receiver T nid i type f w (s\<lparr>pkg_queue := qu\<rparr>) = receiver T nid i type f w s"
  using fake_of_cong [of "s\<lparr>pkg_queue := qu\<rparr>" s] by (simp add: receiver_def)

lemma receive_one:
  assumes "receiver T nid i type f w s" and "sendable q type v" and "qt_laws q" and "value_laws T"
    and "silence_lasts T (Proxy i)"
  shows "\<exists>s'. process_package q T a (value_packet q nid type v) s = Inr s'
    \<and> receiver T nid i type f v s' \<and> dev_calls s' = dev_calls s"
proof -
  let ?sv = "\<lparr>prop_type = type, prop_value = v\<rparr>" and ?cv = "\<lparr>prop_type = type, prop_value = w\<rparr>"
  have "same_kind q ?sv ?cv" "no_nul q (prop_value ?sv)"
    using assms(1-3) by (simp_all add: same_kind_def prop_typed_def receiver_def sendable_def)
  then obtain call where call: "machine_deserialize q machine_init (machine_serialize q machine_init ?sv) ?cv = Some call"
    "stored call = v"
    by (rule value_travels) simp
  have r: "fake_of s (Proxy i) = Some f" "\<not> fk_deserialization f" "silent_at T (Proxy i) (tree s)"
    "map_of (tracked s) nid = Some (Some (Proxy i))"
    using assms(1) by (simp_all add: receiver_def)
  have fits: "fits_int (wire_value (machine_serialize q machine_init ?sv))" and type: "value_type v = type"
    using assms(2) by (simp_all add: sendable_def)
  from update_packet_stores [OF receiver_get_prop [OF assms(1)] r(1,2) call(1) fits assms(4) r(3), of a]
  obtain s' where run: "process_package q T a (value_packet q nid type v) s = Inr s'"
    and s': "tree s' = fst (t_notify_change T (Proxy i) (fst (t_store T (Proxy i) call (tree s))))"
      "t_prop T (tree s') (Proxy i) = Some (?cv\<lparr>prop_value := stored call\<rparr>)" "tracked s' = tracked s"
      "dev_calls s' = dev_calls s" "fake_of s' (Proxy i) = Some f"
    by blast
  have "silent_at T (Proxy i) (tree s')"
    using assms(5) r(3) unfolding silence_lasts_def s'(1) by blast
  with run s' call(2) r type show ?thesis by (intro exI [of _ s']) (simp add: receiver_def)
qed

lemma receive_all:
  assumes "qt_laws q" and "value_laws T" and "silence_lasts T (Proxy i)"
    and "receiver T nid i type f w s" and "\<forall>v \<in> set ws. sendable q type v"
    and "map snd ms = map (value_packet q nid type) ws"
  shows "\<exists>s'. handle_all q T ms s = Inr s'
    \<and> receiver T nid i type f (if ws = [] then w else last ws) s' \<and> dev_calls s' = dev_calls s"
  using assms(4-6)
proof (induction ws arbitrary: ms s w)
  case Nil
  then show ?case by simp
next
  case (Cons v ws)
  then obtain a ms' where ms: "ms = (a, value_packet q nid type v) # ms'"
    and rest: "map snd ms' = map (value_packet q nid type) ws"
    by (cases ms) auto
  let ?s = "s\<lparr>pkg_queue := \<lparr>elements = map Some ms'\<rparr>\<rparr>"
  have "receiver T nid i type f w ?s" using Cons.prems(1) by simp
  from receive_one [OF this _ assms(1-3), of v a] Cons.prems(2) obtain s1 where
    step: "process_package q T a (value_packet q nid type v) ?s = Inr s1"
    and s1: "receiver T nid i type f v s1" "dev_calls s1 = dev_calls s" by auto
  from Cons.IH [OF s1(1) _ rest] Cons.prems(2) obtain s' where
    "handle_all q T ms' s1 = Inr s'" "receiver T nid i type f (if ws = [] then v else last ws) s'"
    "dev_calls s' = dev_calls s1" by auto
  with step s1(2) ms show ?case by (intro exI [of _ s']) simp
qed

text \<open>
  C5: values published one after the other all arrive, and the last one stays. Whatever the server's
  application stores into a subscribed property, values of its type that fit a packet and have no
  NUL character, goes out as packets in the same order, at least one
  for each value; when the processing thread of the client has worked through them, the proxy has the last
  value, the server's property too, and the client has sent nothing.
\<close>

theorem published_values_converge:
  assumes "publish_laws TS (App j)" and "value_laws TS" and "t_prop_listeners TS (tree S) (App j) > 0"
    and "find_key (Some (App j)) (tracked S) = Some nid" and "t_prop TS (tree S) (App j) = Some sv"
    and "list_all (sendable q (prop_type sv)) vs" and "vs \<noteq> []" and "has_dev S"
    and "qt_laws q" and "value_laws TC" and "silence_lasts TC (Proxy i)"
    and "receiver TC nid i (prop_type sv) f w C"
  shows "\<exists>S' ps. publish q TS (App j) vs S = Inr S' \<and> dev_calls S' = dev_calls S @ map Write ps
    \<and> length vs \<le> length ps \<and> map_option prop_value (t_prop TS (tree S') (App j)) = Some (last vs)
    \<and> (\<forall>as. length as = length ps \<longrightarrow>
        (\<exists>C'. package_processing_routine q TC (Suc (length ps)) True
            (C\<lparr>pkg_queue := \<lparr>elements = map Some (zip as ps)\<rparr>\<rparr>) = Some (Inr (True, C'))
          \<and> map_option prop_value (t_prop TC (tree C') (Proxy i)) = Some (last vs)
          \<and> fake_of C' (Proxy i) = Some f \<and> dev_calls C' = dev_calls C))"
proof -
  obtain S' ps where S': "publish q TS (App j) vs S = Inr S'" "dev_calls S' = dev_calls S @ map Write ps"
    "carries q nid (prop_type sv) vs ps" "t_prop TS (tree S') (App j) = Some (sv\<lparr>prop_value := last vs\<rparr>)"
    using publish_all [OF assms(1-6,8)] assms(7) by auto
  obtain ws where ws: "ps = map (value_packet q nid (prop_type sv)) ws" "set ws \<subseteq> set vs" "ws \<noteq> []" "last ws = last vs"
    using carries_values [OF S'(3)] assms(7) by auto
  have "length vs \<le> length ps"
    using S'(3) by (induction rule: carries.induct) simp_all
  moreover have "\<exists>C'. package_processing_routine q TC (Suc (length ps)) True
            (C\<lparr>pkg_queue := \<lparr>elements = map Some (zip as ps)\<rparr>\<rparr>) = Some (Inr (True, C'))
          \<and> map_option prop_value (t_prop TC (tree C') (Proxy i)) = Some (last vs)
          \<and> fake_of C' (Proxy i) = Some f \<and> dev_calls C' = dev_calls C"
    if as: "length as = length ps" for as
  proof -
    let ?C = "C\<lparr>pkg_queue := \<lparr>elements = map Some (zip as ps)\<rparr>\<rparr>"
    have ms: "map snd (zip as ps) = map (value_packet q nid (prop_type sv)) ws" using as ws(1) by simp
    have "receiver TC nid i (prop_type sv) f w ?C" using assms(12) by simp
    moreover have "\<forall>v \<in> set ws. sendable q (prop_type sv) v" using assms(6) ws(2) by (auto simp: list_all_iff)
    ultimately obtain C' where "handle_all q TC (zip as ps) ?C = Inr C'"
      and C': "receiver TC nid i (prop_type sv) f (last vs) C'" "dev_calls C' = dev_calls C"
      using receive_all [OF assms(9-11) _ _ ms] ws(3,4) by fastforce
    then have "package_processing_routine q TC (Suc (length ps)) True ?C = Some (Inr (True, C'))"
      using routine_runs [of ?C "zip as ps" "Suc (length ps)" q TC] as by simp
    with C' show ?thesis by (intro exI [of _ C']) (simp add: receiver_def)
  qed
  ultimately show ?thesis using S' by (intro exI [of _ S'] exI [of _ ps]) simp
qed

text \<open>The server of the sample, with a subscriber of its property.\<close>

definition subscribed_server :: "(byte list, byte list) sample sync" where
  "subscribed_server = fetched_server\<lparr>tree := sample_nodes\<lparr>sm_subscribed := [App 1]\<rparr>\<rparr>"

lemma sample_publish_laws: "publish_laws (sample_tree qs qb) n"
proof -
  have "x \<in> set xs" if "0 < count_list xs x" for x :: node_ref and xs
    using that by (metis count_notin less_irrefl)
  then show ?thesis by (auto simp: publish_laws_def sample_tree_def)
qed

lemma sample_silence_lasts: "silence_lasts (sample_tree qs qb) n"
  by (simp add: silence_lasts_def silent_at_def sample_tree_def)

lemma subscribed_server_facts:
  "t_prop_listeners samples (tree subscribed_server) (App 1) > 0"
  "find_key (Some (App 1)) (tracked subscribed_server) = Some 1"
  "t_prop samples (tree subscribed_server) (App 1) = Some (int_prop 7)" "has_dev subscribed_server"
  by (simp_all add: subscribed_server_def fetched_server_def do_track_as_def sample_state int_prop_def)

lemma fetched_receiver: "receiver samples 1 0 type_int int_fake (VInt 0) fetched_client"
  using fetched_client_facts(1,3) fetched_silent
  by (simp add: receiver_def get_prop_Some int_prop_def int_fake_def)

lemma int_sendable: "sendable plain_qt type_int (VInt w)"
  by (simp add: sendable_def int_bytes wire_value_def)

theorem published_values_converge_witness:
  "\<exists>S' ps C'. publish plain_qt samples (App 1) [VInt 3, VInt 4, VInt 5] subscribed_server = Inr S'
    \<and> package_processing_routine plain_qt samples (Suc (length ps)) True
        (fetched_client\<lparr>pkg_queue := \<lparr>elements = map Some (zip [0..<length ps] ps)\<rparr>\<rparr>) = Some (Inr (True, C'))
    \<and> map_option prop_value (t_prop samples (tree C') (Proxy 0)) = Some (VInt 5)"
proof -
  have l: "last [VInt 3, VInt 4, VInt 5] = VInt 5" and ne: "[VInt 3, VInt 4, VInt 5] \<noteq> []" by simp_all
  have vs: "list_all (sendable plain_qt (prop_type (int_prop 7))) [VInt 3, VInt 4, VInt 5]"
    "receiver samples 1 0 (prop_type (int_prop 7)) int_fake (VInt 0) fetched_client"
    using int_sendable fetched_receiver by (simp_all add: int_prop_def)
  from published_values_converge [OF sample_publish_laws sample_value_laws subscribed_server_facts(1-3) vs(1) ne
      subscribed_server_facts(4) plain_qt_laws sample_value_laws sample_silence_lasts vs(2), unfolded l]
  obtain S' ps where "publish plain_qt samples (App 1) [VInt 3, VInt 4, VInt 5] subscribed_server = Inr S'"
    and "\<forall>as. length as = length ps \<longrightarrow> (\<exists>C'. package_processing_routine plain_qt samples (Suc (length ps)) True
        (fetched_client\<lparr>pkg_queue := \<lparr>elements = map Some (zip as ps)\<rparr>\<rparr>) = Some (Inr (True, C'))
      \<and> map_option prop_value (t_prop samples (tree C') (Proxy 0)) = Some (VInt 5))" by blast
  then show ?thesis by (metis length_upt minus_nat.diff_0)
qed

section \<open>Reading what was written\<close>

text \<open>
  C13: a value set through a proxy is the value the proxy reads next, if its serialized form is not
  empty and fits a packet and it has no NUL character: an empty string or byte array is never sent, and
  the next read would give the old value. The two packets, the one that sets and the request that
  gets, reach the server in the order they were sent; its reply to the second carries the value of
  the first.
\<close>

theorem reads_own_write:
  assumes "receiver TC nid i type f w C" and "fk_client f = Some (self C)" and "fk_nid f = Some nid"
    and "has_dev C" and "\<not> update_in_process C" and "value_laws TC"
    and "silent_at TC (Proxy i) (fst (t_store TC (Proxy i) (Set_value v) (tree C)))"
    and "server_ok S" and "has_dev S" and "find_key (Some (App j)) (tracked S) = Some nid"
    and "t_prop TS (tree S) (App j) = Some sv" and "prop_typed sv" and "prop_type sv = type"
    and "value_laws TS" and "own_updates_at TS (App j) (tree S)"
    and "qt_laws q" and "sendable q type v"
    and "fits_wire (wire_value (machine_serialize q machine_init \<lparr>prop_type = type, prop_value = v\<rparr>))"
    and "machine_serialize q machine_init \<lparr>prop_type = type, prop_value = v\<rparr> \<noteq> []"
  shows "\<exists>C1 put S1 get rep S2 C2.
      store_value q TC (Proxy i) (Set_value v) C = Inr C1 \<and> dev_calls C1 = dev_calls C @ [Write put]
    \<and> process_package q TS a put S = Inr S1
    \<and> answered q TS b get S1 rep S2
    \<and> fake_get_value q TC (Proxy i) (C1\<lparr>answers := [Some (received rep)]\<rparr>) = Inr (Some v, C2)
    \<and> dev_calls C2 = dev_calls C @ [Write put, Ask get]"
proof -
  let ?sv = "\<lparr>prop_type = type, prop_value = v\<rparr>"
  let ?buf = "machine_serialize q machine_init ?sv"
  have v: "value_type v = type" "no_nul q v" "fits_int (wire_value ?buf)" using assms(17) by (simp_all add: sendable_def)
  have r: "fake_of C (Proxy i) = Some f" "\<not> fk_deserialization f" "silent_at TC (Proxy i) (tree C)"
    "map_of (tracked C) nid = Some (Some (Proxy i))"
    "t_prop TC (tree C) (Proxy i) = Some \<lparr>prop_type = type, prop_value = w\<rparr>"
    using assms(1) by (simp_all add: receiver_def)
  obtain t where t: "t_store TC (Proxy i) (Set_value v) (tree C) = (t, [])"
    using r(3) unfolding silent_at_def by (metis prod.collapse)
  have stored: "t_prop TC t (Proxy i) = Some ?sv" using store_law [OF assms(6) r(5), of "Set_value v"] t by simp
  let ?C1 = "C\<lparr>tree := t, dev_calls := dev_calls C @ [Write (set_packet nid ?buf)]\<rparr>"
  have sent: "store_value q TC (Proxy i) (Set_value v) C = Inr ?C1"
    using v assms(4,19) by (intro set_value_sends [OF t r(1) assms(2,3) r(2) stored]) (simp_all add: wire_value_def)
  have sv': "sv\<lparr>prop_value := v\<rparr> = ?sv" using assms(13) by simp
  have "map_option stored (machine_deserialize q machine_init ?buf sv) = Some v"
    using mach.des_ser [of q sv v] assms(12,13,16) v(1,2) sv' by simp
  then obtain call where call: "machine_deserialize q machine_init ?buf sv = Some call" "stored call = v" by auto
  have "sorted_map (tracked S)" using assms(8) by (simp add: server_ok_def sync_ok_def)
  then have at: "map_of (tracked S) nid = Some (Some (App j))" by (rule smap.rev_find_Some [OF _ assms(10)])
  have fits: "fits_int ?buf" "fits_int (wire_value (machine_serialize q machine_init (sv\<lparr>prop_value := stored call\<rparr>)))"
    using v(3) call(2) sv' by (simp_all add: wire_value_def)
  from cmd_prop_value_stores [OF at assms(11,10) call(1) fits(1) assms(9,14,15) fits(2)] call(2) sv'
  obtain n S1 where run: "cmd_prop_value q TS (set_packet nid ?buf) S = Inr S1"
    and S1: "t_prop TS (tree S1) (App j) = Some ?sv" "tracked S1 = tracked S" by auto
  have put: "process_package q TS a (set_packet nid ?buf) S = Inr S1"
    using run by (simp add: process_package_def cmd_defs set_packet_def)
  have dev: "has_dev S1" using process_package_frame [OF put] assms(9) by (simp add: sync_frame_def)
  have has_prop: "get_prop TS nid S1 = Inr (Some (App j, ?sv))" using S1 at by (simp add: get_prop_Some alive_def)
  let ?get = "mk_package nid CMD_PROP_GET_VALUE []" and ?rep = "mk_package nid CMD_PROP_GET_VALUE_SUCCESS (wire_value ?buf)"
  have get: "answered q TS b ?get S1 ?rep (S1\<lparr>dev_calls := dev_calls S1 @ [Reply_to b ?rep]\<rparr>)"
    using cmd_get_prop_reply [OF has_prop dev, of q b "replicate 9 0"] assms(18)
    by (simp add: answered_def process_package_def cmd_defs)
  have C1: "fake_of ?C1 (Proxy i) = Some f" using fake_of_cong [of ?C1 C] r(1) by simp
  have rec: "receiver TC nid i type f v ?C1"
    using C1 r stored assms(7) t v(1) by (simp add: receiver_def)
  obtain c2 where c2: "machine_deserialize q machine_init ?buf ?sv = Some c2" "stored c2 = v"
    using value_travels [of q ?sv ?sv] assms(16) v(1,2) by (auto simp: same_kind_def prop_typed_def)
  have "silent_at TC (Proxy i) (tree ?C1)" "\<not> update_in_process ?C1" "has_dev ?C1"
    using assms(4,5,7) t by simp_all
  with update_prop_reply [OF receiver_get_prop [OF rec] C1 r(2) _ _ c2(1), of "replicate 18 0" CMD_PROP_GET_VALUE_SUCCESS]
    assms(18)
  obtain C2 where up: "update_prop q TC nid (?C1\<lparr>answers := [Some (received ?rep)]\<rparr>) = Inr C2"
    and C2: "tree C2 = fst (t_store TC (Proxy i) c2 (tree ?C1))" "dev_calls C2 = dev_calls ?C1 @ [Ask ?get]"
    by auto
  have val: "map_option prop_value (t_prop TC (tree C2) (Proxy i)) = Some v"
    using store_law [OF assms(6), of "tree ?C1" "Proxy i" ?sv c2] stored C2(1) c2(2) by simp
  have "fake_of (?C1\<lparr>answers := [Some (received ?rep)]\<rparr>) (Proxy i) = Some f"
    using fake_of_cong [of "?C1\<lparr>answers := [Some (received ?rep)]\<rparr>" ?C1] C1 by simp
  with up val assms(2,3) have "fake_get_value q TC (Proxy i) (?C1\<lparr>answers := [Some (received ?rep)]\<rparr>) = Inr (Some v, C2)"
    by (simp add: fake_get_value_def refresh_value_def)
  moreover have "dev_calls C2 = dev_calls C @ [Write (set_packet nid ?buf), Ask ?get]" using C2(2) by simp
  moreover have "dev_calls ?C1 = dev_calls C @ [Write (set_packet nid ?buf)]" by simp
  ultimately show ?thesis using sent put get by blast
qed

theorem reads_own_write_witness:
  "\<exists>C1 put S1 get rep S2 C2. store_value plain_qt samples (Proxy 0) (Set_value (VInt 9)) fetched_client = Inr C1
    \<and> process_package plain_qt samples 5 put fetched_server = Inr S1
    \<and> answered plain_qt samples 6 get S1 rep S2
    \<and> fake_get_value plain_qt samples (Proxy 0) (C1\<lparr>answers := [Some (received rep)]\<rparr>) = Inr (Some (VInt 9), C2)"
proof -
  have f: "fk_client int_fake = Some (self fetched_client)" "fk_nid int_fake = Some 1"
    by (simp_all add: int_fake_def fetched_client_facts)
  have quiet: "silent_at samples (Proxy 0) (fst (t_store samples (Proxy 0) (Set_value (VInt 9)) (tree fetched_client)))"
    using fetched_silent by (simp add: silent_at_def sample_tree_def)
  have p: "prop_typed (int_prop 7)" "prop_type (int_prop 7) = type_int" by (simp_all add: prop_typed_def int_prop_def)
  have b: "fits_wire (wire_value (machine_serialize plain_qt machine_init \<lparr>prop_type = type_int, prop_value = VInt 9\<rparr>))"
    "machine_serialize plain_qt machine_init \<lparr>prop_type = type_int, prop_value = VInt 9\<rparr> \<noteq> []"
    by (simp_all add: int_bytes wire_value_def)
  from reads_own_write [OF fetched_receiver f fetched_client_facts(2,5) sample_value_laws quiet fetched_server_ok
      fetched_server_facts(2,3,4) p sample_value_laws fetched_own_updates plain_qt_laws int_sendable b, of 5 6]
  show ?thesis by blast
qed

section \<open>What the ids stand for\<close>

text \<open>Looking a node up changes no type; type names are short.\<close>

definition lookup_laws :: "('t, 'qs, 'qb) tree_api \<Rightarrow> bool" where
  "lookup_laws T \<longleftrightarrow> (\<forall>n path t m. type_name T (snd (t_at T n path t)) m = type_name T t m)"

definition short_types :: "('t, 'qs, 'qb) tree_api \<Rightarrow> 't \<Rightarrow> bool" where
  "short_types T t \<longleftrightarrow> (\<forall>m. fits_wire (wire_string (type_name T t m)))"

lemma type_name_fits: "short_types T t \<Longrightarrow> length (type_name T t n) + 22 < 2 ^ 31"
  unfolding short_types_def by (drule spec) simp

text \<open>
  A step of a connection between a server and a client that fetches nodes: a fetch, whatever it asks
  for and however it ends, the server tracking a node of its own, for a message about it, and any
  change the two processes make to their trees meanwhile - values, names, children -, in which a node
  that has an id keeps its type. The ids have not run out.
\<close>

inductive session_step ::
  "('qs, 'qb) qt_api \<Rightarrow> ('t, 'qs, 'qb) tree_api \<Rightarrow> ('u, 'qs, 'qb) tree_api
     \<Rightarrow> 't sync \<times> 'u sync \<Rightarrow> 't sync \<times> 'u sync \<Rightarrow> bool"
  for q TS TC where
  fetch: "answered q TS a (mk_package nid CMD_AT (wire_string name)) S rep S'
    \<Longrightarrow> fetch_node TC nid name (C\<lparr>answers := [Some (received rep)]\<rparr>) = Inr (r, C')
    \<Longrightarrow> fits_wire (wire_string name) \<Longrightarrow> current_nid S \<noteq> - 1
    \<Longrightarrow> session_step q TS TC (S, C) (S', C')"
| track: "node_nid (App j) S = Inr (k, S') \<Longrightarrow> current_nid S \<noteq> - 1
    \<Longrightarrow> session_step q TS TC (S, C) (S', C)"
| changed: "(\<And>k n. get_node k S = Some n \<Longrightarrow> type_name TS t n = type_name TS (tree S) n) \<Longrightarrow> short_types TS t
    \<Longrightarrow> session_step q TS TC (S, C) (S\<lparr>tree := t\<rparr>, C\<lparr>tree := t'\<rparr>)"

inductive session_reach ::
  "('qs, 'qb) qt_api \<Rightarrow> ('t, 'qs, 'qb) tree_api \<Rightarrow> ('u, 'qs, 'qb) tree_api
     \<Rightarrow> 't sync \<times> 'u sync \<Rightarrow> 't sync \<times> 'u sync \<Rightarrow> bool"
  for q TS TC x where
  start: "session_reach q TS TC x x"
| step: "session_reach q TS TC x y \<Longrightarrow> session_step q TS TC y z \<Longrightarrow> session_reach q TS TC x z"

text \<open>
  The client's proxies stand for nodes of the server: the id of a proxy names a node there that has the
  type the proxy was made for, and a proxy in the client's table is there under its own id.
\<close>

definition stands_for ::
  "('t, 'qs, 'qb) tree_api \<Rightarrow> 't sync \<Rightarrow> 'u sync \<Rightarrow> bool" where
  "stands_for T S C \<longleftrightarrow>
     (\<forall>i c. own C i c \<longrightarrow> (\<exists>n. get_node (cn_nid c) S = Some n
        \<and> cn_fake c = fake_for (type_name T (tree S) n) (self C) (cn_nid c)))
     \<and> (\<forall>k i. map_of (tracked C) k = Some (Some (Proxy i)) \<longrightarrow> (\<exists>c. proxies C i = Some c \<and> cn_nid c = k))"

text \<open>The ids the server has given stay with their nodes.\<close>

definition ids_kept :: "'t sync \<Rightarrow> 't sync \<Rightarrow> bool" where
  "ids_kept S S' \<longleftrightarrow> (\<forall>k n. get_node k S = Some n \<longrightarrow> get_node k S' = Some n)"

lemma node_nid_names:
  assumes "server_ok S" and "node_nid n S = Inr (k, S')" and "alive S n" and "current_nid S \<noteq> - 1"
  shows "server_ok S' \<and> ids_kept S S' \<and> get_node k S' = Some n \<and> has_dev S' = has_dev S"
  using assms(2)
proof (cases rule: node_nid_cases)
  case known
  then show ?thesis
    using assms(1) get_node_found [of S n k] by (simp add: server_ok_def sync_ok_def ids_kept_def)
next
  case (new s1)
  have sorted: "sorted_map (tracked S)" and fresh: "map_of (tracked S) (current_nid S) = None" and sv: "is_server S"
    using assms(1) by (auto simp: server_ok_def sync_ok_def ids_counted_def)
  have S': "k = current_nid S" "S' = do_track_as (Some n) k (S\<lparr>current_nid := current_nid S + 1\<rparr>)"
    using new sv by (auto simp: generate_nid_def)
  have "sync_ok (S\<lparr>current_nid := current_nid S + 1\<rparr>)"
    using assms(1) by (subst sync_ok_cong [of _ S]) (simp_all add: server_ok_def)
  then have "sync_ok S'"
    using fresh new(1) assms(3) alive_cong [of "S\<lparr>current_nid := current_nid S + 1\<rparr>" S] S'
    by (auto intro: sync_ok_track)
  moreover have find: "map_of (tracked S') = (map_of (tracked S))(k \<mapsto> Some n)"
    using smap.find_put [OF sorted] S' by (simp add: do_track_as_def)
  moreover have "ids_counted S'"
  proof -
    have "current_nid S + 1 \<noteq> 0" using assms(4) by (simp flip: eq_neg_iff_add_eq_0)
    then have "unat (current_nid S + 1) = Suc (unat (current_nid S))" by (simp add: unatSuc add.commute)
    then have "current_nid S < current_nid S + 1" by (simp add: word_less_nat_alt)
    then show ?thesis using assms(1) find S' by (auto simp: ids_counted_def server_ok_def do_track_as_def intro: less_trans)
  qed
  ultimately show ?thesis
    using sv fresh S' by (auto simp: server_ok_def do_track_as_def ids_kept_def get_node_def)
qed

text \<open>What a server can answer to a request for a child.\<close>

lemma answers_at_cases:
  assumes "answered q T a (mk_package nid CMD_AT (wire_string name)) S rep S'" and "fits_wire (wire_string name)"
    and "lookup_laws T" and "short_types T (tree S)"
  obtains (missing) k tr where "rep = mk_package k CMD_AT_ERROR []"
      and "S' = S\<lparr>tree := tr, dev_calls := dev_calls S @ [Reply_to a rep]\<rparr>" and "\<And>m. type_name T tr m = type_name T (tree S) m"
    | (found) n tr k S1 where "rep = mk_package k CMD_AT_SUCCESS (wire_string (type_name T tr n))" and "alive S n"
      and "node_nid n (S\<lparr>tree := tr\<rparr>) = Inr (k, S1)" and "S' = S1\<lparr>dev_calls := dev_calls S @ [Reply_to a rep]\<rparr>"
      and "\<And>m. type_name T tr m = type_name T (tree S) m"
proof -
  let ?req = "mk_package nid CMD_AT (wire_string name @ replicate 9 0)"
  have run: "cmd_at T a ?req S = Inr S'" and call: "dev_calls S' = dev_calls S @ [Reply_to a rep]"
    using assms(1) by (simp_all add: answered_def process_package_def cmd_defs)
  have keep: "type_name T tr m = type_name T (tree S) m" if "t_at T t name (tree S) = (r, tr)" for t r tr m
    using assms(3) that unfolding lookup_laws_def by (metis snd_conv)
  have read: "read_string ?req [] 0 = Inr (name, of_nat (4 + length name))"
    using read_string_only [of name "replicate 9 0" nid CMD_AT "[]"] assms(2) by simp
  show thesis
  proof (cases "get_node nid S")
    case None
    with run call missing [of nid "tree S"] show thesis
      by (auto simp: cmd_at_def response_mk dev_reply_def split: if_splits)
  next
    case (Some t)
    with run have t: "alive S t" by (auto simp: cmd_at_def split: if_splits)
    obtain m tr where at: "t_at T t name (tree S) = (m, tr)" by (cases "t_at T t name (tree S)")
    show thesis
    proof (cases m)
      case None
      with run call Some t at read missing [of nid tr] keep [OF at] show thesis
        by (auto simp: cmd_at_def response_mk dev_reply_def Let_def split: if_splits)
    next
      case (Some n)
      with run \<open>get_node nid S = Some t\<close> t at read have n: "alive (S\<lparr>tree := tr\<rparr>) n"
        by (auto simp: cmd_at_def Let_def split: if_splits)
      then have alive: "alive S n" using alive_cong [of "S\<lparr>tree := tr\<rparr>" S] by simp
      from run \<open>get_node nid S = Some t\<close> t at read n Some obtain k S1 where
        nid: "node_nid n (S\<lparr>tree := tr\<rparr>) = Inr (k, S1)"
        by (auto simp: cmd_at_def andThen_eq_Inr Let_def)
      have "fits_int (wire_string (type_name T tr n))" using type_name_fits [OF assms(4), of n] keep [OF at] by simp
      moreover have "has_dev S1"
        using run \<open>get_node nid S = Some t\<close> t at read n Some nid
        by (auto simp: cmd_at_def andThen_eq_Inr dev_reply_def Let_def split: if_splits)
      ultimately have S': "S' = S1\<lparr>dev_calls := dev_calls S1
          @ [Reply_to a (mk_package k CMD_AT_SUCCESS (wire_string (type_name T tr n)))]\<rparr>"
        using cmd_at_reply [OF \<open>get_node nid S = Some t\<close> t _ at [unfolded Some] alive nid, of "replicate 9 0" a]
          run assms(2) by simp
      with call found [OF _ alive nid _ keep [OF at]] show thesis by simp
    qed
  qed
qed

text \<open>A new proxy for an id that the server gave.\<close>

lemma stands_for_adopt:
  assumes "stands_for T S C" and "addresses_ok C" and "sorted_map (tracked C)" and "ids_kept S S'"
    and "\<And>m. type_name T (tree S') m = type_name T (tree S) m" and "get_node k S' = Some n"
    and "type = type_name T (tree S') n"
  shows "stands_for T S' (adopt t (fake_for type (self C) k) k C)"
proof -
  let ?C = "adopt t (fake_for type (self C) k) k C"
  have own: "own ?C i c \<longleftrightarrow> (if i = next_proxy C then c = \<lparr>cn_nid = k, cn_client = Some (self C), cn_fake = fake_for type (self C) k\<rparr>
      else own C i c)" for i c
    by (auto simp: own_def adopt_def)
  have find: "map_of (tracked ?C) = (map_of (tracked C))(k \<mapsto> Some (Proxy (next_proxy C)))"
    using smap.find_put [OF assms(3)] by (simp add: adopt_def)
  have "\<exists>n. get_node (cn_nid c) S' = Some n \<and> cn_fake c = fake_for (type_name T (tree S') n) (self C) (cn_nid c)"
    if "own ?C i c" for i c
  proof (cases "i = next_proxy C")
    case True
    with that own assms(6,7) show ?thesis by auto
  next
    case False
    with that own have "own C i c" by simp
    with assms(1) obtain n where "get_node (cn_nid c) S = Some n" "cn_fake c = fake_for (type_name T (tree S) n) (self C) (cn_nid c)"
      unfolding stands_for_def by blast
    then show ?thesis using assms(4,5) by (auto simp: ids_kept_def)
  qed
  moreover have "\<exists>c. proxies ?C i = Some c \<and> cn_nid c = k'" if "map_of (tracked ?C) k' = Some (Some (Proxy i))" for k' i
  proof (cases "k' = k")
    case True
    with that find show ?thesis by (simp add: adopt_def)
  next
    case False
    with that find have "map_of (tracked C) k' = Some (Some (Proxy i))" by simp
    with assms(1) obtain c where c: "proxies C i = Some c" "cn_nid c = k'" unfolding stands_for_def by blast
    with assms(2) have "i \<noteq> next_proxy C" by (auto simp: addresses_ok_def)
    with c show ?thesis by (simp add: adopt_def)
  qed
  moreover have "self ?C = self C" by (simp add: adopt_def)
  ultimately show ?thesis by (simp add: stands_for_def)
qed

lemma stands_for_same:
  assumes "stands_for T S C" and "ids_kept S S'"
    and "\<And>k m. get_node k S = Some m \<Longrightarrow> type_name T (tree S') m = type_name T (tree S) m"
    and "proxies C' = proxies C" and "tracked C' = tracked C" and "self C' = self C"
  shows "stands_for T S' C'"
proof -
  have own: "own C' i c = own C i c" for i c using own_cong [OF assms(4,6)] .
  have "\<exists>n. get_node (cn_nid c) S' = Some n \<and> cn_fake c = fake_for (type_name T (tree S') n) (self C) (cn_nid c)"
    if "own C i c" for i c
  proof -
    from that assms(1) obtain n where "get_node (cn_nid c) S = Some n"
      "cn_fake c = fake_for (type_name T (tree S) n) (self C) (cn_nid c)" unfolding stands_for_def by blast
    then show ?thesis using assms(2,3) unfolding ids_kept_def by metis
  qed
  then show ?thesis using assms(1) unfolding stands_for_def own assms(4,5,6) by blast
qed

text \<open>The invariant of the session.\<close>

definition session_ok :: "('t, 'qs, 'qb) tree_api \<Rightarrow> 't sync \<times> 'u sync \<Rightarrow> bool" where
  "session_ok T x \<longleftrightarrow> server_ok (fst x) \<and> has_dev (fst x) \<and> has_dev (snd x) \<and> addresses_ok (snd x)
     \<and> sorted_map (tracked (snd x)) \<and> stands_for T (fst x) (snd x) \<and> short_types T (tree (fst x))"

lemma server_ok_calls: "server_ok (S\<lparr>tree := tr, dev_calls := cs\<rparr>) = server_ok S" "server_ok (S\<lparr>tree := tr\<rparr>) = server_ok S"
  "server_ok (S\<lparr>dev_calls := cs\<rparr>) = server_ok S"
  using sync_ok_cong [of "S\<lparr>tree := tr, dev_calls := cs\<rparr>" S] sync_ok_cong [of "S\<lparr>tree := tr\<rparr>" S]
    sync_ok_cong [of "S\<lparr>dev_calls := cs\<rparr>" S]
  by (simp_all add: server_ok_def ids_counted_def)

lemma session_step_ok:
  assumes "session_step q TS TC x y" and "lookup_laws TS" and "session_ok TS x"
  shows "session_ok TS y \<and> ids_kept (fst x) (fst y)"
  using assms(1)
proof cases
  case (track j S k S' C)
  with assms(3) have S: "server_ok S" "has_dev S" and C: "has_dev C" "addresses_ok C" "sorted_map (tracked C)"
    "stands_for TS S C" "short_types TS (tree S)" by (simp_all add: session_ok_def)
  have S': "server_ok S'" "ids_kept S S'" "has_dev S' = has_dev S"
    using node_nid_names [OF S(1) track(3)] track(4) by (simp_all add: alive_def)
  moreover have "tree S' = tree S" using node_nid_frame [OF track(3)] by simp
  ultimately show ?thesis
    using track(1,2) S(2) C stands_for_same [OF C(4) S'(2), of C] by (simp add: session_ok_def)
next
  case (changed S t C t')
  with assms(3) have S: "server_ok S" "has_dev S" and C: "has_dev C" "addresses_ok C" "sorted_map (tracked C)"
    "stands_for TS S C" by (simp_all add: session_ok_def)
  have kept: "ids_kept S (S\<lparr>tree := t\<rparr>)" by (simp add: ids_kept_def get_node_def)
  have "stands_for TS (S\<lparr>tree := t\<rparr>) (C\<lparr>tree := t'\<rparr>)"
    using changed(3) by (intro stands_for_same [OF C(4) kept]) simp_all
  then show ?thesis
    using changed(1,2,4) S C(1-3) kept by (simp add: session_ok_def server_ok_calls addresses_ok_def)
next
  case (fetch a nid name S rep S' C r C')
  with assms(3) have S: "server_ok S" "has_dev S" and C: "has_dev C" "addresses_ok C" "sorted_map (tracked C)"
    "stands_for TS S C" "short_types TS (tree S)" by (simp_all add: session_ok_def)
  have fits: "fits_int name" using fetch(5) by simp
  show ?thesis
    using fetch(3,5) assms(2) C(5)
  proof (cases rule: answers_at_cases)
    case (missing k tr)
    have "C' = C\<lparr>answers := [], dev_calls := dev_calls C @ [Ask (mk_package nid CMD_AT (wire_string name))]\<rparr>"
      using fetch(4) fits C(1) missing(1) by (simp add: fetch_node_def package_new_mk append_string_mk dev_send_answer)
    moreover have "ids_kept S S'" using missing(2) by (simp add: ids_kept_def get_node_def)
    ultimately show ?thesis
      using fetch(1,2) S C missing(2,3) stands_for_same [OF C(4), of S' C'] by (simp add: session_ok_def server_ok_calls addresses_ok_def short_types_def)
  next
    case (found n tr k S1)
    let ?type = "type_name TS tr n"
    have "server_ok (S\<lparr>tree := tr\<rparr>)" using S(1) by (simp add: server_ok_calls)
    moreover have "alive (S\<lparr>tree := tr\<rparr>) n" using found(2) alive_cong [of "S\<lparr>tree := tr\<rparr>" S] by simp
    ultimately have S1: "server_ok S1" "ids_kept (S\<lparr>tree := tr\<rparr>) S1" "get_node k S1 = Some n" "has_dev S1 = has_dev S"
      using node_nid_names [OF _ found(3)] fetch(6) by simp_all
    have frame: "tree S1 = tr" "has_dev S1 = has_dev S" using node_nid_frame [OF found(3)] S1(4) by simp_all
    have kept: "ids_kept S S'" "get_node k S' = Some n" "tree S' = tr"
      using S1(2,3) frame found(4) by (simp_all add: ids_kept_def get_node_def)
    have types: "type_name TS (tree S') m = type_name TS (tree S) m" for m using found(5) kept(3) by simp
    have tfits: "fits_int (wire_string ?type @ replicate 18 0)"
      using type_name_fits [OF C(5), of n] found(5) by simp
    have okS: "server_ok S'" "has_dev S'" using S1(1) frame S(2) found(4) by (simp_all add: server_ok_calls)
    have short: "short_types TS (tree S')" using C(5) types by (simp add: short_types_def)
    let ?C = "C\<lparr>answers := [], dev_calls := dev_calls C @ [Ask (mk_package nid CMD_AT (wire_string name))]\<rparr>"
    show ?thesis
    proof (cases "?type \<in> known_types")
      case False
      then have "C' = ?C"
        using fetch_node_unknown_type [OF C(1) fits tfits, of TC nid k] fetch(4) found(1) by simp
      then show ?thesis
        using fetch(1,2) okS short C kept types stands_for_same [OF C(4) kept(1) types, of ?C] by (simp add: session_ok_def addresses_ok_def)
    next
      case True
      then have C': "C' = adopt (born TC ?type C) (fake_for ?type (self C) k) k ?C"
        using fetch_node_reply [OF C(1) fits tfits, of TC nid k] fetch(4) found(1) by simp
      have "stands_for TS S ?C" using stands_for_same [OF C(4), of S ?C] by (simp add: ids_kept_def)
      then have "stands_for TS S' C'"
        unfolding C' using stands_for_adopt [of TS S ?C S' k n ?type] C(2,3) kept types
        by (simp add: addresses_ok_def)
      then show ?thesis
        using fetch(1,2) okS short C kept(1) C' by (simp add: session_ok_def adopt_def addresses_ok_def sorted_map_put)
    qed
  qed
qed

lemma session_reach_ok:
  assumes "session_reach q TS TC x y" and "lookup_laws TS" and "session_ok TS x"
  shows "session_ok TS y \<and> ids_kept (fst x) (fst y)"
  using assms(1)
proof (induction rule: session_reach.induct)
  case start
  show ?case using assms(3) by (simp add: ids_kept_def)
next
  case (step y z)
  with session_step_ok [OF step.hyps(2) assms(2)] show ?case by (auto simp: ids_kept_def)
qed

text \<open>
  C4: the ids mean the same on both sides, for good. In any sequence of fetches - of known and unknown
  ids and names, of nodes of any type -, of nodes the server tracks by itself and of changes to the trees
  of both processes, the server's ids keep their nodes, and every proxy the client has made stands for a
  node of the server: its id names that node, and it was made for that node's type.
\<close>

theorem proxies_stand_for_nodes:
  assumes "session_reach q TS TC (S0, C0) (S, C)" and "lookup_laws TS"
    and "server_ok S0" and "has_dev S0" and "has_dev C0" and "addresses_ok C0" and "tracked C0 = []"
    and "\<forall>i c. \<not> own C0 i c" and "short_types TS (tree S0)"
  shows "(\<forall>i c. own C i c \<longrightarrow> (\<exists>n. get_node (cn_nid c) S = Some n
        \<and> cn_fake c = fake_for (type_name TS (tree S) n) (self C) (cn_nid c)))
    \<and> (\<forall>k i. get_node k C = Some (Proxy i) \<longrightarrow> (\<exists>c. proxies C i = Some c \<and> cn_nid c = k))
    \<and> (\<forall>k n. get_node k S0 = Some n \<longrightarrow> get_node k S = Some n) \<and> server_ok S"
proof -
  have "session_ok TS (S0, C0)" using assms(3-9) by (simp add: session_ok_def stands_for_def)
  with session_reach_ok [OF assms(1,2)] show ?thesis
    by (auto simp: session_ok_def stands_for_def ids_kept_def get_node_def split: option.splits)
qed

theorem proxies_stand_for_nodes_witness:
  "\<exists>S C c n. session_reach plain_qt samples samples (sample_server, sample_client) (S, C)
    \<and> own C 0 c \<and> get_node (cn_nid c) S = Some n
    \<and> cn_fake c = fake_for (type_name samples (tree S) n) (self C) (cn_nid c)"
proof -
  have at: "t_at samples (App 0) ''a'' (tree sample_server) = (Some (App 1), sample_nodes)"
    and type: "type_name samples sample_nodes (App 1) = type_int"
    by (simp_all add: sample_state type_name_def)
  have S: "has_dev sample_server" "get_node 0 sample_server = Some (App 0)" "current_nid sample_server \<noteq> - 1"
    by (simp_all add: sample_server_def get_node_def)
  have fits: "fits_wire (wire_string ''a'')" "fits_wire (wire_string (type_name samples sample_nodes (App 1)))"
    unfolding type by (simp_all add: type_names)
  obtain k S' where ans: "answered plain_qt samples 5 (mk_package 0 CMD_AT (wire_string ''a'')) sample_server
      (mk_package k CMD_AT_SUCCESS (wire_string type_int)) S'"
    using server_answers_at [OF sample_server_ok S(1,2) at fits, of plain_qt 5] unfolding type by blast
  let ?C = "adopt (born samples type_int sample_client) (fake_for type_int (self sample_client) k) k
    (sample_client\<lparr>answers := [], dev_calls := dev_calls sample_client @ [Ask (mk_package 0 CMD_AT (wire_string ''a''))]\<rparr>)"
  have C: "has_dev sample_client" "addresses_ok sample_client" "tracked sample_client = []"
    "\<forall>i c. \<not> own sample_client i c"
    by (simp_all add: sample_client_def sync_new_def addresses_ok_def own_def)
  have "fetch_node samples 0 ''a'' (sample_client\<lparr>answers := [Some (received (mk_package k CMD_AT_SUCCESS (wire_string type_int)))]\<rparr>)
      = Inr (Some (Proxy (next_proxy sample_client)), ?C)"
    using fetch_node_reply [OF C(1), of "''a''" type_int "replicate 18 0" samples 0 k]
    by (simp add: known_types_def type_names)
  then have reach: "session_reach plain_qt samples samples (sample_server, sample_client) (S', ?C)"
    by (rule session_reach.step [OF session_reach.start session_step.fetch [OF ans _ fits(1) S(3)]])
  have laws: "lookup_laws samples" by (simp add: lookup_laws_def sample_tree_def)
  have short: "short_types samples (tree sample_server)"
    by (auto simp: short_types_def type_name_def sample_state type_names split: option.splits)
  have "own ?C 0 \<lparr>cn_nid = k, cn_client = Some (self sample_client), cn_fake = fake_for type_int (self sample_client) k\<rparr>"
    by (simp add: own_def adopt_def sample_client_def sync_new_def)
  with proxies_stand_for_nodes [OF reach laws sample_server_ok S(1) C short] reach show ?thesis by blast
qed

end
