(* ===== verification/Main_Program.thy ===== *)
theory Main_Program
  imports Conn_Server Session_History
begin

text \<open>
  The server program of \<^verbatim>\<open>main.cpp\<close>: a tree with a root, an acceptor with a \<^verbatim>\<open>conn_server\<close> on that root
  as its listener, and a property \<^verbatim>\<open>val\<close> of type \<^verbatim>\<open>double\<close> below the root. The theory follows a client from
  the accepted connection to the value of that property.
\<close>

section \<open>main\<close>

text \<open>The two nodes: \<^verbatim>\<open>root\<close>, and the property, \<^verbatim>\<open>nd\<close>.\<close>

definition main_root :: node_ref where "main_root = App 0"
definition main_val :: node_ref where "main_val = App 1"

text \<open>
  The body of \<^verbatim>\<open>main\<close> up to the \<^verbatim>\<open>sleep\<close>, on a process with the tree \<open>t\<close> in which both nodes have been made.
  No node_sync listens to the tree yet, so nobody is notified of the attached node.
\<close>

definition main_start :: "('t, 'qs, 'qb) tree_api \<Rightarrow> 't \<Rightarrow> fault + 't conn_server" where
  "main_start T t =
     andThen (listen_to_acceptor (conn_server_new (Some main_root) (sync_new 0 True t))) (\<lambda>cs.
       let cs = accept cs
       in Inr (cs\<lparr>sh_tree := fst (t_attach T main_root ''val'' main_val (sh_tree cs))\<rparr>))"

lemma main_start_eq:
  "main_start T t = Inr ((accept ((conn_server_new (Some main_root) (sync_new 0 True t))\<lparr>acc_links := acc_joined\<rparr>))
     \<lparr>sh_tree := fst (t_attach T main_root ''val'' main_val t)\<rparr>)"
  unfolding main_start_def listens by (simp add: accept_def conn_server_new_def sync_new_def)

lemma cs_ok_tree [simp]: "cs_ok (cs\<lparr>sh_tree := t\<rparr>) = cs_ok cs"
  by (simp add: cs_ok_def)

lemma main_start_ok:
  assumes "main_start T t = Inr cs"
  shows "cs_ok cs \<and> cs_root cs = Some main_root \<and> status_ok cs \<and> accepting cs = [0]
    \<and> sh_tree cs = fst (t_attach T main_root ''val'' main_val t)"
proof -
  let ?cs = "accept ((conn_server_new (Some main_root) (sync_new 0 True t))\<lparr>acc_links := acc_joined\<rparr>)"
  have "cs = ?cs\<lparr>sh_tree := fst (t_attach T main_root ''val'' main_val t)\<rparr>"
    using assms unfolding main_start_eq by simp
  moreover have "cs_ok ?cs" using cs_ok_start [OF listens] by blast
  ultimately have "cs_ok cs" by simp
  moreover have "accepting ?cs = [0]" "status_ok ?cs" "cs_root ?cs = Some main_root"
    by (simp_all add: accept_def conn_server_new_def object_status_new_def)
  ultimately show ?thesis using \<open>cs = _\<close> by simp
qed

section \<open>A client of the program\<close>

text \<open>The server's tree: the attached property is found under its name, and has the value \<open>x\<close>.\<close>

definition val_attached :: "('t, 'qs, 'qb) tree_api \<Rightarrow> 't \<Rightarrow> u64 \<Rightarrow> bool" where
  "val_attached T t x \<longleftrightarrow> t_at T main_root ''val'' t = (Some main_val, t)
     \<and> t_prop T t main_val = Some \<lparr>prop_type = type_double, prop_value = VDouble x\<rparr>"

text \<open>The client's tree: a proxy made for a type is a property of that type, which nobody listens to.\<close>

definition proxy_made :: "('t, 'qs, 'qb) tree_api \<Rightarrow> string \<Rightarrow> 't sync \<Rightarrow> bool" where
  "proxy_made T type C \<longleftrightarrow>
     (\<exists>v. t_prop T (born T type C) (Proxy (next_proxy C)) = Some \<lparr>prop_type = type, prop_value = v\<rparr> \<and> value_type v = type)
     \<and> silent_at T (Proxy (next_proxy C)) (born T type C)"

text \<open>The server that the accepted connection gets.\<close>

lemma main_accepts:
  assumes "main_start T t = Inr cs"
  obtains cs' cl where "accept_handler oc True 0 (cs\<lparr>accepting := remove1 0 (accepting cs)\<rparr>) = Inr cs'"
    and "map_of (cs_clients cs') 0 = Some cl" and "server_ok (with_shared cs' (cl_server cl))"
    and "has_dev (with_shared cs' (cl_server cl))" and "get_node 0 (with_shared cs' (cl_server cl)) = Some main_root"
    and "tree (with_shared cs' (cl_server cl)) = fst (t_attach T main_root ''val'' main_val t)"
proof -
  note ok = main_start_ok [OF assms]
  have "0 \<in> set (accepting cs)" "status_ok cs" "cs_root cs = Some main_root" using ok by simp_all
  from accept_handler_ok [OF _ this, of oc] ok obtain cs' cl where
    run: "accept_handler oc True 0 (cs\<lparr>accepting := remove1 0 (accepting cs)\<rparr>) = Inr cs'"
    and cl: "cs_clients cs' = map_put 0 cl (cs_clients cs)"
      "cl_server cl = (with_shared cs (sync_new 0 True (sh_tree cs)))
          \<lparr>has_dev := True, root_node := Some main_root, tracked := [(0, Some main_root)], current_nid := 1\<rparr>"
      "with_shared cs' = with_shared cs" by blast
  let ?s = "with_shared cs' (cl_server cl)"
  have "sorted_map (cs_clients cs)" using ok by (simp add: cs_ok_def)
  then have found: "map_of (cs_clients cs') 0 = Some cl" using cl(1) by (simp add: map_of_map_put)
  have none: "sh_proxies cs = Map.empty" "sh_next_proxy cs = 0"
    using assms unfolding main_start_eq by (auto simp: accept_def conn_server_new_def sync_new_def)
  have s: "tracked ?s = [(0, Some main_root)]" "proxies ?s = Map.empty" "next_proxy ?s = 0" "is_server ?s"
    "has_dev ?s" "current_nid ?s = 1" "tree ?s = sh_tree cs"
    using none by (simp_all add: cl with_shared_def sync_new_def)
  have entry: "entry_ok ?s 0 (Some main_root)" by (simp add: main_root_def)
  have "\<not> own ?s i c" for i c using s(2) by (simp add: own_def)
  then have "sync_ok ?s"
    unfolding sync_ok_def s(1) addresses_ok_def s(2) using entry by (auto simp: sorted_map_def)
  moreover have "ids_counted ?s" unfolding ids_counted_def s(1) s(6) by simp
  ultimately have "server_ok ?s" using s(4) by (simp add: server_ok_def)
  moreover have "get_node 0 ?s = Some main_root" unfolding get_node_def s(1) by simp
  moreover have "tree ?s = fst (t_attach T main_root ''val'' main_val t)" using s(7) ok by simp
  ultimately show thesis by (rule that [OF run found _ s(5)])
qed

text \<open>
  C3: the program works end to end. A client that connects to it fetches \<^verbatim>\<open>val\<close> from the root and gets a
  proxy of a \<^verbatim>\<open>double\<close> property, and reading the proxy gives the value the property has in the server's tree.
\<close>

theorem main_serves_val:
  assumes "val_attached TS (fst (t_attach TS main_root ''val'' main_val t)) x"
    and "has_dev C" and "sync_ok C" and "\<not> update_in_process C" and "proxy_made TC type_double C" and "value_laws TC"
    and "qt_laws q"
  shows "\<exists>cs cs' cl req rep S px C1 get val S2 C2.
       main_start TS t = Inr cs
     \<and> accept_handler oc True 0 (cs\<lparr>accepting := remove1 0 (accepting cs)\<rparr>) = Inr cs'
     \<and> map_of (cs_clients cs') 0 = Some cl
     \<and> answered q TS a req (with_shared cs' (cl_server cl)) rep S
     \<and> fetch_node TC 0 ''val'' (C\<lparr>answers := [Some (received rep)]\<rparr>) = Inr (Some px, C1)
     \<and> answered q TS b get S val S2
     \<and> fake_get_value q TC px (C1\<lparr>answers := [Some (received val)]\<rparr>) = Inr (Some (VDouble x), C2)
     \<and> dev_calls C2 = dev_calls C @ [Ask req, Ask get]"
proof -
  obtain cs where start: "main_start TS t = Inr cs" by (rule that [OF main_start_eq])
  obtain cs' cl where acc: "accept_handler oc True 0 (cs\<lparr>accepting := remove1 0 (accepting cs)\<rparr>) = Inr cs'"
    "map_of (cs_clients cs') 0 = Some cl"
    and S: "server_ok (with_shared cs' (cl_server cl))" "has_dev (with_shared cs' (cl_server cl))"
      "get_node 0 (with_shared cs' (cl_server cl)) = Some main_root"
      "tree (with_shared cs' (cl_server cl)) = fst (t_attach TS main_root ''val'' main_val t)"
    using start by (rule main_accepts)
  let ?S = "with_shared cs' (cl_server cl)" and ?t = "fst (t_attach TS main_root ''val'' main_val t)"
  let ?req = "mk_package 0 CMD_AT (wire_string ''val'')" and ?sv = "\<lparr>prop_type = type_double, prop_value = VDouble x\<rparr>"
  have val: "t_at TS main_root ''val'' ?t = (Some main_val, ?t)" "t_prop TS ?t main_val = Some ?sv"
    using assms(1) by (simp_all add: val_attached_def)
  have type: "type_name TS ?t main_val = type_double" by (simp add: type_name_def val(2))
  have fits: "fits_wire (wire_string ''val'')" "fits_wire (wire_string type_double)" by (simp_all add: type_names)
  have root: "App 0 = main_root" "main_val = App 1" by (simp_all add: main_root_def main_val_def)
  obtain k S1 where at: "answered q TS a ?req ?S (mk_package k CMD_AT_SUCCESS (wire_string type_double)) S1"
    and S1: "get_node k S1 = Some main_val" "tree S1 = ?t" "has_dev S1"
  proof (rule server_answers_at [where q = q and a = a, OF S(1,2) S(3) [unfolded main_root_def]])
    show "t_at TS (App 0) ''val'' (tree ?S) = (Some (App 1), ?t)" using val(1) S(4) root by simp
  qed (use fits type root that in simp_all)
  let ?rep = "mk_package k CMD_AT_SUCCESS (wire_string type_double)"
  let ?C = "C\<lparr>answers := [], dev_calls := dev_calls C @ [Ask ?req]\<rparr>"
  let ?f = "\<lparr>fk_nid = Some k, fk_deserialization = False, fk_client = Some (self C)\<rparr>"
  let ?C1 = "adopt (born TC type_double C) (Some ?f) k ?C" and ?px = "Proxy (next_proxy C)"
  have fetch: "fetch_node TC 0 ''val'' (C\<lparr>answers := [Some (received ?rep)]\<rparr>) = Inr (Some ?px, ?C1)"
    using fetch_node_reply [of C "''val''" type_double "replicate 18 0" TC 0 k] assms(2) fits
    by (simp add: known_types_def fake_for_def type_names)
  obtain v where v: "t_prop TC (born TC type_double C) ?px = Some \<lparr>prop_type = type_double, prop_value = v\<rparr>"
    "value_type v = type_double" and silent: "silent_at TC ?px (tree ?C1)"
    using assms(5) by (auto simp: proxy_made_def adopt_def)
  have got: "get_prop TC k ?C1 = Inr (Some (?px, \<lparr>prop_type = type_double, prop_value = v\<rparr>))"
    using v(1) assms(3)
    by (simp add: get_prop_Some adopt_def alive_def sync_ok_def map_of_map_put)
  have px: "fake_of ?C1 ?px = Some ?f" by (simp add: adopt_def fake_of_def proxy_of_def)
  have C1: "self ?C1 = self C" "update_in_process ?C1 = update_in_process C" "has_dev ?C1" "dev_calls ?C1 = dev_calls C @ [Ask ?req]"
    using assms(2) by (simp_all add: adopt_def)
  have sprop: "get_prop TS k S1 = Inr (Some (App 1, ?sv))"
    using S1 val(2) by (simp add: get_prop_Some alive_def get_node_def main_val_def split: option.splits)
  have kind: "same_kind q ?sv \<lparr>prop_type = type_double, prop_value = v\<rparr>"
    using v(2) assms(7) by (simp add: same_kind_def prop_typed_def)
  have f: "fk_client ?f = Some (self ?C1)" "fk_nid ?f = Some k" "\<not> fk_deserialization ?f"
    "\<not> update_in_process ?C1" "has_dev ?C1"
    using C1 assms(4) by simp_all
  have sv: "no_nul q (prop_value ?sv)" "fits_wire (wire_value (machine_serialize q machine_init ?sv))"
    by (simp_all add: machine_serialize_def wire_value_def)
  obtain get gval S2 C2 where "answered q TS b get S1 gval S2"
    and "fake_get_value q TC ?px (?C1\<lparr>answers := [Some (received gval)]\<rparr>) = Inr (Some (prop_value ?sv), C2)"
    and "dev_calls C2 = dev_calls ?C1 @ [Ask get]"
    by (rule value_exchanged [OF sprop S1(3) got px f kind sv assms(6) silent, of b])
  then have "answered q TS b get S1 gval S2
      \<and> fake_get_value q TC ?px (?C1\<lparr>answers := [Some (received gval)]\<rparr>) = Inr (Some (VDouble x), C2)
      \<and> dev_calls C2 = dev_calls C @ [Ask ?req, Ask get]" using C1(4) by simp
  with start acc at fetch show ?thesis by blast
qed

text \<open>Samples: the tree of the program before its start, with the value 42 in the property.\<close>

definition main_nodes :: "(byte list, byte list) sample" where
  "main_nodes = no_nodes\<lparr>sm_prop := [main_val \<mapsto> \<lparr>prop_type = type_double, prop_value = VDouble 42\<rparr>]\<rparr>"

lemma main_samples:
  "val_attached samples (fst (t_attach samples main_root ''val'' main_val main_nodes)) 42"
  "has_dev sample_client" "sync_ok sample_client" "\<not> update_in_process sample_client"
  "proxy_made samples type_double sample_client"
  by (auto simp: val_attached_def main_nodes_def sample_defs sample_client_def sync_new_def sync_ok_def
      sorted_map_def addresses_ok_def own_def proxy_made_def silent_at_def type_names)

theorem main_serves_val_witness:
  "\<exists>px C1 rep val C2. fetch_node samples 0 ''val'' (sample_client\<lparr>answers := [Some (received rep)]\<rparr>) = Inr (Some px, C1)
     \<and> fake_get_value plain_qt samples px (C1\<lparr>answers := [Some (received val)]\<rparr>) = Inr (Some (VDouble 42), C2)"
  using main_serves_val [OF main_samples sample_value_laws plain_qt_laws, of "[]" 5 6] by blast

end
