(* ===== verification/Qt_Server.thy ===== *)
theory Qt_Server
  imports Conn_Server
begin

text \<open>
  Serving over Qt: the \<^verbatim>\<open>acceptor\<close> of \<^verbatim>\<open>qt/acceptor.h\<close>, a \<^verbatim>\<open>QTcpServer\<close> with a slot for its signal
  \<^verbatim>\<open>newConnection\<close>, and the \<^verbatim>\<open>conn_server\<close> of \<^verbatim>\<open>qt/conn_server.h\<close>, which makes a \<^verbatim>\<open>server\<close> for each
  packet stream the acceptor announces.

  Both use a class \<^verbatim>\<open>package_stream\<close> that is no longer part of the repository. It is a parameter:
  what is called on it are the fields of \<open>package_stream_api\<close>, and what the lemmas assume of it is
  \<open>stream_laws\<close>, what the constructor of the class that took its place, \<^verbatim>\<open>request_reply_dispatcher\<close>, does, and, where
  it is said, \<open>whole_packets\<close>. Nobody can tell whether the missing class behaved like this, so
  what is shown here is shown under these assumptions only. The Qt
  objects are the environment: \<^verbatim>\<open>listen\<close> succeeds or not, but always fails on a server that is
  listening; the signal \<^verbatim>\<open>newConnection\<close> runs the slot once for every \<^verbatim>\<open>connect\<close>; and
  \<^verbatim>\<open>nextPendingConnection\<close> gives a null pointer when there is none.
\<close>

section \<open>The packet stream\<close>

text \<open>
  \<^verbatim>\<open>new package_stream(sbs)\<close> for the byte stream of connection \<open>i\<close>, and \<^verbatim>\<open>start()\<close> with the packets it
  passes to the listener before it returns.
\<close>

record 'p package_stream_api =
  ps_new :: "nat \<Rightarrow> links \<Rightarrow> fault + ('p \<times> links)"
  ps_start :: "'p \<Rightarrow> fault + ('p \<times> (addr \<times> package) list)"

section \<open>State\<close>

text \<open>
  \<open>qt_listening\<close> and \<open>waiting_sockets\<close> are the state of the \<^verbatim>\<open>QTcpServer\<close>, \<open>slots\<close> is the number of
  times its signal has been connected to the slot, \<open>qt_sockets\<close> the number of sockets so far. A
  client is a packet stream and its server.
\<close>

record ('t, 'p) qt_server =
  qt_listening :: bool
  waiting_sockets :: "nat list"
  qt_sockets :: nat
  slots :: nat
  server_status :: bool
  qt_acc_links :: links
  qt_root :: "node_ref option"
  qt_links :: links
  qt_clients :: "(nat \<times> ('p \<times> 't sync)) list"
  qt_tree :: 't
  qt_proxies :: "nat \<Rightarrow> proxy option"
  qt_next_proxy :: nat

text \<open>The constructors of \<^verbatim>\<open>acceptor\<close> and \<^verbatim>\<open>conn_server\<close>, the one listening to the other.\<close>

definition qt_server_new :: "node_ref option \<Rightarrow> 't sync \<Rightarrow> ('t, 'p) qt_server" where
  "qt_server_new r s =
     \<lparr>qt_listening = False, waiting_sockets = [], qt_sockets = 0, slots = 0, server_status = False,
      qt_acc_links = acc_joined, qt_root = r, qt_links = links_new, qt_clients = [],
      qt_tree = tree s, qt_proxies = proxies s, qt_next_proxy = next_proxy s\<rparr>"

definition qt_with_shared :: "('t, 'p) qt_server \<Rightarrow> 't sync \<Rightarrow> 't sync" where
  "qt_with_shared a s = s\<lparr>tree := qt_tree a, proxies := qt_proxies a, next_proxy := qt_next_proxy a\<rparr>"

section \<open>acceptor\<close>

text \<open>\<^verbatim>\<open>acceptor::accept\<close>; \<open>can_listen\<close> says whether a \<^verbatim>\<open>QTcpServer\<close> that is idle could listen.\<close>

definition qt_accept :: "bool \<Rightarrow> ('t, 'p) qt_server \<Rightarrow> ('t, 'p) qt_server" where
  "qt_accept can_listen a =
     (let listened = (\<not> qt_listening a \<and> can_listen);
          a = a\<lparr>qt_listening := qt_listening a \<or> listened\<rparr>
      in if \<not> listened \<and> server_status a = False then a
         else a\<lparr>server_status := True, slots := Suc (slots a)\<rparr>)"

text \<open>\<^verbatim>\<open>conn_server::process_notification\<close>. Packets of the start go to the listener of the stream.\<close>

definition qt_conn_notification ::
  "'p package_stream_api \<Rightarrow> nat \<Rightarrow> 'p \<Rightarrow> ('t, 'p) qt_server \<Rightarrow> fault + ('t, 'p) qt_server" where
  "qt_conn_notification P i p a =
     andThen (server_construct i (qt_tree a) (qt_links a)) (\<lambda>(srv, ls).
     andThen (server_set_root (qt_root a) (qt_with_shared a srv)) (\<lambda>srv.
       let a = a\<lparr>qt_clients := map_put i (p, srv) (qt_clients a), qt_links := ls\<rparr>
       in andThen (ps_start P p) (\<lambda>(p, ms).
          andThen (notify_stream (Inr srv) (\<lambda>_. notify_all ms srv) (sd_obs i) ls) (\<lambda>srv.
            Inr (a\<lparr>qt_clients := map_put i (p, srv) (qt_clients a)\<rparr>)))))"

text \<open>The slot, with the \<^verbatim>\<open>notify(ps)\<close> that ends it.\<close>

definition slot_new_connection ::
  "'p package_stream_api \<Rightarrow> ('t, 'p) qt_server \<Rightarrow> fault + ('t, 'p) qt_server" where
  "slot_new_connection P a =
     (if server_status a
      then case waiting_sockets a of
             [] \<Rightarrow> Inl Null_deref
           | i # rest \<Rightarrow>
               let a = a\<lparr>waiting_sockets := rest, qt_links := observable_construct (sc_obs i) (qt_links a)\<rparr>
               in andThen (ps_new P i (qt_links a)) (\<lambda>(p, ls).
                  let a = a\<lparr>qt_links := ls\<rparr>
                  in andThen (lock_obs acc_obs (qt_acc_links a)) (\<lambda>als.
                     andThen (case listener_of als acc_obs of
                                None \<Rightarrow> Inr (a\<lparr>qt_acc_links := als\<rparr>)
                              | Some _ \<Rightarrow> qt_conn_notification P i p (a\<lparr>qt_acc_links := als\<rparr>)) (\<lambda>a.
                       Inr (a\<lparr>qt_acc_links := unlock_obs acc_obs (qt_acc_links a)\<rparr>))))
      else Inr a)"

text \<open>A connection arrives: the \<^verbatim>\<open>QTcpServer\<close> emits its signal, and the slot runs for each \<^verbatim>\<open>connect\<close>.\<close>

fun run_slots :: "'p package_stream_api \<Rightarrow> nat \<Rightarrow> ('t, 'p) qt_server \<Rightarrow> fault + ('t, 'p) qt_server" where
  "run_slots P 0 a = Inr a"
| "run_slots P (Suc n) a = andThen (slot_new_connection P a) (run_slots P n)"

definition new_connection ::
  "'p package_stream_api \<Rightarrow> ('t, 'p) qt_server \<Rightarrow> fault + ('t, 'p) qt_server" where
  "new_connection P a =
     (let a = a\<lparr>waiting_sockets := waiting_sockets a @ [qt_sockets a], qt_sockets := Suc (qt_sockets a)\<rparr>
      in run_slots P (slots a) a)"

text \<open>
  \<^verbatim>\<open>conn_server::~conn_server\<close>: the servers are destroyed, the packet streams are not. The destructor of a
  server joins its thread and takes its link to the packet stream apart.
\<close>

fun qt_clear ::
  "('qs, 'qb) qt_api \<Rightarrow> ('t, 'qs, 'qb) tree_api \<Rightarrow> (nat \<times> ('p \<times> 't sync)) list \<Rightarrow> ('t, 'p) qt_server
     \<Rightarrow> (fault + ('t, 'p) qt_server) option" where
  "qt_clear q T [] a = Some (Inr a)"
| "qt_clear q T ((i, (p, srv)) # cls) a =
     (case sync_join q T (qt_with_shared a srv) of
        None \<Rightarrow> None
      | Some (Inl e) \<Rightarrow> Some (Inl e)
      | Some (Inr s) \<Rightarrow>
          (case listener_destroy (srv_lst i) (qt_links a) of
             Inl e \<Rightarrow> Some (Inl e)
           | Inr ls \<Rightarrow> qt_clear q T cls
               (a\<lparr>qt_tree := tree s, qt_proxies := proxies s, qt_next_proxy := next_proxy s, qt_links := ls\<rparr>)))"

definition qt_conn_server_destroy ::
  "('qs, 'qb) qt_api \<Rightarrow> ('t, 'qs, 'qb) tree_api \<Rightarrow> ('t, 'p) qt_server
     \<Rightarrow> (fault + ('t, 'p) qt_server) option" where
  "qt_conn_server_destroy q T a =
     map_option (\<lambda>r. andThen r (\<lambda>a.
         andThen (listener_destroy conn_lst (qt_acc_links a)) (\<lambda>als.
           Inr (a\<lparr>qt_clients := [], qt_acc_links := als\<rparr>))))
       (qt_clear q T (qt_clients a) a)"

section \<open>Histories\<close>

text \<open>The program calls \<^verbatim>\<open>accept\<close>; a connection arrives, which it can only when the server listens.\<close>

datatype qt_event = Accept bool | Connection

fun qt_step :: "'p package_stream_api \<Rightarrow> qt_event \<Rightarrow> ('t, 'p) qt_server \<Rightarrow> fault + ('t, 'p) qt_server" where
  "qt_step P (Accept b) a = Inr (qt_accept b a)"
| "qt_step P Connection a = (if qt_listening a then new_connection P a else Inr a)"

fun qt_run :: "'p package_stream_api \<Rightarrow> qt_event list \<Rightarrow> ('t, 'p) qt_server \<Rightarrow> fault + ('t, 'p) qt_server" where
  "qt_run P [] a = Inr a"
| "qt_run P (e # es) a = andThen (qt_step P e a) (qt_run P es)"

text \<open>
  What is assumed: making a packet stream links its own ends only and leaves it without a listener, and
  starting it returns.
\<close>

definition stream_laws :: "'p package_stream_api \<Rightarrow> bool" where
  "stream_laws P \<longleftrightarrow>
     (\<forall>i ls. linked ls \<and> unlocked ls \<and> (\<forall>ob. listener_of ls ob \<noteq> Some (sd_lst i)) \<and>
        listener_of ls (sc_obs i) = None \<longrightarrow>
        (\<exists>p ls' p' ms. ps_new P i ls = Inr (p, ls') \<and> linked ls' \<and> unlocked ls' \<and>
           (\<forall>ob. listener_of ls' ob = listener_of ls ob
              \<or> ob = sc_obs i \<and> listener_of ls' ob = Some (sd_lst i)) \<and>
           ps_start P p = Inr (p', ms)))"

text \<open>
  What starting it passes on are packets with a header. A shorter one would end the program
  (\<open>short_packet_out_of_bounds\<close>).
\<close>

definition whole_packets :: "'p package_stream_api \<Rightarrow> bool" where
  "whole_packets P \<longleftrightarrow> (\<forall>p p' ms. ps_start P p = Inr (p', ms) \<longrightarrow> (\<forall>m \<in> set ms. has_header (snd m)))"

lemma stream_lawsD:
  assumes "stream_laws P" and "linked ls" and "unlocked ls"
    and "\<And>ob. listener_of ls ob \<noteq> Some (sd_lst i)" and "listener_of ls (sc_obs i) = None"
  obtains p ls' p' ms where "ps_new P i ls = Inr (p, ls')" and "linked ls'" and "unlocked ls'"
    and "\<And>ob. listener_of ls' ob = listener_of ls ob \<or> ob = sc_obs i \<and> listener_of ls' ob = Some (sd_lst i)"
    and "ps_start P p = Inr (p', ms)"
proof -
  from assms have "\<exists>p ls' p' ms. ps_new P i ls = Inr (p, ls') \<and> linked ls' \<and> unlocked ls' \<and>
       (\<forall>ob. listener_of ls' ob = listener_of ls ob \<or> ob = sc_obs i \<and> listener_of ls' ob = Some (sd_lst i)) \<and>
       ps_start P p = Inr (p', ms)"
    unfolding stream_laws_def by simp
  with that show ?thesis by blast
qed

section \<open>One connection\<close>

definition qt_links_ok :: "links \<Rightarrow> nat set \<Rightarrow> bool" where
  "qt_links_ok ls I \<longleftrightarrow> linked ls \<and> unlocked ls
     \<and> (\<forall>i \<in> I. listener_of ls (sd_obs i) = Some (srv_lst i))
     \<and> (\<forall>ob l. listener_of ls ob = Some l \<longrightarrow>
          (\<exists>i \<in> I. ob = sc_obs i \<and> l = sd_lst i \<or> ob = sd_obs i \<and> l = srv_lst i))"

lemma qt_links_fresh:
  assumes "qt_links_ok ls I" and "i \<notin> I"
  shows "listener_of ls (sc_obs i) = None" and "listener_of ls (sd_obs i) = None"
    and "listener_of ls ob \<noteq> Some (sd_lst i)" and "listener_of ls ob \<noteq> Some (srv_lst i)"
  using assms unfolding qt_links_ok_def
  by (metis link_names_inj link_names_neq not_None_eq)+

lemma qt_link_server:
  assumes "stream_laws P" and "qt_links_ok ls I" and "i \<notin> I"
  obtains p ls1 p' ms where "ps_new P i (observable_construct (sc_obs i) ls) = Inr (p, ls1)"
    and "ps_start P p = Inr (p', ms)" and "linked ls1" and "unlocked ls1"
    and "qt_links_ok (link_update (sd_obs i) (Some (srv_lst i)) ls1) (insert i I)"
proof -
  note fresh = qt_links_fresh [OF assms(2,3)]
  have "linked ls" "unlocked ls" using assms(2) by (simp_all add: qt_links_ok_def)
  from stream_lawsD [OF assms(1) this fresh(3,1)] obtain p ls1 p' ms where new: "ps_new P i ls = Inr (p, ls1)" "linked ls1" "unlocked ls1"
    "ps_start P p = Inr (p', ms)"
    and only: "\<And>ob. listener_of ls1 ob = listener_of ls ob
      \<or> ob = sc_obs i \<and> listener_of ls1 ob = Some (sd_lst i)"
    by metis
  let ?ls = "link_update (sd_obs i) (Some (srv_lst i)) ls1"
  have unused: "listener_of ls1 ob \<noteq> Some (srv_lst i)" for ob
    using only [of ob] fresh(4) [of ob] by auto
  then have after: "listener_of ?ls ob = (if ob = sd_obs i then Some (srv_lst i) else listener_of ls1 ob)" for ob
    by (simp add: listener_of_link_update)
  have "listener_of ?ls (sd_obs j) = Some (srv_lst j)" if "j \<in> insert i I" for j
  proof (cases "j = i")
    case False
    then have "listener_of ls (sd_obs j) = Some (srv_lst j)"
      using that assms(2) by (simp add: qt_links_ok_def)
    then show ?thesis using only [of "sd_obs j"] False by (simp add: after)
  qed (simp add: after)
  moreover have "\<exists>j \<in> insert i I. ob = sc_obs j \<and> l = sd_lst j \<or> ob = sd_obs j \<and> l = srv_lst j"
    if "listener_of ?ls ob = Some l" for ob l
  proof (cases "ob = sd_obs i \<or> listener_of ls1 ob \<noteq> listener_of ls ob")
    case True
    then show ?thesis using that only [of ob] by (auto simp: after split: if_splits)
  next
    case False
    then have "listener_of ls ob = Some l" using that by (simp add: after)
    then show ?thesis using assms(2) unfolding qt_links_ok_def by blast
  qed
  ultimately have "qt_links_ok ?ls (insert i I)"
    using new(2,3) by (simp add: qt_links_ok_def linked_link_update unlocked_link_update)
  with that new observable_construct_fresh [OF fresh(1)] show ?thesis by simp
qed

text \<open>The server of a connection, before and after the packets that had arrived before it was made.\<close>

definition qt_ready :: "node_ref \<Rightarrow> 't sync \<Rightarrow> bool" where
  "qt_ready r s \<longleftrightarrow> is_server s \<and> has_dev s \<and> root_node s = Some r \<and> tracked s = [(0, Some r)]"

lemma qt_notified:
  assumes start: "ps_start P p = Inr (p', ms)" and ms: "\<forall>m \<in> set ms. has_header (snd m)"
    and "linked ls" and "unlocked ls" and "qt_root a = Some r" and "qt_links a = ls"
    and that: "srv0 = (qt_with_shared a (sync_new i True (qt_tree a)))
        \<lparr>has_dev := True, root_node := Some r, tracked := [(0, Some r)], current_nid := 1\<rparr>"
  shows "\<exists>srv. qt_conn_notification P i p a
      = Inr (a\<lparr>qt_clients := map_put i (p', srv) (map_put i (p, srv0) (qt_clients a)),
               qt_links := link_update (sd_obs i) (Some (srv_lst i)) ls\<rparr>)
    \<and> qt_ready r srv"
proof -
  have made: "server_construct i (qt_tree a) ls
      = Inr ((sync_new i True (qt_tree a))\<lparr>has_dev := True\<rparr>, link_update (sd_obs i) (Some (srv_lst i)) ls)"
    using assms(3,4) by (simp add: server_construct_def set_device_def sync_new_def set_listener_link_update)
  have rooted: "server_set_root (Some r) (qt_with_shared a ((sync_new i True (qt_tree a))\<lparr>has_dev := True\<rparr>)) = Inr srv0"
    by (simp add: that server_set_root_def sync_set_root_def do_track_def do_track_as_def generate_nid_def
        qt_with_shared_def sync_new_def)
  have "is_server srv0" "has_dev srv0" by (simp_all add: that qt_with_shared_def sync_new_def)
  from notify_all_run [OF this ms] have "\<exists>srv. notify_all ms srv0 = Inr srv \<and> qt_ready r srv"
    by (simp add: qt_ready_def that qt_with_shared_def sync_new_def)
  then obtain srv where "notify_all ms srv0 = Inr srv" "qt_ready r srv" by blast
  moreover have "listener_of (link_update (sd_obs i) (Some (srv_lst i)) ls) (sd_obs i) = Some (srv_lst i)"
    by (simp add: listener_of_link_update)
  ultimately show ?thesis
    using assms(5,6) made rooted start
    by (intro exI [of _ srv]) (simp add: qt_conn_notification_def notify_stream_def)
qed

section \<open>Any number of connections\<close>

definition qt_ok :: "node_ref \<Rightarrow> ('t, 'p) qt_server \<Rightarrow> bool" where
  "qt_ok r a \<longleftrightarrow> qt_root a = Some r \<and> qt_acc_links a = acc_joined \<and> waiting_sockets a = []
     \<and> qt_listening a = server_status a \<and> server_status a = (slots a \<noteq> 0)
     \<and> sorted_map (qt_clients a) \<and> fst ` set (qt_clients a) = {..<qt_sockets a}
     \<and> qt_links_ok (qt_links a) {..<qt_sockets a}"

text \<open>A client for each connection so far, with its server as it is made.\<close>

definition qt_all_ready :: "node_ref \<Rightarrow> ('t, 'p) qt_server \<Rightarrow> bool" where
  "qt_all_ready r a \<longleftrightarrow> (\<forall>i < qt_sockets a. \<exists>p srv. map_of (qt_clients a) i = Some (p, srv) \<and> qt_ready r srv)"

lemma qt_ok_new: "qt_ok r (qt_server_new (Some r) s)" "qt_all_ready r (qt_server_new (Some r) s)"
  by (simp_all add: qt_ok_def qt_all_ready_def qt_server_new_def qt_links_ok_def linked_def unlocked_def links_new_def)

lemma qt_accept_eq:
  assumes "qt_ok r a"
  shows "qt_accept b a = (if b \<or> qt_listening a
    then a\<lparr>qt_listening := True, server_status := True, slots := Suc (slots a)\<rparr> else a)"
  using assms by (cases a) (auto simp: qt_accept_def qt_ok_def Let_def)

lemma qt_accept_ok: "qt_ok r a \<Longrightarrow> qt_ok r (qt_accept b a)"
  by (frule qt_accept_eq [where b = b]) (simp add: qt_ok_def)

lemma qt_accept_ready: "qt_ok r a \<Longrightarrow> qt_all_ready r a \<Longrightarrow> qt_all_ready r (qt_accept b a)"
  by (frule qt_accept_eq [where b = b]) (simp add: qt_all_ready_def)

text \<open>The first run of the slot serves the connection; each further one finds none.\<close>

lemma slot_serves:
  assumes "stream_laws P" and "whole_packets P" and "qt_ok r a" and "server_status a"
  shows "\<exists>a'. slot_new_connection P (a\<lparr>waiting_sockets := [qt_sockets a], qt_sockets := Suc (qt_sockets a)\<rparr>) = Inr a'
    \<and> qt_ok r a' \<and> qt_sockets a' = Suc (qt_sockets a) \<and> slots a' = slots a \<and> server_status a'
    \<and> (qt_all_ready r a \<longrightarrow> qt_all_ready r a')"
proof -
  let ?i = "qt_sockets a"
  have ok: "qt_links_ok (qt_links a) {..<?i}" "sorted_map (qt_clients a)"
    "fst ` set (qt_clients a) = {..<?i}" "qt_acc_links a = acc_joined" "qt_root a = Some r"
    using assms(3) by (simp_all add: qt_ok_def)
  obtain p ls p' ms where new: "ps_new P ?i (observable_construct (sc_obs ?i) (qt_links a)) = Inr (p, ls)"
    and start: "ps_start P p = Inr (p', ms)"
    and ls: "linked ls" "unlocked ls"
    and joined: "qt_links_ok (link_update (sd_obs ?i) (Some (srv_lst ?i)) ls) {..<Suc ?i}"
    using qt_link_server [OF assms(1) ok(1), of ?i] unfolding lessThan_Suc by blast
  have whole: "\<forall>m \<in> set ms. has_header (snd m)" using assms(2) start unfolding whole_packets_def by blast
  let ?a = "a\<lparr>qt_sockets := Suc ?i, waiting_sockets := [], qt_links := ls,
              qt_acc_links := acc_joined\<lparr>obs_held := [acc_obs]\<rparr>\<rparr>"
  obtain srv srv0 where told: "qt_conn_notification P ?i p ?a
      = Inr (?a\<lparr>qt_clients := map_put ?i (p', srv) (map_put ?i (p, srv0) (qt_clients a)),
               qt_links := link_update (sd_obs ?i) (Some (srv_lst ?i)) ls\<rparr>)" and srv: "qt_ready r srv"
    using qt_notified [OF start whole ls, of ?a r _ ?i] ok(5) by auto
  let ?b = "?a\<lparr>qt_clients := map_put ?i (p', srv) (map_put ?i (p, srv0) (qt_clients a)),
               qt_links := link_update (sd_obs ?i) (Some (srv_lst ?i)) ls, qt_acc_links := acc_joined\<rparr>"
  have "slot_new_connection P (a\<lparr>waiting_sockets := [?i], qt_sockets := Suc ?i\<rparr>) = Inr ?b"
    using assms(4) new told by (simp add: slot_new_connection_def ok(4) acc_link_simps)
  moreover have "qt_ok r ?b"
    using assms(3) joined ok by (auto simp: qt_ok_def set_map_put sorted_map_put lessThan_Suc)
  moreover have "qt_all_ready r ?b" if "qt_all_ready r a"
    using that srv ok(2) by (auto simp: qt_all_ready_def map_of_map_put sorted_map_put less_Suc_eq)
  ultimately show ?thesis using assms(4) by (intro exI [of _ ?b]) simp
qed

lemma new_connection_result:
  assumes "stream_laws P" and "whole_packets P" and "qt_ok r a" and "qt_listening a"
  shows "if slots a = 1
    then \<exists>a'. new_connection P a = Inr a' \<and> qt_ok r a' \<and> qt_sockets a' = Suc (qt_sockets a) \<and> slots a' = 1
           \<and> (qt_all_ready r a \<longrightarrow> qt_all_ready r a')
    else new_connection P a = Inl Null_deref"
proof -
  have a: "server_status a" "slots a \<noteq> 0" "waiting_sockets a = []" using assms(3,4) by (auto simp: qt_ok_def)
  from slot_serves [OF assms(1-3) a(1)] obtain a' where
    one: "slot_new_connection P (a\<lparr>waiting_sockets := [qt_sockets a], qt_sockets := Suc (qt_sockets a)\<rparr>) = Inr a'"
    and a': "qt_ok r a'" "qt_sockets a' = Suc (qt_sockets a)" "slots a' = slots a" "server_status a'"
      "qt_all_ready r a \<longrightarrow> qt_all_ready r a'" by blast
  obtain n where n: "slots a = Suc n" using a(2) by (cases "slots a") simp_all
  have none: "slot_new_connection P a' = Inl Null_deref"
    using a'(1,4) by (simp add: slot_new_connection_def qt_ok_def)
  have "new_connection P a = run_slots P n a'" using a(3) n one by (simp add: new_connection_def)
  then show ?thesis using n none a' by (cases n) auto
qed

lemma qt_connections:
  assumes "stream_laws P" and "whole_packets P" and "qt_ok r a" and "qt_listening a" and "slots a = 1" and "qt_all_ready r a"
  shows "\<exists>a'. qt_run P (replicate n Connection) a = Inr a' \<and> qt_ok r a' \<and> qt_listening a' \<and> slots a' = 1
    \<and> qt_sockets a' = qt_sockets a + n \<and> qt_all_ready r a'"
  using assms(3-6)
proof (induction n arbitrary: a)
  case 0
  then show ?case by simp
next
  case (Suc n)
  from new_connection_result [OF assms(1,2) Suc.prems(1,2)] Suc.prems(3,4) obtain a1 where
    step: "new_connection P a = Inr a1" and a1: "qt_ok r a1" "qt_sockets a1 = Suc (qt_sockets a)" "slots a1 = 1"
      "qt_all_ready r a1" by auto
  have "qt_listening a1" using a1(1,3) by (simp add: qt_ok_def)
  from Suc.IH [OF a1(1) this a1(3,4)] a1(2) step Suc.prems(2) show ?case by auto
qed

lemma qt_retries: "qt_ok r a \<Longrightarrow> \<not> qt_listening a \<Longrightarrow> qt_run P (replicate k (Accept False) @ es) a = qt_run P es a"
  by (induction k) (simp_all add: qt_accept_eq)

lemma qt_history:
  assumes "stream_laws P" and "whole_packets P"
  shows "\<exists>a. qt_run P (replicate k (Accept False) @ Accept True # replicate n Connection)
           (qt_server_new (Some r) s0) = Inr a
     \<and> qt_ok r a \<and> qt_listening a \<and> slots a = 1 \<and> qt_sockets a = n \<and> qt_all_ready r a"
proof -
  let ?a0 = "qt_server_new (Some r) s0" let ?a1 = "qt_accept True ?a0"
  have idle: "\<not> qt_listening ?a0" "slots ?a0 = 0" "qt_sockets ?a0 = 0" by (simp_all add: qt_server_new_def)
  have a1: "qt_ok r ?a1" "qt_all_ready r ?a1"
    by (simp_all add: qt_accept_ok qt_accept_ready qt_ok_new)
  have "qt_listening ?a1" "slots ?a1 = 1" "qt_sockets ?a1 = 0"
    unfolding qt_accept_eq [OF qt_ok_new(1)] using idle by simp_all
  with qt_connections [OF assms a1(1) this(1,2) a1(2), of n] obtain a where
    "qt_run P (replicate n Connection) ?a1 = Inr a" "qt_ok r a" "qt_listening a" "slots a = 1"
    "qt_sockets a = n" "qt_all_ready r a" by auto
  then show ?thesis by (subst qt_retries [OF qt_ok_new(1) idle(1)]) auto
qed

section \<open>Properties\<close>

text \<open>
  The Qt server. However often \<^verbatim>\<open>accept\<close> fails before it succeeds, every connection that arrives
  afterwards gets a server of its own, linked to its packet stream, with the root of the tree under id 0; no mutex
  is locked twice.
\<close>

theorem qt_connections_served:
  assumes "stream_laws P" and "whole_packets P"
  shows "\<exists>a. qt_run P (replicate k (Accept False) @ Accept True # replicate n Connection)
           (qt_server_new (Some r) s0) = Inr a
     \<and> qt_all_ready r a \<and> qt_sockets a = n \<and> fst ` set (qt_clients a) = {..<n}
     \<and> (\<forall>i < n. listener_of (qt_links a) (sd_obs i) = Some (srv_lst i)) \<and> unlocked (qt_links a)"
  using qt_history [OF assms, of k n r s0] by (auto simp: qt_ok_def qt_links_ok_def)

text \<open>
  Calling \<^verbatim>\<open>accept\<close> again on a Qt server that serves breaks it. The second \<^verbatim>\<open>listen\<close> fails, but as
  \<^verbatim>\<open>server_status\<close> is set the code takes the branch of success and connects the slot once more: the next connection
  runs the slot twice, and its second run uses the null pointer it gets in place of a socket.
\<close>

theorem qt_second_accept_crashes:
  assumes "stream_laws P" and "whole_packets P"
  shows "\<exists>a. qt_run P (replicate k (Accept False) @ Accept True # replicate n Connection)
           (qt_server_new (Some r) s0) = Inr a
     \<and> (\<exists>a'. qt_run P [Connection] a = Inr a' \<and> qt_sockets a' = Suc n)
     \<and> qt_run P [Accept b, Connection] a = Inl Null_deref"
proof -
  from qt_history [OF assms, of k n r s0] obtain a where
    run: "qt_run P (replicate k (Accept False) @ Accept True # replicate n Connection) (qt_server_new (Some r) s0) = Inr a"
    and a: "qt_ok r a" "qt_listening a" "slots a = 1" "qt_sockets a = n" by blast
  from new_connection_result [OF assms a(1,2)] a(2-4)
  have one: "\<exists>a'. qt_run P [Connection] a = Inr a' \<and> qt_sockets a' = Suc n" by auto
  have two: "qt_listening (qt_accept b a)" "slots (qt_accept b a) = 2"
    unfolding qt_accept_eq [OF a(1)] using a(2,3) by simp_all
  from new_connection_result [OF assms qt_accept_ok [OF a(1)] two(1)] two
  have "qt_run P [Accept b, Connection] a = Inl Null_deref" by simp
  with run one show ?thesis by blast
qed

text \<open>
  The class that took the place of \<^verbatim>\<open>package_stream\<close>, over the Qt byte stream, when no bytes have arrived
  yet: it meets the laws.
\<close>

record qt_stream =
  qst_bytes :: socket_bytestream
  qst_codec :: codec
  qst_dispatcher :: dispatcher

definition rr_stream :: "qt_stream package_stream_api" where
  "rr_stream =
     \<lparr>ps_new = (\<lambda>i ls. andThen (set_listener (sc_obs i) (Some (sd_lst i)) ls) (\<lambda>ls.
        Inr (\<lparr>qst_bytes = socket_bytestream_new, qst_codec = set_transport codec_new,
              qst_dispatcher = dispatcher_new\<rparr>, ls))),
      ps_start = (\<lambda>p. andThen (dispatcher_start (\<lambda>_. qt_start 0 [] 0) (qst_codec p) (qst_bytes p)) (\<lambda>_.
        Inr (p, [])))\<rparr>"

lemma rr_stream_laws: "stream_laws rr_stream"
proof -
  have "\<exists>p ls' p' ms. ps_new rr_stream i ls = Inr (p, ls') \<and> linked ls' \<and> unlocked ls' \<and>
      (\<forall>ob. listener_of ls' ob = listener_of ls ob \<or> ob = sc_obs i \<and> listener_of ls' ob = Some (sd_lst i)) \<and>
      ps_start rr_stream p = Inr (p', ms)"
    if "linked ls" "unlocked ls" "\<forall>ob. listener_of ls ob \<noteq> Some (sd_lst i)" for i ls
    using that
    by (simp add: rr_stream_def set_listener_link_update linked_link_update unlocked_link_update
        listener_of_link_update dispatcher_start_def get_transport_def set_transport_def qt_start_def)
  then show ?thesis unfolding stream_laws_def by blast
qed

lemma rr_stream_whole: "whole_packets rr_stream"
  by (auto simp: whole_packets_def rr_stream_def andThen_eq_Inr)

theorem qt_connections_served_witness:
  "\<exists>a. qt_run rr_stream [Accept False, Accept True, Connection, Connection] (qt_server_new (Some (App 0)) sample_server) = Inr a
     \<and> fst ` set (qt_clients a) = {..<2}"
proof -
  have "replicate 1 (Accept False) @ Accept True # replicate 2 Connection = [Accept False, Accept True, Connection, Connection]"
    by (simp add: numeral_2_eq_2)
  then show ?thesis using qt_connections_served [OF rr_stream_laws rr_stream_whole, of 1 2 "App 0" sample_server] by metis
qed

theorem qt_second_accept_crashes_witness:
  "qt_run rr_stream [Accept True, Accept False, Connection] (qt_server_new (Some (App 0)) sample_server) = Inl Null_deref"
  using qt_second_accept_crashes [OF rr_stream_laws rr_stream_whole, of 0 0 "App 0" sample_server False] by auto

text \<open>
  Destroying the Qt \<^verbatim>\<open>conn_server\<close>, when each processing thread is between two packets, joins the threads and is
  safe for what is still under way: the packet streams stay, but have no listener any more, so what
  arrives for them is dropped.
\<close>

lemma qt_clear_ok:
  "linked (qt_links a) \<Longrightarrow> unlocked (qt_links a)
     \<Longrightarrow> \<exists>ls. qt_clear q T cls a = Some (Inr (a\<lparr>qt_links := ls\<rparr>)) \<and> linked ls \<and> unlocked ls
     \<and> (\<forall>ob. listener_of ls ob = (if \<exists>i \<in> fst ` set cls. listener_of (qt_links a) ob = Some (srv_lst i)
          then None else listener_of (qt_links a) ob))"
proof (induction cls arbitrary: a)
  case Nil
  then show ?case by (simp add: exI [of _ "qt_links a"])
next
  case (Cons e cls)
  obtain i p srv where e: "e = (i, (p, srv))" by (cases e)
  obtain ls1 where one: "listener_destroy (srv_lst i) (qt_links a) = Inr ls1" "linked ls1" "unlocked ls1"
    "\<And>x. listener_of ls1 x = (if listener_of (qt_links a) x = Some (srv_lst i) then None else listener_of (qt_links a) x)"
    using Cons.prems by (rule listener_destroy_links) blast
  let ?s = "(qt_with_shared a srv)\<lparr>pkg_queue := \<lparr>elements = tl (elements (pkg_queue srv) @ [None])\<rparr>\<rparr>"
  have "a\<lparr>qt_tree := tree ?s, qt_proxies := proxies ?s, qt_next_proxy := next_proxy ?s, qt_links := ls1\<rparr>
      = a\<lparr>qt_links := ls1\<rparr>" by (simp add: qt_with_shared_def)
  then have "qt_clear q T (e # cls) a = qt_clear q T cls (a\<lparr>qt_links := ls1\<rparr>)"
    using one(1) by (simp add: e sync_join_ends qt_with_shared_def)
  with Cons.IH [of "a\<lparr>qt_links := ls1\<rparr>"] one(2,3) show ?case
    by (fastforce simp: one(4) e)
qed

theorem qt_shutdown_unlinks:
  assumes "qt_ok r a"
  shows "\<exists>a'. qt_conn_server_destroy q T a = Some (Inr a') \<and> qt_clients a' = []
     \<and> (\<forall>i. notify_stream None Some (sd_obs i) (qt_links a') = None)"
proof -
  let ?I = "fst ` set (qt_clients a)"
  have ok: "qt_links_ok (qt_links a) ?I" "qt_acc_links a = acc_joined"
    using assms by (simp_all add: qt_ok_def)
  then have "linked (qt_links a)" "unlocked (qt_links a)" by (simp_all add: qt_links_ok_def)
  from qt_clear_ok [OF this, of q T "qt_clients a"] obtain ls where
    "qt_clear q T (qt_clients a) a = Some (Inr (a\<lparr>qt_links := ls\<rparr>))"
    and ls: "\<And>ob. listener_of ls ob = (if \<exists>i \<in> ?I.
       listener_of (qt_links a) ob = Some (srv_lst i) then None else listener_of (qt_links a) ob)"
    by auto
  moreover have "listener_of ls (sd_obs i) = None" for i
  proof (cases "listener_of (qt_links a) (sd_obs i)")
    case (Some l)
    with ok(1) obtain j where "j \<in> ?I" "sd_obs i = sc_obs j \<or> l = srv_lst j"
      unfolding qt_links_ok_def by blast
    with Some have "\<exists>j \<in> ?I. listener_of (qt_links a) (sd_obs i) = Some (srv_lst j)" by auto
    then show ?thesis unfolding ls by simp
  qed (simp add: ls)
  ultimately show ?thesis
    using ok(2) by (simp add: qt_conn_server_destroy_def acc_link_simps notify_stream_def)
qed

end
