(* ===== verification/Qt_Reader.thy ===== *)
theory Qt_Reader
  imports Byte_Streams
begin

text \<open>
  How \<^verbatim>\<open>socket_bytestream\<close> reads (\<^verbatim>\<open>qt/socket_bytestream.cpp\<close>): the slot of the signal \<^verbatim>\<open>readyRead\<close> calls
  \<^verbatim>\<open>read\<close> once, into a buffer of 256 bytes. The socket is the environment, as Qt documents it: \<^verbatim>\<open>read\<close>
  takes as many of the bytes that have arrived as fit, or returns -1 when an error occurs, and
  \<^verbatim>\<open>readyRead\<close> is emitted when new bytes arrive, and not again for bytes that were left. The theory follows the bytes through the stream and
  through the codec above it.
\<close>

section \<open>State and operations\<close>

text \<open>
  \<open>unread\<close> are the bytes in the \<^verbatim>\<open>QTcpSocket\<close> and \<open>read_fails\<close> says which of the coming reads are errors (none
  after the end of the list), \<open>readers\<close> counts how often \<^verbatim>\<open>readyRead\<close> has been
  connected to the slot, \<open>chunks\<close> are the notifications of the listener so far.
\<close>

record qt_reader =
  unread :: "byte list"
  read_fails :: "bool list"
  read_buffer :: "byte list"
  readers :: nat
  chunks :: "byte list list"

definition qt_reader_new :: qt_reader where
  "qt_reader_new = \<lparr>unread = [], read_fails = [], read_buffer = replicate 256 0, readers = 0, chunks = []\<rparr>"

text \<open>
  \<^verbatim>\<open>socket->read(buffer, sizeof(buffer))\<close>: the result, as the \<^verbatim>\<open>uint64_t\<close> it is assigned to, and the buffer, and
  what stays in the socket.
\<close>

definition fails_next :: "qt_reader \<Rightarrow> bool" where
  "fails_next r \<longleftrightarrow> (case read_fails r of [] \<Rightarrow> False | b # _ \<Rightarrow> b)"

definition socket_read :: "qt_reader \<Rightarrow> u64 \<times> qt_reader" where
  "socket_read r =
     (let n = min (length (read_buffer r)) (length (unread r)); rest = tl (read_fails r)
      in if fails_next r then (- 1, r\<lparr>read_fails := rest\<rparr>)
         else (of_nat n, r\<lparr>unread := drop n (unread r), read_fails := rest,
                 read_buffer := take n (unread r) @ drop n (read_buffer r)\<rparr>))"

fun notified :: "stream_call list \<Rightarrow> byte list list" where
  "notified [] = []"
| "notified (Received d # cs) = d # notified cs"
| "notified (_ # cs) = notified cs"

definition slot_data_ready :: "qt_reader \<Rightarrow> fault + qt_reader" where
  "slot_data_ready r =
     (let (rd, r) = socket_read r
      in andThen (process_available_data (read_buffer r) rd) (\<lambda>cs. Inr (r\<lparr>chunks := chunks r @ notified cs\<rparr>)))"

text \<open>\<^verbatim>\<open>start\<close>: connect the slot, and read what has arrived before.\<close>

definition reader_start :: "qt_reader \<Rightarrow> fault + qt_reader" where
  "reader_start r =
     (let r = r\<lparr>readers := Suc (readers r)\<rparr>
      in if length (unread r) > 0 then slot_data_ready r else Inr r)"

text \<open>New bytes: \<^verbatim>\<open>readyRead\<close> runs the slot once for each \<^verbatim>\<open>connect\<close>.\<close>

fun run_readers :: "nat \<Rightarrow> qt_reader \<Rightarrow> fault + qt_reader" where
  "run_readers 0 r = Inr r"
| "run_readers (Suc n) r = andThen (slot_data_ready r) (run_readers n)"

datatype socket_event = Started | Arrived "byte list"

fun reader_step :: "socket_event \<Rightarrow> qt_reader \<Rightarrow> fault + qt_reader" where
  "reader_step Started r = reader_start r"
| "reader_step (Arrived d) r = run_readers (readers r) (r\<lparr>unread := unread r @ d\<rparr>)"

fun reader_run :: "socket_event list \<Rightarrow> qt_reader \<Rightarrow> fault + qt_reader" where
  "reader_run [] r = Inr r"
| "reader_run (e # es) r = andThen (reader_step e r) (reader_run es)"

fun arrived :: "socket_event list \<Rightarrow> byte list" where
  "arrived [] = []"
| "arrived (Started # es) = arrived es"
| "arrived (Arrived d # es) = d @ arrived es"

section \<open>Reading\<close>

definition reader_ok :: "qt_reader \<Rightarrow> bool" where
  "reader_ok r \<longleftrightarrow> length (read_buffer r) = 256 \<and> (\<forall>ch \<in> set (chunks r). 0 < length ch \<and> length ch \<le> 256)"

text \<open>One run of the slot moves up to 256 bytes to the listener, or reads out of the buffer.\<close>

lemma slot_data_ready_run:
  assumes "reader_ok r" and "\<not> fails_next r"
  obtains b where "slot_data_ready r = Inr (r\<lparr>unread := drop 256 (unread r), read_fails := tl (read_fails r),
      read_buffer := b, chunks := chunks r @ (if unread r = [] then [] else [take 256 (unread r)])\<rparr>)"
    and "length b = 256"
proof -
  let ?n = "min 256 (length (unread r))" and ?b = "take (min 256 (length (unread r))) (unread r) @ drop (min 256 (length (unread r))) (read_buffer r)"
  have b: "length ?b = 256" using assms(1) by (simp add: reader_ok_def)
  have "?n \<le> 256" by simp
  then have n: "unat (of_nat ?n :: u64) = ?n" by (simp add: unat_of_nat take_bit_eq_mod)
  then have pos: "0 < (of_nat ?n :: u64) \<longleftrightarrow> unread r \<noteq> []"
    by (metis length_greater_0_conv min_less_iff_conj unat_gt_0 word_neq_0_conv zero_less_numeral)
  have tk: "take ?n ?b = take 256 (unread r)" by (simp add: min_def)
  have "process_available_data ?b (of_nat ?n)
      = Inr (if unread r = [] then [] else [Received (take 256 (unread r))])"
    using b n pos tk by (simp add: process_available_data_def del: take_append)
  moreover have "drop ?n (unread r) = drop 256 (unread r)" by (simp add: min_def)
  ultimately have "slot_data_ready r = Inr (r\<lparr>unread := drop 256 (unread r), read_fails := tl (read_fails r),
      read_buffer := ?b, chunks := chunks r @ (if unread r = [] then [] else [take 256 (unread r)])\<rparr>)"
    using assms by (simp add: slot_data_ready_def socket_read_def reader_ok_def Let_def)
  then show thesis using b by (rule that)
qed

lemma slot_data_ready_fails:
  assumes "reader_ok r" and "fails_next r"
  shows "slot_data_ready r = Inl Out_of_bounds"
  using assms qt_read_error_out_of_bounds [of "read_buffer r"]
  by (simp add: slot_data_ready_def socket_read_def reader_ok_def Let_def)

text \<open>
  What becomes of a reader on which \<open>d\<close> arrives: it stays in order if none of its reads has been an error,
  and one that is an error is the only fault there is.
\<close>

definition reads_on :: "byte list \<Rightarrow> qt_reader \<Rightarrow> fault + qt_reader \<Rightarrow> bool" where
  "reads_on d r x \<longleftrightarrow>
     (case x of
        Inl e \<Rightarrow> e = Out_of_bounds \<and> True \<in> set (read_fails r)
      | Inr r' \<Rightarrow> reader_ok r' \<and> concat (chunks r') @ unread r' = concat (chunks r) @ unread r @ d
          \<and> (\<exists>k. read_fails r' = drop k (read_fails r) \<and> True \<notin> set (take k (read_fails r))))"

lemma reads_on_cong:
  "unread r' @ d' = unread r @ d \<Longrightarrow> read_fails r' = read_fails r \<Longrightarrow> chunks r' = chunks r
     \<Longrightarrow> reads_on d' r' x = reads_on d r x"
  by (simp add: reads_on_def split: sum.split)

lemma reads_on_refl: "reader_ok r \<Longrightarrow> reads_on [] r (Inr r)"
  by (auto simp: reads_on_def intro: exI [of _ 0])

lemma reads_on_trans:
  assumes "reads_on d1 r (Inr r1)" and "reads_on d2 r1 x"
  shows "reads_on (d1 @ d2) r x"
proof -
  obtain k where k: "read_fails r1 = drop k (read_fails r)" "True \<notin> set (take k (read_fails r))"
    using assms(1) by (auto simp: reads_on_def)
  show ?thesis
  proof (cases x)
    case (Inl e)
    then show ?thesis using assms(2) k(1) by (auto simp: reads_on_def dest: in_set_dropD)
  next
    case (Inr r2)
    then obtain j where "read_fails r2 = drop j (read_fails r1)" "True \<notin> set (take j (read_fails r1))"
      using assms(2) by (auto simp: reads_on_def)
    then have "read_fails r2 = drop (k + j) (read_fails r) \<and> True \<notin> set (take (k + j) (read_fails r))"
      using k unfolding take_add by (simp add: add.commute)
    then show ?thesis using Inr assms by (auto simp: reads_on_def)
  qed
qed

lemma reads_on_andThen:
  assumes "reads_on d1 r x" and "\<And>r1. reader_ok r1 \<Longrightarrow> reads_on d2 r1 (f r1)"
  shows "reads_on (d1 @ d2) r (andThen x f)"
proof (cases x)
  case (Inl e)
  then show ?thesis using assms(1) by (simp add: reads_on_def)
next
  case (Inr r1)
  then have "reader_ok r1" using assms(1) by (simp add: reads_on_def)
  then show ?thesis using Inr assms reads_on_trans by fastforce
qed

lemma slot_reads:
  assumes "reader_ok r"
  shows "reads_on [] r (slot_data_ready r)"
proof (cases "fails_next r")
  case True
  then have "True \<in> set (read_fails r)" by (auto simp: fails_next_def split: list.splits)
  then show ?thesis using slot_data_ready_fails [OF assms True] by (simp add: reads_on_def)
next
  case False
  obtain b where b: "slot_data_ready r = Inr (r\<lparr>unread := drop 256 (unread r), read_fails := tl (read_fails r),
      read_buffer := b, chunks := chunks r @ (if unread r = [] then [] else [take 256 (unread r)])\<rparr>)" "length b = 256"
    using slot_data_ready_run [OF assms False] by blast
  have "True \<notin> set (take 1 (read_fails r))" using False by (auto simp: fails_next_def split: list.splits)
  then show ?thesis unfolding b(1) using assms b(2)
    by (auto simp: reads_on_def reader_ok_def drop_Suc intro: exI [of _ 1])
qed

lemma run_readers_reads: "reader_ok r \<Longrightarrow> reads_on [] r (run_readers n r)"
proof (induction n arbitrary: r)
  case (Suc n)
  from reads_on_andThen [OF slot_reads [OF Suc.prems] Suc.IH] show ?case by simp
qed (simp add: reads_on_refl)

lemma reader_step_reads:
  assumes "reader_ok r"
  shows "reads_on (arrived [e]) r (reader_step e r)"
proof (cases e)
  case Started
  let ?r = "r\<lparr>readers := Suc (readers r)\<rparr>"
  have "reader_ok ?r" using assms by (simp add: reader_ok_def)
  from slot_reads [OF this] reads_on_refl [OF this] have "reads_on [] ?r (reader_step e r)"
    by (simp add: Started reader_start_def Let_def)
  then show ?thesis using reads_on_cong [of ?r "[]" r "[]"] by (simp add: Started)
next
  case (Arrived d)
  have "reader_ok (r\<lparr>unread := unread r @ d\<rparr>)" using assms by (simp add: reader_ok_def)
  from run_readers_reads [OF this] show ?thesis
    using reads_on_cong [of "r\<lparr>unread := unread r @ d\<rparr>" "[]" r d] by (simp add: Arrived)
qed

lemma reader_run_reads: "reader_ok r \<Longrightarrow> reads_on (arrived es) r (reader_run es r)"
proof (induction es arbitrary: r)
  case (Cons e es)
  have "arrived (e # es) = arrived [e] @ arrived es" by (cases e) simp_all
  with reads_on_andThen [OF reader_step_reads [OF Cons.prems] Cons.IH] show ?case by simp
qed (simp add: reads_on_refl)

lemma reader_new_ok: "reader_ok qt_reader_new"
  by (simp add: reader_ok_def qt_reader_new_def)

text \<open>A stream that has been started, and the codec that reads its chunks.\<close>

definition reader_started :: "qt_reader \<Rightarrow> bool" where
  "reader_started r \<longleftrightarrow> reader_ok r \<and> readers r = 1 \<and> unread r = [] \<and> read_fails r = []"

lemma reader_arrival:
  assumes "reader_started r" and "d \<noteq> []"
  obtains b where "reader_step (Arrived d) r = Inr (r\<lparr>unread := drop 256 d, read_buffer := b,
      chunks := chunks r @ [take 256 d]\<rparr>)" and "length b = 256"
proof -
  have "reader_ok (r\<lparr>unread := d\<rparr>)" "\<not> fails_next (r\<lparr>unread := d\<rparr>)"
    using assms by (simp_all add: reader_started_def reader_ok_def fails_next_def)
  then obtain b where "slot_data_ready (r\<lparr>unread := d\<rparr>) = Inr (r\<lparr>unread := drop 256 d,
      read_fails := tl (read_fails r), read_buffer := b, chunks := chunks r @ [take 256 d]\<rparr>)" "length b = 256"
    using assms(2) by (auto elim: slot_data_ready_run)
  moreover have "r\<lparr>unread := drop 256 d, read_fails := tl (read_fails r), read_buffer := b,
      chunks := chunks r @ [take 256 d]\<rparr> = r\<lparr>unread := drop 256 d, read_buffer := b, chunks := chunks r @ [take 256 d]\<rparr>"
    using assms(1) by (cases r) (simp add: reader_started_def)
  ultimately show thesis using assms(1) that by (simp add: reader_started_def)
qed

lemma small_arrivals:
  assumes "reader_started r" and "\<forall>d \<in> set ds. d \<noteq> [] \<and> length d \<le> 256"
  shows "\<exists>r'. reader_run (map Arrived ds) r = Inr r' \<and> reader_started r' \<and> chunks r' = chunks r @ ds"
  using assms
proof (induction ds arbitrary: r)
  case (Cons d ds)
  from Cons.prems(2) have d: "d \<noteq> []" "length d \<le> 256" by simp_all
  from Cons.prems(1) d(1) obtain b where b: "reader_step (Arrived d) r = Inr (r\<lparr>unread := drop 256 d,
      read_buffer := b, chunks := chunks r @ [take 256 d]\<rparr>)" "length b = 256" by (rule reader_arrival)
  let ?r = "r\<lparr>unread := drop 256 d, read_buffer := b, chunks := chunks r @ [take 256 d]\<rparr>"
  have "reader_started ?r" using Cons.prems(1) d b(2) by (auto simp: reader_started_def reader_ok_def)
  from Cons.IH [OF this] Cons.prems(2) obtain r' where "reader_run (map Arrived ds) ?r = Inr r'" "reader_started r'"
    "chunks r' = chunks ?r @ ds" by auto
  then show ?case using b(1) d(2) by simp
qed simp

section \<open>Properties\<close>

text \<open>
  C34: as long as no read of the socket is an error, the Qt stream passes on what arrives, in order, in chunks
  of one to 256 bytes: the bytes the listener got and the bytes left in the socket are what has arrived.
  The stream never reads out of its buffer but for one reason, a read that is an error: its result -1, taken as a
  length, is larger than any buffer, and the first such read ends the program.
\<close>

theorem qt_reads_in_order:
  "case reader_run es (qt_reader_new\<lparr>read_fails := fails\<rparr>) of
      Inr r \<Rightarrow> concat (chunks r) @ unread r = arrived es \<and> (\<forall>ch \<in> set (chunks r). 0 < length ch \<and> length ch \<le> 256)
        \<and> (\<exists>k. read_fails r = drop k fails \<and> True \<notin> set (take k fails))
    | Inl e \<Rightarrow> e = Out_of_bounds \<and> True \<in> set fails"
proof -
  have "reader_ok (qt_reader_new\<lparr>read_fails := fails\<rparr>)" by (simp add: reader_ok_def qt_reader_new_def)
  from reader_run_reads [OF this, of es] show ?thesis
    by (auto simp: reads_on_def reader_ok_def qt_reader_new_def split: sum.splits)
qed

theorem qt_reads_in_order_witness:
  "(\<exists>r. reader_run [Arrived [1], Started, Arrived [2, 3]] (qt_reader_new\<lparr>read_fails := []\<rparr>) = Inr r
       \<and> concat (chunks r) @ unread r = [1, 2, 3])
   \<and> reader_run [Started, Arrived [1]] (qt_reader_new\<lparr>read_fails := [True]\<rparr>) = Inl Out_of_bounds"
proof
  show "\<exists>r. reader_run [Arrived [1], Started, Arrived [2, 3]] (qt_reader_new\<lparr>read_fails := []\<rparr>) = Inr r
       \<and> concat (chunks r) @ unread r = [1, 2, 3]"
    using qt_reads_in_order [where es = "[Arrived [1], Started, Arrived [2, 3]]" and fails = "[]"] by (auto split: sum.splits)
  have "reader_step (Arrived [1]) (qt_reader_new\<lparr>read_fails := [True], readers := 1\<rparr>) = Inl Out_of_bounds"
    using slot_data_ready_fails [of "qt_reader_new\<lparr>read_fails := [True], readers := 1, unread := [1]\<rparr>"]
    by (simp add: reader_ok_def qt_reader_new_def fails_next_def)
  then show "reader_run [Started, Arrived [1]] (qt_reader_new\<lparr>read_fails := [True]\<rparr>) = Inl Out_of_bounds"
    by (simp add: reader_start_def qt_reader_new_def Let_def del: reader_step.simps(2))
qed

text \<open>
  Whether a frame is delivered depends on how it arrives. Frames of at most 252 bytes that arrive one by
  one are all delivered at once. A longer frame that arrives whole is not: its first 256 bytes are
  passed on, the codec waits for the others, and these wait in the socket until something else
  arrives - which may be never, as the peer that sent a request waits for its reply.
\<close>

theorem qt_long_frame_stalls:
  assumes "list_all frame_ok fs" and "\<forall>f \<in> set fs. length f \<le> 252" and "frame_ok g" and "252 < length g"
  shows "\<exists>r r'. reader_run (Started # map (Arrived \<circ> encode_frame) fs) qt_reader_new = Inr r
     \<and> codec_feeds collect (chunks r) codec_new [] = Inr (codec_new, fs) \<and> unread r = []
     \<and> reader_step (Arrived (encode_frame g)) r = Inr r'
     \<and> (\<exists>c. codec_feeds collect (drop (length (chunks r)) (chunks r')) codec_new [] = Inr (c, []))
     \<and> unread r' = drop 252 g \<and> unread r' \<noteq> []"
proof -
  let ?r0 = "qt_reader_new\<lparr>readers := 1\<rparr>" and ?g = "encode_frame g"
  have len: "length (encode_frame f) = length f + 4" for f by (simp add: encode_frame_def)
  have "reader_started ?r0" by (simp add: reader_started_def reader_ok_def qt_reader_new_def)
  then obtain r where r: "reader_run (map Arrived (map encode_frame fs)) ?r0 = Inr r" "reader_started r"
    "chunks r = map encode_frame fs"
    using small_arrivals [of ?r0 "map encode_frame fs"] assms(2) by (auto simp: encode_frame_def qt_reader_new_def)
  have run: "reader_run (Started # map (Arrived \<circ> encode_frame) fs) qt_reader_new = Inr r"
    using r(1) by (simp add: reader_start_def qt_reader_new_def)
  have fs: "codec_feeds collect (chunks r) codec_new [] = Inr (codec_new, fs)"
    using codec_feeds_collect [OF assms(1), of "chunks r"] by (simp add: r(3) encode_frames_def)
  have "?g \<noteq> []" using len [of g] by auto
  with r(2) obtain b where g: "reader_step (Arrived ?g) r = Inr (r\<lparr>unread := drop 256 ?g, read_buffer := b,
      chunks := chunks r @ [take 256 ?g]\<rparr>)" by (rule reader_arrival)
  have "parse_stream (take 256 ?g) = ([], take 256 ?g)"
    using parse_stream_incomplete [OF assms(3), of "take 256 ?g" "drop 256 ?g"] len [of g] assms(4) by simp
  with codec_feed_parse [of codec_new "take 256 ?g" collect]
  have "\<exists>c. codec_feeds collect [take 256 ?g] codec_new [] = Inr (c, [])" by auto
  moreover have "drop 256 ?g = drop 252 g" by (simp add: encode_frame_def)
  ultimately show ?thesis using run fs g r(2) assms(4) by (fastforce simp: reader_started_def)
qed

theorem qt_long_frame_stalls_witness:
  "\<exists>r r'. reader_run [Started, Arrived (encode_frame [7])] qt_reader_new = Inr r
     \<and> reader_step (Arrived (encode_frame (replicate 300 1))) r = Inr r' \<and> unread r' = replicate 48 1"
  using qt_long_frame_stalls [of "[[7]]" "replicate 300 1"] by (auto simp: frame_ok_def)

end
