(* ===== verification/Event_Loop.thy ===== *)
theory Event_Loop
  imports Ipc_Prelude
begin

text \<open>
  \<^verbatim>\<open>io_service.h\<close> and \<^verbatim>\<open>io_service.cpp\<close>: the object that owns the event loop of the Asio side, its thread,
  and the one instance all streams and acceptors share. The event loop itself, \<^verbatim>\<open>boost::asio::io_service\<close>,
  is a parameter; what its documentation says of \<^verbatim>\<open>run\<close>, \<^verbatim>\<open>stop\<close> and \<^verbatim>\<open>work\<close> is \<open>asio_laws\<close>.
\<close>

section \<open>The library's event loop\<close>

text \<open>
  \<open>io_poll\<close> is one round of \<^verbatim>\<open>run\<close>: it runs a handler that is ready, or waits for one (the state is then the
  same), or makes \<^verbatim>\<open>run\<close> return; or the handler throws, and the exception leaves \<^verbatim>\<open>run\<close>. \<open>io_start\<close> is what any thread does to have a handler called:
  \<^verbatim>\<open>async_accept\<close>, \<^verbatim>\<open>async_receive\<close>, \<^verbatim>\<open>async_connect\<close>. \<open>io_working\<close>: there is work, and nobody has
  called \<^verbatim>\<open>stop\<close>. \<open>io_stopped\<close>: somebody has.
\<close>

datatype 's round = Goes_on 's | Returns | Throws

record ('s, 'h) asio_api =
  io_new :: 's
  io_work :: "'s \<Rightarrow> 's"
  io_stop :: "'s \<Rightarrow> 's"
  io_poll :: "'s \<Rightarrow> 's round"
  io_start :: "'h \<Rightarrow> 's \<Rightarrow> 's"
  io_working :: "'s \<Rightarrow> bool"
  io_stopped :: "'s \<Rightarrow> bool"

definition asio_laws :: "('s, 'h) asio_api \<Rightarrow> bool" where
  "asio_laws io \<longleftrightarrow>
     io_working io (io_work io (io_new io)) \<and>
     (\<forall>s. io_working io s \<longrightarrow> io_poll io s = Throws \<or> (\<exists>s'. io_poll io s = Goes_on s' \<and> io_working io s')) \<and>
     (\<forall>s h. io_working io s \<longrightarrow> io_working io (io_start io h s)) \<and>
     (\<forall>s. io_stopped io (io_stop io s)) \<and>
     (\<forall>s. io_stopped io s \<longrightarrow> io_poll io s = Returns) \<and>
     (\<forall>s h. io_stopped io s \<longrightarrow> io_stopped io (io_start io h s))"

lemma asio_rules:
  assumes "asio_laws io"
  shows "io_working io (io_work io (io_new io))"
    and "io_working io s \<Longrightarrow> io_poll io s = Throws \<or> (\<exists>s'. io_poll io s = Goes_on s' \<and> io_working io s')"
    and "io_working io s \<Longrightarrow> io_working io (io_start io h s)"
    and "io_stopped io (io_stop io s)"
    and "io_stopped io s \<Longrightarrow> io_poll io s = Returns"
    and "io_stopped io s \<Longrightarrow> io_stopped io (io_start io h s)"
  using assms unfolding asio_laws_def by blast+

section \<open>ios_wrapper\<close>

text \<open>
  The thread is in \<^verbatim>\<open>run\<close> or has returned from it; the object is in use, its destructor waits in
  \<^verbatim>\<open>thread.join\<close>, or the destructor has finished. The \<^verbatim>\<open>work\<close> member is the work inside \<open>iow_ios\<close>.
\<close>

datatype loop_thread = Running | Returned
datatype lifetime = In_use | Joining | Destroyed

record 's ios_wrapper =
  iow_ios :: 's
  iow_thread :: loop_thread
  iow_life :: lifetime

definition ios_wrapper_new :: "('s, 'h) asio_api \<Rightarrow> 's ios_wrapper" where
  "ios_wrapper_new io = \<lparr>iow_ios = io_work io (io_new io), iow_thread = Running, iow_life = In_use\<rparr>"

text \<open>One round of the thread function. It catches nothing, so that an exception ends the program.\<close>

definition iow_run :: "('s, 'h) asio_api \<Rightarrow> 's ios_wrapper \<Rightarrow> fault + 's ios_wrapper" where
  "iow_run io w =
     (case io_poll io (iow_ios w) of
        Goes_on s \<Rightarrow> Inr (w\<lparr>iow_ios := s\<rparr>)
      | Returns \<Rightarrow> Inr (w\<lparr>iow_thread := Returned\<rparr>)
      | Throws \<Rightarrow> Inl Uncaught_exception)"

text \<open>\<^verbatim>\<open>~ios_wrapper\<close>: \<^verbatim>\<open>stop\<close>, and then \<^verbatim>\<open>join\<close>, which waits for the thread.\<close>

definition iow_destroy_stop :: "('s, 'h) asio_api \<Rightarrow> 's ios_wrapper \<Rightarrow> 's ios_wrapper" where
  "iow_destroy_stop io w = w\<lparr>iow_ios := io_stop io (iow_ios w), iow_life := Joining\<rparr>"

definition iow_destroy_join :: "'s ios_wrapper \<Rightarrow> 's ios_wrapper option" where
  "iow_destroy_join w = (if iow_thread w = Returned then Some (w\<lparr>iow_life := Destroyed\<rparr>) else None)"

text \<open>\<^verbatim>\<open>get_io_service\<close>: the first call makes the static object.\<close>

definition get_io_service :: "('s, 'h) asio_api \<Rightarrow> 's ios_wrapper option \<Rightarrow> 's \<times> 's ios_wrapper option" where
  "get_io_service io static =
     (let w = (case static of None \<Rightarrow> ios_wrapper_new io | Some w \<Rightarrow> w) in (iow_ios w, Some w))"

text \<open>What happens in any order: the thread runs, somebody starts an operation, the destructor runs.\<close>

inductive iow_step :: "('s, 'h) asio_api \<Rightarrow> 's ios_wrapper \<Rightarrow> 's ios_wrapper \<Rightarrow> bool" for io where
  ran: "iow_thread w = Running \<Longrightarrow> iow_run io w = Inr w' \<Longrightarrow> iow_step io w w'"
| started: "iow_step io w (w\<lparr>iow_ios := io_start io h (iow_ios w)\<rparr>)"
| stopping: "iow_life w = In_use \<Longrightarrow> iow_step io w (iow_destroy_stop io w)"
| joined: "iow_life w = Joining \<Longrightarrow> iow_destroy_join w = Some w' \<Longrightarrow> iow_step io w w'"

definition iow_ok :: "('s, 'h) asio_api \<Rightarrow> 's ios_wrapper \<Rightarrow> bool" where
  "iow_ok io w \<longleftrightarrow>
     (case iow_life w of
        In_use \<Rightarrow> io_working io (iow_ios w) \<and> iow_thread w = Running
      | Joining \<Rightarrow> io_stopped io (iow_ios w)
      | Destroyed \<Rightarrow> io_stopped io (iow_ios w) \<and> iow_thread w = Returned)"

lemma iow_ok_new: "asio_laws io \<Longrightarrow> iow_ok io (ios_wrapper_new io)"
  using asio_rules(1) by (simp add: iow_ok_def ios_wrapper_new_def)

lemma iow_run_stopped:
  "asio_laws io \<Longrightarrow> io_stopped io (iow_ios w) \<Longrightarrow> iow_run io w = Inr (w\<lparr>iow_thread := Returned\<rparr>)"
  by (simp add: iow_run_def asio_rules(5))

lemma iow_run_working:
  assumes "asio_laws io" and "io_working io (iow_ios w)"
  shows "iow_run io w = Inl Uncaught_exception \<or> (\<exists>s. iow_run io w = Inr (w\<lparr>iow_ios := s\<rparr>) \<and> io_working io s)"
  using asio_rules(2) [OF assms] by (auto simp: iow_run_def)

lemma iow_step_ok:
  assumes "asio_laws io" and "iow_step io w w'" and "iow_ok io w"
  shows "iow_ok io w'"
  using assms(2)
proof cases
  case ran
  show ?thesis
  proof (cases "iow_life w")
    case In_use
    with assms(3) have "io_working io (iow_ios w)" by (simp add: iow_ok_def)
    from iow_run_working [OF assms(1) this] ran In_use show ?thesis by (auto simp: iow_ok_def)
  qed (use ran assms(3) iow_run_stopped [OF assms(1), of w] in \<open>auto simp: iow_ok_def\<close>)
next
  case (started h)
  then show ?thesis
    using assms(3) asio_rules(3,6) [OF assms(1), of "iow_ios w" h] by (simp add: iow_ok_def split: lifetime.splits)
next
  case stopping
  then show ?thesis using asio_rules(4) [OF assms(1)] by (simp add: iow_ok_def iow_destroy_stop_def)
next
  case joined
  then show ?thesis
    using assms(3) by (auto simp: iow_ok_def iow_destroy_join_def split: if_splits)
qed

lemma iow_steps_ok:
  assumes "asio_laws io" and "(iow_step io)\<^sup>*\<^sup>* (ios_wrapper_new io) w"
  shows "iow_ok io w"
  using assms(2) by (induction rule: rtranclp_induct) (use assms(1) iow_ok_new iow_step_ok in blast)+

text \<open>
  As long as the object is in use its thread is in the loop, also when no operation is under way, or a handler
  throws and the program ends; and the destructor ends: once \<^verbatim>\<open>stop\<close> has been called, whatever else is
  started, the thread returns in its next round, and \<^verbatim>\<open>join\<close> then has nothing to wait for.
\<close>

lemma event_loop_lifetime:
  assumes "asio_laws io" and "(iow_step io)\<^sup>*\<^sup>* (ios_wrapper_new io) w"
  shows "iow_life w = In_use \<Longrightarrow> iow_thread w = Running
      \<and> (iow_run io w = Inl Uncaught_exception \<or> (\<exists>w'. iow_run io w = Inr w' \<and> iow_thread w' = Running))"
    and "iow_life w = Joining \<Longrightarrow> \<exists>w' w''. iow_run io w = Inr w' \<and> iow_destroy_join w' = Some w''"
proof -
  assume "iow_life w = In_use"
  with iow_steps_ok [OF assms] have run: "iow_thread w = Running" and work: "io_working io (iow_ios w)"
    by (simp_all add: iow_ok_def)
  from iow_run_working [OF assms(1) work] run show "iow_thread w = Running
      \<and> (iow_run io w = Inl Uncaught_exception \<or> (\<exists>w'. iow_run io w = Inr w' \<and> iow_thread w' = Running))" by auto
next
  assume "iow_life w = Joining"
  with iow_steps_ok [OF assms] have "io_stopped io (iow_ios w)" by (simp add: iow_ok_def)
  from iow_run_stopped [OF assms(1) this]
  show "\<exists>w' w''. iow_run io w = Inr w' \<and> iow_destroy_join w' = Some w''"
    by (simp add: iow_destroy_join_def)
qed

text \<open>
  An event loop that can be evaluated: the handlers that are to be called, of which those numbered 0
  throw, the work, and whether \<^verbatim>\<open>stop\<close> was called.
\<close>

definition queue_io :: "(nat list \<times> bool \<times> bool, nat) asio_api" where
  "queue_io =
     \<lparr>io_new = ([], False, False), io_work = (\<lambda>(qu, _, st). (qu, True, st)),
      io_stop = (\<lambda>(qu, wk, _). (qu, wk, True)),
      io_poll = (\<lambda>(qu, wk, st).
        if st \<or> \<not> wk \<and> qu = [] then Returns
        else if qu \<noteq> [] \<and> hd qu = 0 then Throws else Goes_on (tl qu, wk, st)),
      io_start = (\<lambda>h (qu, wk, st). (qu @ [h], wk, st)),
      io_working = (\<lambda>(qu, wk, st). wk \<and> \<not> st), io_stopped = (\<lambda>(_, _, st). st)\<rparr>"

lemma queue_io_laws: "asio_laws queue_io"
  by (auto simp: asio_laws_def queue_io_def)

text \<open>All users share one event loop: only the first call makes it.\<close>

lemma get_io_service_shared:
  "get_io_service io static = (s, static') \<Longrightarrow> get_io_service io static' = (s, static')
     \<and> (static \<noteq> None \<longrightarrow> static' = static)"
  by (auto simp: get_io_service_def Let_def)

end
