(* ===== verification/Wire_Call.thy ===== *)
theory Wire_Call
  imports Session Endpoint
begin

text \<open>
  One blocking call over the bytes of two sockets: the request that \<^verbatim>\<open>send\<close> writes, the receiving
  end that queues it, the processing thread that runs its handler, the reply on the way back, and
  the reader thread of the caller that wakes \<^verbatim>\<open>send\<close>. The theory connects the two levels of the
  development: a call of a node_sync, which takes its answer from the list \<open>answers\<close>, gets exactly
  what the layers below deliver.
\<close>

abbreviation idle_codec :: codec where
  "idle_codec \<equiv> set_transport codec_new"

abbreviation socket_frames :: "byte list \<Rightarrow> socket_client \<Rightarrow> fault + (bool \<times> socket_client)" where
  "socket_frames \<equiv> codec_write socket_write idle_codec"

text \<open>A frame in any chunks.\<close>

lemma endpoint_frame:
  fixes x :: "dispatcher \<times> 't sync \<times> socket_client"
  assumes "frame_ok f" and "concat chunks = encode_frame f" and "on_frame socket_frames f x = Inr y"
  shows "\<exists>c'. endpoint_receive chunks idle_codec x = Inr (c', y) \<and> pending c' = []"
proof -
  have idle: "pending idle_codec = []" by (simp add: set_transport_def pending_def codec_new_def)
  have "list_all frame_ok [f]" "pending idle_codec @ concat chunks = encode_frames [f]"
    using assms(1,2) idle by simp_all
  moreover obtain d s tr where x: "x = (d, s, tr)" by (cases x)
  ultimately obtain c' where "pending c' = []"
    and "codec_feeds (on_frame socket_frames) chunks idle_codec x
      = andThen (deliver_all (on_frame socket_frames) [f] x) (\<lambda>s'. Inr (c', s'))"
    using codec_feeds_frames [of "[f]" idle_codec chunks "on_frame socket_frames"] idle by auto
  with assms(3) show ?thesis unfolding endpoint_receive_def by auto
qed

lemma on_frame_queue:
  assumes "request_id m" and "has_header p" and "get_cmd p \<noteq> CMD_GENERATE_NID"
  shows "on_frame w (message p m) (d, s, tr) =
    Inr (d\<lparr>pkgs := (pkgs d)(next_addr d \<mapsto> p), next_addr := Suc (next_addr d),
           request_msgids := (request_msgids d)(next_addr d \<mapsto> m)\<rparr>,
         s\<lparr>pkg_queue := push (Some (next_addr d, p)) (pkg_queue s)\<rparr>, tr)"
  using assms has_header_length [OF assms(2)]
  by (simp add: on_frame_def dispatch_request process_notification_def)

lemma on_frame_reply:
  assumes "request_id m" and "has_header p"
  shows "on_frame w (message p (m OR reply_flag)) (d, s, tr) =
    Inr (d\<lparr>in_package := package_assign (in_package d) p,
           response_received := (response_received d)(m \<mapsto> True),
           next_addr := Suc (next_addr d)\<rparr>, s, tr)"
  using assms by (simp add: on_frame_def dispatch_reply)

text \<open>What a packet held before an assignment does not matter.\<close>

lemma package_assign_any: "package_assign x p = package_assign y p"
  by (simp add: package_assign_def memcpy_at_def vec_resize_def Let_def)

lemma willing_socket: "has_transport idle_codec"
  by (simp add: set_transport_def)

lemma processing_step_single:
  assumes "pkg_queue s = \<lparr>elements = []\<rparr>" and "answered q T a req s rep s'"
  shows "processing_step q T True (s\<lparr>pkg_queue := push (Some (a, package_copy req)) (pkg_queue s)\<rparr>)
    = Some (Inr (True, s'))"
proof -
  have same: "s\<lparr>pkg_queue := \<lparr>elements = []\<rparr>\<rparr> = s" using assms(1) by (cases s) simp
  show ?thesis
    using assms by (simp add: processing_step_def pop_def push_def answered_def same)
qed

text \<open>The two directions.\<close>

lemma message_frame: "length (vec p) + 2 < 2 ^ 31 \<Longrightarrow> frame_ok (message p m) \<and> length (message p m) < 2 ^ 31"
  by (auto simp: frame_ok_def message_def)

lemma send_bytes:
  assumes "send_begin socket_frames req dc cs = Inr (Some m, dc1, cs1)" and "willing cs"
    and "length (vec (package_copy req)) + 2 < 2 ^ 31"
  shows "cs1 = cs\<lparr>wire := wire cs @ encode_frame (message (package_copy req) m)\<rparr>"
  using assms(1) codec_write_willing [OF willing_socket assms(2)] message_frame [OF assms(3)]
  by (auto simp: send_begin_def Let_def andThen_eq_Inr split: prod.splits if_splits)

lemma reply_bytes:
  assumes "answered q T a req s rep s'" and "request_msgids d a = Some m" and "willing tr"
    and "length (vec rep) + 2 < 2 ^ 31"
  shows "\<exists>d'. deliver_all (perform socket_frames) (drop (length (dev_calls s)) (dev_calls s')) (d, tr)
    = Inr (d', tr\<lparr>wire := wire tr @ encode_frame (message rep (m OR reply_flag))\<rparr>)"
  using assms(1,2) codec_write_willing [OF willing_socket assms(3)] message_frame [OF assms(4)]
  by (simp add: answered_def reply_def)

lemma reply_returns:
  fixes C :: "'u sync"
  assumes "request_id m" and "has_header rep" and "length (vec rep) + 2 < 2 ^ 31"
    and "concat chunks = encode_frame (message rep (m OR reply_flag))"
  shows "\<exists>c d'. endpoint_receive chunks idle_codec (d, C, tr) = Inr (c, d', C, tr)
    \<and> response_received d' m = Some True \<and> fst (send_finish m package_new d') = received rep"
proof -
  have "frame_ok (message rep (m OR reply_flag))" using message_frame [OF assms(3)] by blast
  from endpoint_frame [OF this assms(4) on_frame_reply [OF assms(1,2)], of d C tr] show ?thesis
    using package_assign_any [of "in_package d" rep package_new]
    by (auto simp: send_finish_def release_msgid_def received_def)
qed

section \<open>Properties\<close>

text \<open>
  C7: a blocking call over the wire. The bytes the caller's \<^verbatim>\<open>send\<close> puts on its socket reach the
  server in any chunks, the packet is queued, the processing thread answers it, and the bytes of
  the reply, in any chunks, wake the caller, whose \<^verbatim>\<open>send\<close> returns the packet \<open>received\<close> of the
  reply - the answer that the calls of a node_sync are given elsewhere in this development. It
  holds for every request whose handler sends one reply.
\<close>

theorem call_over_wire:
  fixes S :: "'t sync" and C :: "'u sync"
  assumes sent: "send_begin socket_frames req dc cs = Inr (Some m, dc1, cs1)"
    and m: "request_id m" and open_sockets: "willing cs" "willing ss"
    and req: "has_header req" "get_cmd req \<noteq> CMD_GENERATE_NID" "length (vec req) + 9 < 2 ^ 30"
    and rep: "has_header rep" "length (vec rep) < 2 ^ 30"
    and queue: "pkg_queue S = \<lparr>elements = []\<rparr>"
    and answer: "answered q T (next_addr ds) req S rep S'"
    and up: "wire cs1 = wire cs @ concat chunks"
  shows "\<exists>c ds1 S1 ds2 ss2.
       endpoint_receive chunks idle_codec (ds, S, ss) = Inr (c, ds1, S1, ss)
     \<and> processing_step q T True S1 = Some (Inr (True, S'))
     \<and> deliver_all (perform socket_frames) (drop (length (dev_calls S)) (dev_calls S')) (ds1, ss) = Inr (ds2, ss2)
     \<and> (\<forall>chs. wire ss2 = wire ss @ concat chs \<longrightarrow>
          (\<exists>c' dc2. endpoint_receive chs idle_codec (dc1, C, cs1) = Inr (c', dc2, C, cs1)
             \<and> response_received dc2 m = Some True
             \<and> fst (send_finish m package_new dc2) = received rep))"
proof -
  let ?p = "package_copy req" and ?a = "next_addr ds"
  let ?ds1 = "ds\<lparr>pkgs := (pkgs ds)(?a \<mapsto> ?p), next_addr := Suc ?a,
                  request_msgids := (request_msgids ds)(?a \<mapsto> m)\<rparr>"
  let ?S1 = "S\<lparr>pkg_queue := push (Some (?a, ?p)) (pkg_queue S)\<rparr>"
  obtain n k pl where "req = mk_package n k pl" using req(1) by (rule has_headerE)
  with req have p: "has_header ?p" "get_cmd ?p \<noteq> CMD_GENERATE_NID" "length (vec ?p) + 2 < 2 ^ 31"
    by (simp_all add: vec_mk_package)
  have len: "length (vec rep) + 2 < 2 ^ 31" using rep(2) by simp
  have chunks: "concat chunks = encode_frame (message ?p m)"
    using up by (simp add: send_bytes [OF sent open_sockets(1) p(3)])
  have "frame_ok (message ?p m)" using message_frame [OF p(3)] by blast
  from endpoint_frame [OF this chunks on_frame_queue [OF m p(1,2)]]
  obtain c where arrives: "endpoint_receive chunks idle_codec (ds, S, ss) = Inr (c, ?ds1, ?S1, ss)"
    by blast
  have step: "processing_step q T True ?S1 = Some (Inr (True, S'))"
    using queue answer by (rule processing_step_single)
  have "request_msgids ?ds1 ?a = Some m" by simp
  from reply_bytes [OF answer this open_sockets(2) len] obtain ds2 where
    replied: "deliver_all (perform socket_frames) (drop (length (dev_calls S)) (dev_calls S')) (?ds1, ss)
      = Inr (ds2, ss\<lparr>wire := wire ss @ encode_frame (message rep (m OR reply_flag))\<rparr>)" by blast
  have "\<exists>c' dc2. endpoint_receive chs idle_codec (dc1, C, cs1) = Inr (c', dc2, C, cs1)
      \<and> response_received dc2 m = Some True \<and> fst (send_finish m package_new dc2) = received rep"
    if "concat chs = encode_frame (message rep (m OR reply_flag))" for chs
    using m rep(1) len that by (rule reply_returns)
  with arrives step replied show ?thesis by fastforce
qed

theorem call_over_wire_witness:
  "\<exists>cs1 dc1 chunks c ds1 S1 S'. send_begin socket_frames (mk_package 0 CMD_LS []) dispatcher_new
        ((socket_client_new [])\<lparr>is_connected := True\<rparr>) = Inr (Some 1, dc1, cs1)
     \<and> endpoint_receive chunks idle_codec (dispatcher_new, sample_server, (socket_client_new [])\<lparr>is_connected := True\<rparr>)
         = Inr (c, ds1, S1, (socket_client_new [])\<lparr>is_connected := True\<rparr>)
     \<and> processing_step plain_qt samples True S1 = Some (Inr (True, S'))
     \<and> dev_calls S' = [Reply_to 0 (mk_package 0 CMD_LS_SUCCESS (wire_list [''a'', ''b'']))]"
proof -
  let ?req = "mk_package 0 CMD_LS []" and ?sc = "(socket_client_new [])\<lparr>is_connected := True\<rparr>"
  let ?rep = "mk_package 0 CMD_LS_SUCCESS (wire_list [''a'', ''b''])"
  let ?f = "message (package_copy ?req) 1"
  have open_socket: "willing ?sc" "wire ?sc = []" by (simp_all add: willing_def socket_client_new_def)
  have len: "length ?f < 2 ^ 31" by (simp add: message_def vec_mk_package)
  obtain dc1 where sent: "send_begin socket_frames ?req dispatcher_new ?sc
      = Inr (Some 1, dc1, ?sc\<lparr>wire := encode_frame ?f\<rparr>)"
    using codec_write_willing [OF willing_socket open_socket(1) len] open_socket(2)
    by (simp add: send_begin_def dispatcher_new_eq generate_msgid_def Let_def)
  have kids: "t_ls samples (tree sample_server) (App 0) = [''a'', ''b'']" by (simp add: sample_state)
  have S: "get_node 0 sample_server = Some (App 0)" "has_dev sample_server" "dev_calls sample_server = []"
    "pkg_queue sample_server = \<lparr>elements = []\<rparr>" "next_addr dispatcher_new = 0"
    by (simp_all add: get_node_def sample_server_def sync_new_def locking_queue_new_def dispatcher_new_eq)
  let ?S' = "sample_server\<lparr>dev_calls := [Reply_to 0 ?rep]\<rparr>"
  have ans: "answered plain_qt samples (next_addr dispatcher_new) ?req sample_server ?rep ?S'"
    using cmd_ls_reply [OF S(1,2), of samples 0] kids
    by (simp add: answered_def process_package_def cmd_defs S wire_list_def)
  have sizes: "has_header ?req" "get_cmd ?req \<noteq> CMD_GENERATE_NID" "length (vec ?req) + 9 < 2 ^ 30"
    "has_header ?rep" "length (vec ?rep) < 2 ^ 30"
    by (simp_all add: vec_mk_package cmd_defs wire_list_def)
  have "wire (?sc\<lparr>wire := encode_frame ?f\<rparr>) = wire ?sc @ concat [encode_frame ?f]"
    by (simp add: open_socket(2))
  from call_over_wire [OF sent request_id_small open_socket(1) open_socket(1) sizes S(4) ans this] sent
  show ?thesis by fastforce
qed

end
