(* ===== verification/Sync_Locks.thy ===== *)
theory Sync_Locks
  imports Ipc_Prelude
begin

text \<open>
  The mutex \<^verbatim>\<open>tracked_mutex\<close> of \<^verbatim>\<open>node_sync.cpp\<close> while a call waits for its peer. \<^verbatim>\<open>fetch_node\<close> and
  \<^verbatim>\<open>update_prop\<close> lock it, send their request and keep it until the reply has come. The handlers of
  the peer's processing thread (\<^verbatim>\<open>cmd_at\<close>, \<^verbatim>\<open>cmd_ls\<close>, \<^verbatim>\<open>cmd_get_prop\<close>) lock the mutex of their own
  node_sync for a moment, to look up the node. The theory is the protocol of these locks for the two
  ends of a connection, which stays open; what the packets contain, and that each of these handlers
  replies on all its paths, is in the other theories (Sync_Server, Session).
\<close>

section \<open>Two ends\<close>

text \<open>The thread of the application that calls, and the processing thread.\<close>

datatype call_state = No_call | Has_lock | Sent | Woken
datatype work_state = Idle | Waits_lock | Answers

record side =
  tracked_locked :: bool
  call :: call_state
  waiting_requests :: nat
  work :: work_state
  reply_in :: bool

type_synonym ends = "bool \<Rightarrow> side"

definition ends_init :: ends where
  "ends_init x = \<lparr>tracked_locked = False, call = No_call, waiting_requests = 0, work = Idle, reply_in = False\<rparr>"

text \<open>
  The ends in \<open>A\<close> make calls, one at a time. \<open>begin_call\<close> locks, \<open>send\<close> writes the request, \<open>wake\<close> is
  the end of \<^verbatim>\<open>dev->send\<close>, \<open>return\<close> unlocks. The processing thread takes a request from its queue
  (\<open>take\<close>), locks and unlocks the table of its end (\<open>look\<close>) and replies (\<open>answer\<close>), or its reply is not
  written (\<open>lost\<close>).
\<close>

inductive lock_step :: "bool set \<Rightarrow> ends \<Rightarrow> ends \<Rightarrow> bool" for A where
  begin_call: "x \<in> A \<Longrightarrow> call (s x) = No_call \<Longrightarrow> \<not> tracked_locked (s x)
    \<Longrightarrow> lock_step A s (s(x := (s x)\<lparr>tracked_locked := True, call := Has_lock\<rparr>))"
| send: "call (s x) = Has_lock
    \<Longrightarrow> lock_step A s (s(x := (s x)\<lparr>call := Sent\<rparr>,
          (\<not> x) := (s (\<not> x))\<lparr>waiting_requests := Suc (waiting_requests (s (\<not> x)))\<rparr>))"
| wake: "call (s x) = Sent \<Longrightarrow> reply_in (s x)
    \<Longrightarrow> lock_step A s (s(x := (s x)\<lparr>call := Woken, reply_in := False\<rparr>))"
| return: "call (s x) = Woken
    \<Longrightarrow> lock_step A s (s(x := (s x)\<lparr>tracked_locked := False, call := No_call\<rparr>))"
| take: "work (s x) = Idle \<Longrightarrow> waiting_requests (s x) = Suc n
    \<Longrightarrow> lock_step A s (s(x := (s x)\<lparr>work := Waits_lock, waiting_requests := n\<rparr>))"
| look: "work (s x) = Waits_lock \<Longrightarrow> \<not> tracked_locked (s x)
    \<Longrightarrow> lock_step A s (s(x := (s x)\<lparr>work := Answers\<rparr>))"
| answer: "work (s x) = Answers
    \<Longrightarrow> lock_step A s (s(x := (s x)\<lparr>work := Idle\<rparr>, (\<not> x) := (s (\<not> x))\<lparr>reply_in := True\<rparr>))"
| lost: "work (s x) = Answers \<Longrightarrow> lock_step A s (s(x := (s x)\<lparr>work := Idle\<rparr>))"

inductive lock_reach :: "bool set \<Rightarrow> ends \<Rightarrow> bool" for A where
  start: "lock_reach A ends_init"
| step: "lock_reach A s \<Longrightarrow> lock_step A s s' \<Longrightarrow> lock_reach A s'"

lemma reach_via: "lock_reach A s \<Longrightarrow> lock_step A s s' \<Longrightarrow> s' = t \<Longrightarrow> lock_reach A t"
  by (blast intro: lock_reach.step)

text \<open>Where no thread can go on: each caller waits for the handler of the other end, and that for the table.\<close>

lemma both_wait_stuck:
  assumes "\<And>x. tracked_locked (s x)" and "\<And>x. call (s x) = Sent" and "\<And>x. \<not> reply_in (s x)"
    and "\<And>x. work (s x) = Waits_lock"
  shows "\<not> lock_step A s s'"
proof
  assume "lock_step A s s'"
  then show False using assms by cases simp_all
qed

section \<open>Properties\<close>

text \<open>
  C27: when both ends of a connection fetch a node or read a property at the same time, the connection
  can stop for good: each caller keeps the mutex of its table while it waits for a reply, and each
  processing thread waits for that mutex to look up the node the reply is about.
\<close>

theorem mutual_calls_deadlock:
  "\<exists>s. lock_reach UNIV s \<and> (\<forall>x. call (s x) = Sent) \<and> (\<forall>s'. \<not> lock_step UNIV s s')"
proof -
  let ?caller = "\<lambda>c n w. \<lparr>tracked_locked = True, call = c, waiting_requests = n, work = w, reply_in = False\<rparr>"
  let ?ends = "\<lambda>a b x. if x then a else b :: side"
  have "lock_reach UNIV (?ends (?caller Has_lock 0 Idle) (ends_init False))"
    by (rule reach_via [OF lock_reach.start lock_step.begin_call [of True]])
      (auto simp: ends_init_def fun_eq_iff)
  then have "lock_reach UNIV (?ends (?caller Has_lock 0 Idle) (?caller Has_lock 0 Idle))"
    by (rule reach_via [OF _ lock_step.begin_call [of False]]) (auto simp: ends_init_def fun_eq_iff)
  then have "lock_reach UNIV (?ends (?caller Sent 0 Idle) (?caller Has_lock 1 Idle))"
    by (rule reach_via [OF _ lock_step.send [of _ True]]) (auto simp: fun_eq_iff)
  then have "lock_reach UNIV (?ends (?caller Sent 1 Idle) (?caller Sent 1 Idle))"
    by (rule reach_via [OF _ lock_step.send [of _ False]]) (auto simp: fun_eq_iff)
  then have "lock_reach UNIV (?ends (?caller Sent 0 Waits_lock) (?caller Sent 1 Idle))"
    by (rule reach_via [OF _ lock_step.take [of _ True]]) (auto simp: fun_eq_iff)
  then have "lock_reach UNIV (?ends (?caller Sent 0 Waits_lock) (?caller Sent 0 Waits_lock))"
    by (rule reach_via [OF _ lock_step.take [of _ False]]) (auto simp: fun_eq_iff)
  then show ?thesis
    using both_wait_stuck [of "?ends (?caller Sent 0 Waits_lock) (?caller Sent 0 Waits_lock)"]
    by (intro exI [of _ "?ends (?caller Sent 0 Waits_lock) (?caller Sent 0 Waits_lock)"]) simp
qed

end
