(* ===== verification/Nid_Race.thy ===== *)
theory Nid_Race
  imports Session_Tree
begin

text \<open>
  The counter of a node_sync under its threads. A server answers a request for a node id on the reader
  thread (\<^verbatim>\<open>node_sync::process_notification\<close>), which holds no lock, while whoever tracks a node
  (\<^verbatim>\<open>do_track\<close> under \<^verbatim>\<open>tracked_mutex\<close>: a handler on the processing thread, or a callback of the tree)
  advances the same counter with the same \<^verbatim>\<open>current_nid++\<close>. The increment is a load and a store; the
  theory interleaves them. Elsewhere in this development it is one step.
\<close>

section \<open>The counter\<close>

text \<open>
  Thread 0 is the reader, thread 1 holds \<^verbatim>\<open>tracked_mutex\<close>. \<open>loaded\<close> is what a thread has read and not
  yet written back, \<open>issued\<close> the ids handed out so far.
\<close>

record counter =
  count :: nid
  loaded :: "nat \<Rightarrow> nid option"
  issued :: "(nat \<times> nid) list"

definition counter_new :: "nid \<Rightarrow> counter" where
  "counter_new k = \<lparr>count = k, loaded = Map.empty, issued = []\<rparr>"

definition load_nid :: "nat \<Rightarrow> counter \<Rightarrow> counter" where
  "load_nid t c = c\<lparr>loaded := (loaded c)(t \<mapsto> count c)\<rparr>"

definition store_nid :: "nat \<Rightarrow> nid \<Rightarrow> counter \<Rightarrow> counter" where
  "store_nid t k c = c\<lparr>count := k + 1, loaded := (loaded c)(t := None), issued := issued c @ [(t, k)]\<rparr>"

inductive counter_step :: "counter \<Rightarrow> counter \<Rightarrow> bool" where
  load: "loaded c t = None \<Longrightarrow> counter_step c (load_nid t c)"
| store: "loaded c t = Some k \<Longrightarrow> counter_step c (store_nid t k c)"

inductive counter_reach :: "counter \<Rightarrow> counter \<Rightarrow> bool" for c0 where
  start: "counter_reach c0 c0"
| step: "counter_reach c0 c \<Longrightarrow> counter_step c c' \<Longrightarrow> counter_reach c0 c'"

text \<open>The same with the increment under a lock, as it would be if the reader took \<^verbatim>\<open>tracked_mutex\<close> too.\<close>

inductive locked_reach :: "counter \<Rightarrow> counter \<Rightarrow> bool" for c0 where
  start: "locked_reach c0 c0"
| step: "locked_reach c0 c \<Longrightarrow> loaded c t = None \<Longrightarrow> locked_reach c0 (store_nid t (count c) (load_nid t c))"

definition ids_from :: "nid \<Rightarrow> nat \<Rightarrow> nid list" where
  "ids_from k n = map (\<lambda>i. k + of_nat i) [0..<n]"

lemma ids_from_Suc: "ids_from k (Suc n) = ids_from k n @ [k + of_nat n]"
  by (simp add: ids_from_def)

lemma counter_reach_trans: "counter_reach c0 c \<Longrightarrow> counter_reach c c' \<Longrightarrow> counter_reach c0 c'"
  by (rotate_tac, induction rule: counter_reach.induct) (auto intro: counter_reach.step)

text \<open>A thread that is left alone.\<close>

lemma counter_alone:
  assumes "loaded c t = None"
  shows "counter_reach c (c\<lparr>count := count c + of_nat n, issued := issued c @ map (Pair t) (ids_from (count c) n)\<rparr>)"
proof (induction n)
  case 0
  then show ?case by (simp add: ids_from_def counter_reach.start)
next
  case (Suc n)
  let ?c = "c\<lparr>count := count c + of_nat n, issued := issued c @ map (Pair t) (ids_from (count c) n)\<rparr>"
  let ?l = "load_nid t ?c"
  have "loaded ?l t = Some (count c + of_nat n)" by (simp add: load_nid_def)
  then have "counter_step ?l (store_nid t (count c + of_nat n) ?l)" by (rule counter_step.store)
  moreover have "counter_step ?c ?l" using assms by (intro counter_step.load) simp
  ultimately have "counter_reach c (store_nid t (count c + of_nat n) ?l)"
    using Suc.IH by (blast intro: counter_reach.step)
  moreover have "store_nid t (count c + of_nat n) ?l
      = c\<lparr>count := count c + of_nat (Suc n), issued := issued c @ map (Pair t) (ids_from (count c) (Suc n))\<rparr>"
    using assms by (cases c) (simp add: store_nid_def load_nid_def ids_from_Suc fun_upd_idem)
  ultimately show ?case by simp
qed

lemma locked_reach_ids:
  "locked_reach (counter_new k) c \<Longrightarrow>
     map snd (issued c) = ids_from k (length (issued c)) \<and> count c = k + of_nat (length (issued c))"
proof (induction rule: locked_reach.induct)
  case start
  show ?case by (simp add: counter_new_def ids_from_def)
next
  case (step c t)
  then show ?case by (simp add: store_nid_def load_nid_def ids_from_Suc)
qed

section \<open>The two halves of a request for an id\<close>

text \<open>
  \<^verbatim>\<open>process_notification\<close> on a request for an id: between its load of \<^verbatim>\<open>current_nid\<close> and what follows,
  the other threads may run.
\<close>

definition nid_request_load :: "'t sync \<Rightarrow> nid" where
  "nid_request_load s = current_nid s"

definition nid_request_store :: "addr \<Rightarrow> nid \<Rightarrow> 't sync \<Rightarrow> fault + 't sync" where
  "nid_request_store a k s =
     dev_reply a (Ipc_Package.set_nid k package_new) (s\<lparr>current_nid := k + 1\<rparr>)"

lemma nid_request_halves:
  assumes "is_server s" and "has_header p" and "get_cmd p = CMD_GENERATE_NID"
  shows "process_notification (Some (a, p)) s = nid_request_store a (nid_request_load s) s"
  using assms has_header_length [OF assms(2)]
  by (simp add: process_notification_def generate_nid_def nid_request_store_def nid_request_load_def)

section \<open>Properties\<close>

text \<open>
  The increment of \<^verbatim>\<open>current_nid\<close> is not safe: a reader thread that is held up between its load and
  its store makes the server hand out again, one after the other, all the ids it has handed out since.
\<close>

theorem nid_counter_race:
  "\<exists>c. counter_reach (counter_new k) c
     \<and> issued c = map (Pair 1) (ids_from k (Suc n)) @ (0, k) # map (Pair 1) (ids_from (k + 1) n)"
proof -
  let ?c0 = "counter_new k"
  let ?c1 = "load_nid 0 ?c0"
  let ?c2 = "?c1\<lparr>count := k + of_nat (Suc n), issued := map (Pair 1) (ids_from k (Suc n))\<rparr>"
  let ?c3 = "store_nid 0 k ?c2"
  let ?c4 = "?c3\<lparr>count := count ?c3 + of_nat n, issued := issued ?c3 @ map (Pair 1) (ids_from (count ?c3) n)\<rparr>"
  have "counter_step ?c0 ?c1" by (rule counter_step.load) (simp add: counter_new_def)
  then have "counter_reach ?c0 ?c1" by (rule counter_reach.step [OF counter_reach.start])
  moreover have "counter_reach ?c1 ?c2"
    using counter_alone [of ?c1 1 "Suc n"] by (simp add: load_nid_def counter_new_def)
  moreover have "counter_step ?c2 ?c3"
    by (rule counter_step.store) (simp add: load_nid_def counter_new_def)
  moreover have "counter_reach ?c3 ?c4"
    by (rule counter_alone) (simp add: load_nid_def store_nid_def counter_new_def)
  ultimately have "counter_reach ?c0 ?c4"
    by (blast intro: counter_reach_trans counter_reach.step)
  moreover have "issued ?c4 = map (Pair 1) (ids_from k (Suc n)) @ (0, k) # map (Pair 1) (ids_from (k + 1) n)"
    by (simp add: store_nid_def)
  ultimately show ?thesis by blast
qed

text \<open>If the reader took \<^verbatim>\<open>tracked_mutex\<close> as well, all ids would be different.\<close>

theorem nid_counter_locked:
  assumes "locked_reach (counter_new k) c" and "length (issued c) \<le> 2 ^ 64"
  shows "distinct (map snd (issued c))"
  using locked_reach_ids [OF assms(1)] distinct_offsets [OF assms(2)] by (simp add: ids_from_def)

theorem nid_counter_locked_witness:
  "distinct (map snd (issued (store_nid 0 7 (load_nid 0 (counter_new 7)))))"
proof -
  have "locked_reach (counter_new 7) (store_nid 0 7 (load_nid 0 (counter_new 7)))"
    using locked_reach.step [OF locked_reach.start, of "counter_new 7" 0] by (simp add: counter_new_def)
  then show ?thesis
    by (rule nid_counter_locked) (simp add: store_nid_def load_nid_def counter_new_def)
qed

text \<open>
  C24: what the race does to the tree. While the reader answers a request for an id, the processing
  thread gives the same id to a child the peer asks for. The peer gets the id twice, once as the name
  of the child and once as a fresh one; when it attaches a node of its own under it, the server's
  entry for the child is replaced by the proxy of that node, and the child can no longer be reached.
\<close>

theorem raced_id_loses_node:
  assumes "server_ok S" and "has_dev S" and "find_key (Some (App i)) (tracked S) = Some nid"
    and "t_at TS (App i) child (tree S) = (Some (App j), tr)" and "find_key (Some (App j)) (tracked S) = None"
    and "fits_wire (wire_string child)" and "fits_wire (wire_string (type_name TS tr (App j)))"
    and "can_mirror TS (App i) name type (S\<lparr>tree := tr\<rparr>)"
    and "fits_int (wire_string type @ wire_string name @ bytes_u64 (nid_request_load S))"
  shows "\<exists>rep S1 S2 S3. let k = nid_request_load S in
       answered q TS a (mk_package nid CMD_AT (wire_string child)) S rep S1
     \<and> get_cmd rep = CMD_AT_SUCCESS \<and> get_nid rep = k \<and> get_node k S1 = Some (App j)
     \<and> nid_request_store b k S1 = Inr S2
     \<and> dev_calls S2 = dev_calls S @ [Reply_to a rep, Reply_to b (Ipc_Package.set_nid k package_new)]
     \<and> process_package q TS c (attach_packet nid type name k) S2 = Inr S3
     \<and> get_node k S3 = Some (Proxy (next_proxy S)) \<and> find_key (Some (App j)) (tracked S3) = None"
proof -
  let ?k = "current_nid S"
  have sv: "is_server S" "sync_ok S" and sorted: "sorted_map (tracked S)" and fresh: "map_of (tracked S) ?k = None"
    using assms(1) by (auto simp: server_ok_def sync_ok_def ids_counted_def)
  have ij: "i \<noteq> j" using assms(3,5) by auto
  let ?type = "type_name TS tr (App j)"
  let ?rep = "mk_package ?k CMD_AT_SUCCESS (wire_string ?type)"
  let ?t = "do_track_as (Some (App j)) ?k (S\<lparr>tree := tr, current_nid := ?k + 1\<rparr>)"
  let ?S1 = "?t\<lparr>dev_calls := dev_calls S @ [Reply_to a ?rep]\<rparr>"
  let ?S2 = "?S1\<lparr>current_nid := ?k + 1, dev_calls := dev_calls S @ [Reply_to a ?rep, Reply_to b (Ipc_Package.set_nid ?k package_new)]\<rparr>"
  let ?S3 = "mirrored TS (App i) name type ?k ?S2"
  have named: "node_nid (App j) (S\<lparr>tree := tr\<rparr>) = Inr (?k, ?t)"
    using node_nid_server [of "S\<lparr>tree := tr\<rparr>" "App j"] sv assms(5) by simp
  have "get_node nid S = Some (App i)" by (rule get_node_found [OF sorted assms(3)])
  then have "cmd_at TS a (package_copy (mk_package nid CMD_AT (wire_string child))) S = Inr ?S1"
    using cmd_at_reply [OF _ _ _ assms(4) _ named, where post = "replicate 9 0" and a = a] assms(2,6,7)
    by (simp add: alive_def do_track_as_def)
  then have answer: "answered q TS a (mk_package nid CMD_AT (wire_string child)) S ?rep ?S1"
    by (simp add: answered_def process_package_def cmd_defs)
  have tracked: "tracked ?S2 = map_put ?k (Some (App j)) (tracked S)" by (simp add: do_track_as_def)
  have at_k: "map_of (tracked ?S2) ?k = Some (Some (App j))"
    unfolding tracked using smap.find_put [OF sorted] by simp
  have stored: "nid_request_store b ?k ?S1 = Inr ?S2"
    using assms(2) by (simp add: nid_request_store_def dev_reply_def do_track_as_def)
  have "sync_ok (S\<lparr>tree := tr, current_nid := ?k + 1\<rparr>)" using sv(2) by (subst sync_ok_cong [of _ S]) simp_all
  then have "sync_ok ?t" using fresh assms(5) by (intro sync_ok_track) (simp_all add: alive_def)
  then have ok: "sync_ok ?S2" by (subst sync_ok_cong [of _ ?t]) simp_all
  have parent: "find_key (Some (App i)) (tracked ?S2) = Some nid"
    unfolding tracked using find_key_put_other [OF sorted, of ?k "Some (App i)" "Some (App j)"] fresh ij assms(3) by simp
  have room: "can_mirror TS (App i) name type ?S2"
    using assms(8) by (simp add: can_mirror_def adopter_def do_track_as_def)
  have "cmd_attach q TS (attach_packet nid type name ?k) ?S2 = Inr ?S3"
    using at_k ij assms(2,9)
    by (intro cmd_attach_mirrors [OF ok _ parent _ room]) (simp_all add: do_track_as_def nid_request_load_def)
  then have attached: "process_package q TS c (attach_packet nid type name ?k) ?S2 = Inr ?S3"
    by (simp add: process_package_def cmd_defs attach_packet_def)
  have sorted2: "sorted_map (tracked ?S2)" using ok by (simp add: sync_ok_def)
  have table: "tracked ?S3 = map_put ?k (Some (Proxy (next_proxy S))) (tracked ?S2)"
    by (simp add: mirrored_def adopt_def do_track_as_def)
  have "find_key (Some (App j)) (tracked ?S3) = None"
  proof (cases "find_key (Some (App j)) (tracked ?S3)")
    case (Some k')
    have "map_of (tracked ?S3) k' = Some (Some (App j))"
      by (rule smap.rev_find_Some [OF _ Some]) (simp only: table sorted_map_put [OF sorted2])
    then have "map_of (tracked S) k' = Some (Some (App j))"
      unfolding table tracked
      using smap.find_put [OF sorted] smap.find_put [OF sorted_map_put [OF sorted]] by (auto split: if_splits)
    with smap.rev_find_None [OF sorted assms(5)] show ?thesis by blast
  qed
  moreover have "get_node ?k ?S3 = Some (Proxy (next_proxy S))"
    unfolding get_node_def table using smap.find_put [OF sorted2] by simp
  moreover have "get_node ?k ?S1 = Some (App j)" using at_k by (simp add: get_node_def)
  ultimately show ?thesis
    using answer stored attached
    by (intro exI [of _ ?rep] exI [of _ ?S1] exI [of _ ?S2] exI [of _ ?S3]) (simp add: nid_request_load_def)
qed

theorem raced_id_loses_node_witness:
  "\<exists>rep S1 S2 S3. answered plain_qt samples 5 (mk_package 0 CMD_AT (wire_string ''a'')) sample_server rep S1
     \<and> get_nid rep = 1 \<and> get_node 1 S1 = Some (App 1) \<and> nid_request_store 6 1 S1 = Inr S2
     \<and> process_package plain_qt samples 7 (attach_packet 0 type_int ''c'' 1) S2 = Inr S3
     \<and> find_key (Some (App 1)) (tracked S3) = None"
proof -
  have S: "has_dev sample_server" "find_key (Some (App 0)) (tracked sample_server) = Some 0"
    "t_at samples (App 0) ''a'' (tree sample_server) = (Some (App 1), sample_nodes)"
    "find_key (Some (App 1)) (tracked sample_server) = None" and load: "nid_request_load sample_server = 1"
    and type: "type_name samples sample_nodes (App 1) = type_int"
    by (simp_all add: sample_state type_name_def nid_request_load_def)
  have fits: "fits_wire (wire_string ''a'')" "fits_wire (wire_string (type_name samples sample_nodes (App 1)))"
    "fits_int (wire_string type_int @ wire_string ''c'' @ bytes_u64 (nid_request_load sample_server))"
    unfolding type by (simp_all add: type_names)
  have room: "can_mirror samples (App 0) ''c'' type_int (sample_server\<lparr>tree := sample_nodes\<rparr>)"
    by (simp add: can_mirror_def known_types_def adopter_def attach_events_ok_def sample_state)
  from raced_id_loses_node [OF sample_server_ok S fits(1,2) room fits(3), of plain_qt 5 6 7]
  show ?thesis unfolding load Let_def by blast
qed

end
