(* ===== verification/Server_Life.thy ===== *)
theory Server_Life
  imports Sync_Cleanup Sync_Queue
begin

text \<open>
  The life of the \<^verbatim>\<open>node_sync\<close> of one connection of a server, as an inductive step relation: packets
  that arrive and are handled, callbacks of the tree, and the use the process makes of its nodes. The
  relation between the state before and after a step is a third interpretation of \<open>sync_relation\<close>.
  The properties are about every sequence of steps, and about what follows when the stream closes:
  the clean-up, and the packets that the processing thread still finds in its queue.
\<close>

section \<open>Entries stay\<close>

text \<open>Every entry of the table stays, and no node gets a second id.\<close>

definition entries_kept :: "'t sync \<Rightarrow> 't sync \<Rightarrow> bool" where
  "entries_kept s s' \<longleftrightarrow>
     (\<forall>k m. map_of (tracked s) k = Some m \<longrightarrow> map_of (tracked s') k = Some m)
     \<and> (one_id_per_node s \<longrightarrow> one_id_per_node s')"

text \<open>The counter of ids has room for the nodes a step tracks.\<close>

definition room :: "'t sync \<Rightarrow> 't sync \<Rightarrow> bool" where
  "room s s' \<longleftrightarrow> unat (current_nid s) + growth s s' < 2 ^ 64"

text \<open>What the handlers keep: their frame, the invariant, and every entry of the table.\<close>

definition keeps_nodes :: "'t sync \<Rightarrow> 't sync \<Rightarrow> bool" where
  "keeps_nodes s s' \<longleftrightarrow>
     sync_frame s s' \<and> keeps_ok s s' \<and> (server_ok s \<longrightarrow> room s s' \<longrightarrow> entries_kept s s')"

lemma entries_kept_same: "tracked s' = tracked s \<Longrightarrow> entries_kept s s'"
  by (simp add: entries_kept_def one_id_per_node_def)

lemma entries_kept_trans: "entries_kept s s' \<Longrightarrow> entries_kept s' s'' \<Longrightarrow> entries_kept s s''"
  by (simp add: entries_kept_def)

lemma entries_kept_put:
  assumes "sorted_map (tracked s)" and "map_of (tracked s) k = None"
    and "tracked s' = map_put k m (tracked s)" and "find_key m (tracked s) = None"
  shows "entries_kept s s'"
  using assms(2) smap.injective_put_new [OF assms(1) _ assms(4)]
  by (auto simp: entries_kept_def one_id_per_node_def assms(3) smap.find_put [OF assms(1)])

lemma keeps_nodes_same:
  "sync_frame s s' \<Longrightarrow> keeps_ok s s' \<Longrightarrow> tracked s' = tracked s \<Longrightarrow> keeps_nodes s s'"
  by (simp add: keeps_nodes_def entries_kept_same)

lemma keeps_nodes_put:
  assumes "sync_frame s s'" and "keeps_ok s s'" and "tracked s' = map_put k m (tracked s)"
    and "server_ok s \<Longrightarrow> map_of (tracked s) k = None \<and> find_key m (tracked s) = None"
  shows "keeps_nodes s s'"
  using assms entries_kept_put by (auto simp: keeps_nodes_def server_ok_def sync_ok_def)

lemma server_ok_unused: "server_ok s \<Longrightarrow> map_of (tracked s) (current_nid s) = None"
  unfolding server_ok_def ids_counted_def by blast

text \<open>A proxy that is still to be made is not in the table.\<close>

lemma next_proxy_unused:
  assumes "server_ok s"
  shows "find_key (Some (Proxy (next_proxy s))) (tracked s) = None"
proof (cases "find_key (Some (Proxy (next_proxy s))) (tracked s)")
  case (Some k)
  have ok: "sync_ok s" using assms by (simp add: server_ok_def)
  then have "map_of (tracked s) k = Some (Some (Proxy (next_proxy s)))"
    using smap.rev_find_Some Some by (auto simp: sync_ok_def)
  with ok have "entry_ok s k (Some (Proxy (next_proxy s)))" unfolding sync_ok_def by blast
  with ok show ?thesis by (simp add: sync_ok_def addresses_ok_def)
qed

lemma tracked_set_deserialization [simp]: "tracked (set_deserialization b n s) = tracked s"
  by (simp add: set_deserialization_def update_proxy_def split: node_ref.split)

lemma keeps_nodes_trans:
  assumes "keeps_nodes s s'" and "keeps_nodes s' s''"
  shows "keeps_nodes s s''"
proof -
  have ok: "keeps_ok s s'" "keeps_ok s' s''" using assms by (simp_all add: keeps_nodes_def)
  have "entries_kept s s''" if s: "server_ok s" and "room s s''"
  proof -
    have grow: "growth s s'' = growth s s' + growth s' s''"
      using ok by (simp add: keeps_ok_def growth_def)
    with that have "room s s'" by (simp add: room_def)
    with ok(1) s have "server_ok s'" "unat (current_nid s') \<le> unat (current_nid s) + growth s s'"
      by (auto simp: keeps_ok_def room_def)
    moreover from this(2) that(2) grow have "room s' s''" by (simp add: room_def)
    ultimately show ?thesis
      using assms s \<open>room s s'\<close> entries_kept_trans unfolding keeps_nodes_def by blast
  qed
  then show ?thesis
    using assms sync_frame_trans keeps_ok_trans unfolding keeps_nodes_def by blast
qed

interpretation life: sync_relation keeps_nodes handed_out "\<lambda>_ _. False"
proof unfold_locales
  fix s s' s'' :: "'t sync"
  show "keeps_nodes s s' \<Longrightarrow> keeps_nodes s' s'' \<Longrightarrow> keeps_nodes s s''" by (rule keeps_nodes_trans)
next
  fix s :: "'t sync" and n
  assume "is_server s" "find_key (Some n) (tracked s) = None" "alive s n"
  then show "keeps_nodes s (do_track_as (Some n) (current_nid s) (s\<lparr>current_nid := current_nid s + 1\<rparr>))"
    by (intro keeps_nodes_put [where k = "current_nid s" and m = "Some n"] frame.track_counted
        table.track_counted conjI server_ok_unused) (simp_all add: do_track_as_def)
next
  fix s :: "'t sync" and n k
  assume "\<not> is_server s" "find_key (Some n) (tracked s) = None" "alive s n"
  then show "keeps_nodes s (do_track_as (Some n) k s)"
    by (simp add: keeps_nodes_def frame.track_asked table.track_asked server_ok_def)
next
  fix s :: "'t sync" and t fk k
  assume "handed_out k s"
  then show "keeps_nodes s (adopt t fk k s)"
    by (intro keeps_nodes_put [where k = k and m = "Some (Proxy (next_proxy s))"] sync_frame_adopt
        keeps_ok_adopt) (simp_all add: adopt_def handed_out_def next_proxy_unused)
qed (auto intro!: keeps_nodes_same frame.refl table.refl frame.set_tree table.set_tree frame.add_call
    table.add_call frame.set_answers table.set_answers frame.set_update table.set_update
    frame.set_deser table.set_deser)

section \<open>Walking to the nodes of the peer\<close>

text \<open>The peer's next answer, unless it is an error, has an id this server has handed out.\<close>

definition answer_admissible :: "'t sync \<Rightarrow> bool" where
  "answer_admissible s \<longleftrightarrow>
     (case answers s of
        Some rep # _ \<Rightarrow> get_cmd rep = CMD_AT_ERROR \<or> handed_out (get_nid rep) s
      | _ \<Rightarrow> False)"

lemma keeps_nodes_fetch:
  assumes "fetch_node T nid name s = Inr (m, s')" and "answer_admissible s"
  shows "keeps_nodes s s'"
  using assms(1)
proof (cases rule: fetch_node_cases)
  case (none req rep)
  then show ?thesis by (auto dest: life.R_dev_send)
next
  case (fetched req rep s1 type)
  obtain rep' as where as: "answers s = Some rep' # as"
    using assms(2) by (auto simp: answer_admissible_def split: list.splits option.splits)
  with fetched(1) have "rep = rep'" "tracked s1 = tracked s" "current_nid s1 = current_nid s"
    by (auto simp: dev_send_def Let_def split: if_splits)
  with as fetched(4) assms(2) have "handed_out (get_nid rep) s1"
    by (simp add: answer_admissible_def handed_out_def)
  then show ?thesis
    unfolding fetched(3) by (rule keeps_nodes_trans [OF life.R_dev_send [OF fetched(1)] life.adopted])
qed

text \<open>\<^verbatim>\<open>client_node::get\<close> is a sequence of these steps and of walks in the tree.\<close>

lemma keeps_nodes_walk:
  assumes "client_step q T n c name create s = Inr (b, s')" and "answer_admissible s"
  shows "keeps_nodes s s'"
proof (cases "s' = s")
  case True
  then show ?thesis by (simp add: life.refl)
next
  case False
  with assms(1) obtain m s1 where fetch: "fetch_node T (cn_nid c) name s = Inr (m, s1)"
    and rest: "(case m of None \<Rightarrow> Inr (False, s1)
       | Some k \<Rightarrow> let (ok, t, evs) = t_insert T n name k (tree s1)
           in andThen (handle_events q T evs (s1\<lparr>tree := t\<rparr>)) (\<lambda>s. Inr (ok, s))) = Inr (b, s')"
    by (auto simp: client_step_def andThen_eq_Inr split: if_splits)
  from rest have "s' = s1 \<or> (\<exists>t evs. handle_events q T evs (s1\<lparr>tree := t\<rparr>) = Inr s')"
    by (cases m) (auto simp: andThen_eq_Inr split: prod.splits)
  then have "keeps_nodes s1 s'" by (auto intro: life.refl life.R_tree_events)
  with keeps_nodes_fetch [OF fetch assms(2)] show ?thesis by (rule keeps_nodes_trans)
qed

section \<open>The steps\<close>

text \<open>
  One step in the life of a connection of a server: a packet arrives at the reader thread; the processing
  thread handles one that does not misuse an id; the peer gets ready to answer the next requests; another
  connection makes a proxy; the application changes its tree, which calls the listener back; it
  stores into a property, reads one, attaches a node, listens to a property, lists a node, or walks down
  to a node of the peer.
\<close>

inductive server_step ::
  "('qs, 'qb) qt_api \<Rightarrow> ('t, 'qs, 'qb) tree_api \<Rightarrow> 't sync \<Rightarrow> 't sync \<Rightarrow> bool"
  for q :: "('qs, 'qb) qt_api" and T :: "('t, 'qs, 'qb) tree_api" where
  arrived: "process_notification m s = Inr s' \<Longrightarrow> current_nid s \<noteq> - 1 \<Longrightarrow> server_step q T s s'"
| handled: "elements (pkg_queue s) = Some (a, p) # ms \<Longrightarrow> admissible handed_out (\<lambda>_ _. False) p s
    \<Longrightarrow> processing_step q T True s = Some (Inr (True, s')) \<Longrightarrow> room s s' \<Longrightarrow> server_step q T s s'"
| answering: "server_step q T s (s\<lparr>answers := as\<rparr>)"
| others: "cn_client c \<noteq> Some (self s) \<Longrightarrow> server_step q T s
    (s\<lparr>next_proxy := Suc (next_proxy s), proxies := (proxies s)(next_proxy s \<mapsto> c), tree := t\<rparr>)"
| changed: "handle_events q T evs (s\<lparr>tree := t\<rparr>) = Inr s' \<Longrightarrow> room s s' \<Longrightarrow> server_step q T s s'"
| stored: "store_value q T n call s = Inr s' \<Longrightarrow> room s s' \<Longrightarrow> server_step q T s s'"
| refreshed: "refresh_value q T n s = Inr s' \<Longrightarrow> room s s' \<Longrightarrow> server_step q T s s'"
| attached: "node_attach q T p name n s = Inr s' \<Longrightarrow> room s s' \<Longrightarrow> server_step q T s s'"
| watched: "prop_add_listener T n s = Inr s' \<Longrightarrow> room s s' \<Longrightarrow> server_step q T s s'"
| unwatched: "prop_remove_listener T n s = Inr s' \<Longrightarrow> room s s' \<Longrightarrow> server_step q T s s'"
| listed: "node_ls T n s = Inr (xs, s') \<Longrightarrow> room s s' \<Longrightarrow> server_step q T s s'"
| walked: "client_step q T n c name create s = Inr (b, s') \<Longrightarrow> answer_admissible s \<Longrightarrow> room s s'
    \<Longrightarrow> server_step q T s s'"

text \<open>What holds between the beginning and any later moment.\<close>

definition served :: "'t sync \<Rightarrow> 't sync \<Rightarrow> bool" where
  "served s s' \<longleftrightarrow>
     server_ok s' \<and> entries_kept s s' \<and> proxies_kept s s' \<and> self s' = self s
     \<and> root_node s' = root_node s \<and> has_dev s' = has_dev s \<and> (\<exists>cs. dev_calls s' = dev_calls s @ cs)"

lemma served_refl: "server_ok s \<Longrightarrow> served s s"
  by (simp add: served_def entries_kept_same proxies_kept_def)

lemma served_trans: "served s s' \<Longrightarrow> served s' s'' \<Longrightarrow> served s s''"
  unfolding served_def using entries_kept_trans proxies_kept_trans by (metis append.assoc)

lemma keeps_nodes_served: "keeps_nodes s s' \<Longrightarrow> server_ok s \<Longrightarrow> room s s' \<Longrightarrow> served s s'"
  by (auto simp: keeps_nodes_def served_def sync_frame_def keeps_ok_def room_def server_ok_def sync_ok_def)

text \<open>Steps that leave the table and the proxies alone.\<close>

lemma served_same:
  assumes "server_ok s" and "tracked s' = tracked s" "proxies s' = proxies s" "next_proxy s' = next_proxy s"
    "self s' = self s" "is_server s' = is_server s" "root_node s' = root_node s" "has_dev s' = has_dev s"
    and "\<exists>cs. dev_calls s' = dev_calls s @ cs" and "current_nid s \<le> current_nid s'"
  shows "served s s'"
proof -
  have "sync_ok s' = sync_ok s" by (rule sync_ok_cong) (simp_all add: assms)
  then show ?thesis
    using assms by (auto simp: served_def server_ok_def ids_counted_def entries_kept_def one_id_per_node_def
        proxies_kept_def dest: order.strict_trans2)
qed

lemma served_arrived:
  assumes "process_notification m s = Inr s'" and "current_nid s \<noteq> - 1" and "server_ok s"
  shows "served s s'"
proof -
  have "1 + current_nid s \<noteq> 0" using assms(2) by (metis add.commute eq_neg_iff_add_eq_0)
  then have le: "current_nid s \<le> current_nid s + 1"
    using unatSuc [of "current_nid s"] by (simp add: word_le_nat_alt add.commute)
  have "is_server s" using assms(3) by (simp add: server_ok_def)
  with assms(1) le show ?thesis
    by (intro served_same [OF assms(3)])
      (auto simp: process_notification_def generate_nid_def dev_reply_def andThen_eq_Inr Let_def
        split: option.splits if_splits prod.splits)
qed

lemma served_others:
  assumes "cn_client c \<noteq> Some (self s)" and ok: "server_ok s"
  shows "served s (s\<lparr>next_proxy := Suc (next_proxy s), proxies := (proxies s)(next_proxy s \<mapsto> c), tree := t\<rparr>)"
    (is "served s ?s'")
proof -
  have none: "proxies s (next_proxy s) = None" and addr: "addresses_ok s"
    using ok by (simp_all add: server_ok_def sync_ok_def addresses_ok_def)
  have entry: "entry_ok s k m \<Longrightarrow> entry_ok ?s' k m" for k m
    using none by (cases "(s, k, m)" rule: entry_ok.cases) (auto split: option.splits)
  have own: "own ?s' i p \<Longrightarrow> own s i p" for i p
    using assms(1) by (auto simp: own_def split: if_splits)
  have "sync_ok ?s'"
    using ok entry own addr by (simp add: server_ok_def sync_ok_def addresses_ok_def)
  then show ?thesis
    using ok none by (auto simp: served_def server_ok_def ids_counted_def entries_kept_same proxies_kept_def)
qed

lemma served_handled:
  assumes queue: "elements (pkg_queue s) = Some (a, p) # ms"
    and adm: "admissible handed_out (\<lambda>_ _. False) p s"
    and step: "processing_step q T True s = Some (Inr (True, s'))" and "room s s'" and ok: "server_ok s"
  shows "served s s'"
proof -
  let ?s = "s\<lparr>pkg_queue := \<lparr>elements = ms\<rparr>\<rparr>"
  have popped: "served s ?s" by (rule served_same [OF ok]) simp_all
  have "process_package q T a p ?s = Inr s'"
    using step unfolding processing_step_head [OF queue] by (simp add: andThen_eq_Inr)
  moreover have "admissible handed_out (\<lambda>_ _. False) p ?s"
  proof -
    have "handed_out k ?s = handed_out k s" "get_node k ?s = get_node k s" for k
      by (simp_all add: handed_out_def get_node_def)
    with adm show ?thesis by (simp add: admissible_def cong: sum.case_cong)
  qed
  ultimately have "keeps_nodes ?s s'" by (rule life.R_process_package)
  moreover have "room ?s s'" using \<open>room s s'\<close> by (simp add: room_def growth_def)
  ultimately have "served ?s s'" using popped by (intro keeps_nodes_served) (simp_all add: served_def)
  with popped show ?thesis by (rule served_trans)
qed

lemma served_step:
  assumes "server_step q T s s'" and "server_ok s"
  shows "served s s'"
  using assms
proof (cases rule: server_step.cases)
  case (answering as)
  then show ?thesis using assms(2) by (simp add: served_same)
qed (auto intro: served_arrived served_handled served_others keeps_nodes_served dest: life.R_tree_events keeps_nodes_walk
  life.R_store_value life.R_refresh_value life.R_node_attach life.R_prop_listener life.R_node_ls)

lemma served_run:
  assumes "(server_step q T)\<^sup>*\<^sup>* s s'" and "server_ok s"
  shows "served s s'"
  using assms
proof (induction rule: rtranclp_induct)
  case base
  then show ?case by (rule served_refl)
next
  case (step s1 s2)
  then have "served s s1" by blast
  moreover from this have "served s1 s2" by (intro served_step [OF step(2)]) (simp add: served_def)
  ultimately show ?case by (rule served_trans)
qed

section \<open>After the end\<close>

text \<open>What a handler answers when nothing is tracked.\<close>

definition late_reply :: "addr \<times> package \<Rightarrow> dev_call list" where
  "late_reply m =
     (let p = snd m; err = (\<lambda>c. [Reply_to (fst m) (response (get_nid p) c)])
      in if get_cmd p = CMD_LS then err CMD_LS_ERROR
         else if get_cmd p = CMD_AT then err CMD_AT_ERROR
         else if get_cmd p = CMD_PROP_GET_VALUE then err CMD_PROP_GET_VALUE_ERROR
         else [])"

text \<open>The two commands whose handlers write to the table without looking into it.\<close>

definition looks_up :: "addr \<times> package \<Rightarrow> bool" where
  "looks_up m \<longleftrightarrow> get_cmd (snd m) \<noteq> CMD_AT_SUCCESS \<and> get_cmd (snd m) \<noteq> CMD_PROP_SET_VALUE"

lemma late_packet:
  assumes "tracked s = []" and "has_dev s" and "looks_up (a, p)"
  shows "process_package q T a p s = Inr (s\<lparr>dev_calls := dev_calls s @ late_reply (a, p)\<rparr>)"
  using assms
  by (simp add: process_package_def late_reply_def looks_up_def cmd_ls_def cmd_at_def cmd_get_prop_def
      cmd_subscribe_def process_prop_value_def cmd_attach_def cmd_subscribe_add_remove_def
      cmd_child_added_def get_node_def get_prop_def dev_reply_def cmd_defs Let_def)

lemma late_packets:
  assumes "tracked s = []" and "has_dev s" and "\<forall>m \<in> set ms. looks_up m"
  shows "\<exists>s'. handle_all q T ms s = Inr s' \<and> tracked s' = [] \<and> proxies s' = proxies s
    \<and> dev_calls s' = dev_calls s @ concat (map late_reply ms)"
  using assms
proof (induction ms arbitrary: s)
  case Nil
  then show ?case by simp
next
  case (Cons m ms)
  obtain a p where m: "m = (a, p)" by (cases m)
  let ?s = "s\<lparr>pkg_queue := \<lparr>elements = map Some ms\<rparr>\<rparr>"
  have "process_package q T a p ?s = Inr (?s\<lparr>dev_calls := dev_calls ?s @ late_reply m\<rparr>)"
    unfolding m using Cons.prems m by (intro late_packet) simp_all
  moreover have "\<exists>s'. handle_all q T ms (?s\<lparr>dev_calls := dev_calls ?s @ late_reply m\<rparr>) = Inr s'
      \<and> tracked s' = [] \<and> proxies s' = proxies ?s
      \<and> dev_calls s' = (dev_calls s @ late_reply m) @ concat (map late_reply ms)"
    using Cons.IH [of "?s\<lparr>dev_calls := dev_calls ?s @ late_reply m\<rparr>"] Cons.prems by simp
  ultimately show ?case using m by auto
qed

section \<open>Properties\<close>

text \<open>
  C16: an id names one node as long as the connection lives. Whatever packets arrive and are handled,
  whatever the application does to its tree and its nodes meanwhile: a node that has an id is found
  under it later, it gets the same id when it is asked for again, and no second one. It holds for
  packets that do not misuse an id and until the counter wraps.
\<close>

theorem id_keeps_node:
  assumes "(server_step q T)\<^sup>*\<^sup>* s s'" and "server_ok s" and "one_id_per_node s"
    and "get_node k s = Some n"
  shows "server_ok s' \<and> get_node k s' = Some n \<and> node_nid n s' = Inr (k, s')
    \<and> (\<forall>k'. get_node k' s' = Some n \<longrightarrow> k' = k)"
proof -
  have served: "served s s'" using assms(1,2) by (rule served_run)
  then have one: "one_id_per_node s'" and sorted: "sorted_map (tracked s')"
    using assms(3) by (simp_all add: served_def entries_kept_def server_ok_def sync_ok_def)
  have "map_of (tracked s) k = Some (Some n)" using assms(4) by (simp add: get_node_def split: option.splits)
  then have here: "map_of (tracked s') k = Some (Some n)" using served by (simp add: served_def entries_kept_def)
  then have "find_key (Some n) (tracked s') = Some k"
    by (rule smap.rev_find_found [OF sorted one [unfolded one_id_per_node_def]])
  then have "node_nid n s' = Inr (k, s')" by (rule node_nid_known)
  moreover have "k' = k" if "get_node k' s' = Some n" for k'
    using that here one by (auto simp: get_node_def one_id_per_node_def smap.injective_def split: option.splits)
  ultimately show ?thesis using served here by (simp add: served_def get_node_def)
qed

theorem id_keeps_node_witness:
  "\<exists>s'. (server_step plain_qt samples)\<^sup>*\<^sup>* sample_server s' \<and> get_node 1 s' = Some (App 1)
     \<and> get_node 0 s' = Some (App 0) \<and> node_nid (App 0) s' = Inr (0, s')"
proof -
  let ?q = "sample_server\<lparr>pkg_queue := \<lparr>elements = [Some (5, at_a)]\<rparr>\<rparr>"
  have "has_header at_a" "get_cmd at_a = CMD_AT" by (simp_all add: at_a_def)
  then have "process_notification (Some (5, at_a)) sample_server = Inr ?q"
    using has_header_length [of at_a]
    by (simp add: process_notification_def push_def cmd_defs sample_server_def sync_new_def locking_queue_new_def)
  then have one: "server_step plain_qt samples sample_server ?q"
    by (rule server_step.arrived) (simp add: sample_server_def)
  have pop: "?q\<lparr>pkg_queue := \<lparr>elements = []\<rparr>\<rparr> = sample_server"
    by (simp add: sample_server_def sync_new_def locking_queue_new_def)
  obtain s' where run: "process_package plain_qt samples 5 at_a sample_server = Inr s'"
    and s': "tracked s' = [(0, Some (App 0)), (1, Some (App 1))]" using sample_at_a by blast
  have "processing_step plain_qt samples True ?q = Some (Inr (True, s'))"
    using processing_step_head [of ?q 5 at_a "[]" plain_qt samples] pop run by simp
  then have "server_step plain_qt samples ?q s'"
    using s' by (intro server_step.handled [of ?q 5 at_a "[]"])
      (simp_all add: admissible_def at_a_def cmd_defs room_def growth_def sample_server_def)
  with one have steps: "(server_step plain_qt samples)\<^sup>*\<^sup>* sample_server s'" by (meson r_into_rtranclp rtranclp_trans)
  have "one_id_per_node sample_server" "get_node 0 sample_server = Some (App 0)"
    by (auto simp: one_id_per_node_def smap.injective_def get_node_def sample_server_def split: if_splits)
  from id_keeps_node [OF steps sample_server_ok this] steps s' show ?thesis
    by (auto simp: get_node_def)
qed

text \<open>
  C17: what a closed connection leaves behind, whatever has happened since the start. If the peer has
  attached a node that is still there, the clean-up uses it after it has deleted it. If it has not, the
  clean-up ends with an empty table and no proxy touched; and the processing thread, which then still works
  through its queue, touches no node any more: it answers the requests with errors and goes to
  sleep, with the table empty. It holds for a queue without the two commands that write to the
  table unseen.
\<close>

theorem closed_stays_empty:
  assumes "(server_step q T)\<^sup>*\<^sup>* s s1" and "server_ok s" and "has_dev s"
    and "owner_laws T" and "owners_alive T s1"
    and "elements (pkg_queue s1) = map Some ms" and "\<forall>m \<in> set ms. looks_up m"
  shows "if \<exists>i c. own s1 i c \<and> root_node s1 \<noteq> Some (Proxy i)
    then stream_closed T base_get_root s1 = Some (Inl Use_after_free)
    else \<exists>s2 s3. stream_closed T base_get_root s1 = Some (Inr s2)
           \<and> tracked s2 = [] \<and> proxies s2 = proxies s1
           \<and> package_processing_routine q T (Suc (length ms)) True s2 = Some (Inr (True, s3))
           \<and> tracked s3 = [] \<and> proxies s3 = proxies s1 \<and> elements (pkg_queue s3) = []
           \<and> dev_calls s3 = dev_calls s1 @ concat (map late_reply ms)"
proof -
  have served: "served s s1" using assms(1,2) by (rule served_run)
  then have ok: "sync_ok s1" and dev: "has_dev s1" using assms(3) by (simp_all add: served_def server_ok_def)
  have "root_known T base_get_root s1" by (simp add: root_known_def)
  note closed = sync_ok_closed [OF ok assms(4,5) this]
  show ?thesis
  proof (cases "\<exists>n. doomed s1 n")
    case True
    with closed show ?thesis by (auto simp: doomed_own)
  next
    case False
    with closed obtain s2 where close: "stream_closed T base_get_root s1 = Some (Inr s2)" and "cleaned s1 s2"
      by auto
    then have s2: "tracked s2 = []" "proxies s2 = proxies s1" "dev_calls s2 = dev_calls s1" "has_dev s2"
      and queue: "elements (pkg_queue s2) = map Some ms"
      using assms(6) dev by (simp_all add: cleaned_def)
    obtain s3 where run: "handle_all q T ms s2 = Inr s3" and s3: "tracked s3 = []" "proxies s3 = proxies s2"
      "dev_calls s3 = dev_calls s2 @ concat (map late_reply ms)"
      using late_packets [OF s2(1,4) assms(7)] by blast
    have "package_processing_routine q T (Suc (length ms)) True s2 = Some (Inr (True, s3))"
      using routine_runs [OF queue, of "Suc (length ms)" q T] run
      by (simp del: package_processing_routine.simps)
    moreover have "\<not> (\<exists>i c. own s1 i c \<and> root_node s1 \<noteq> Some (Proxy i))" using False by (auto simp: doomed_own)
    ultimately show ?thesis using close s2 s3 handle_all_queue [OF run queue] by auto
  qed
qed

theorem closed_stays_empty_witness:
  "\<exists>s1 s2 s3. (server_step plain_qt samples)\<^sup>*\<^sup>* sample_server s1
     \<and> stream_closed samples base_get_root s1 = Some (Inr s2)
     \<and> package_processing_routine plain_qt samples 2 True s2 = Some (Inr (True, s3))
     \<and> dev_calls s3 = [Reply_to 5 (mk_package 0 CMD_AT_ERROR [])]"
proof -
  let ?q = "sample_server\<lparr>pkg_queue := \<lparr>elements = [Some (5, at_a)]\<rparr>\<rparr>"
  have at: "has_header at_a" "get_cmd at_a = CMD_AT" "get_nid at_a = 0" by (simp_all add: at_a_def)
  then have "process_notification (Some (5, at_a)) sample_server = Inr ?q"
    using has_header_length [of at_a]
    by (simp add: process_notification_def push_def cmd_defs sample_server_def sync_new_def locking_queue_new_def)
  then have "server_step plain_qt samples sample_server ?q"
    by (rule server_step.arrived) (simp add: sample_server_def)
  then have steps: "(server_step plain_qt samples)\<^sup>*\<^sup>* sample_server ?q" by blast
  have "owners_alive samples ?q"
    by (auto simp: owners_alive_def sample_state alive_def split: if_splits)
  moreover have "has_dev sample_server" "dev_calls ?q = []" "\<not> own ?q i c" for i c
    by (simp_all add: own_def sample_server_def sync_new_def)
  moreover have "late_reply (5, at_a) = [Reply_to 5 (mk_package 0 CMD_AT_ERROR [])]" "looks_up (5, at_a)"
    using at by (simp_all add: late_reply_def looks_up_def response_def package_new_mk cmd_defs)
  ultimately show ?thesis
    using closed_stays_empty [OF steps sample_server_ok _ sample_owner_laws, of "[(5, at_a)]"] steps
    by (simp flip: numeral_2_eq_2 del: package_processing_routine.simps) metis
qed

end
