(* ===== verification/Frame_Writers.thy ===== *)
theory Frame_Writers
  imports Byte_Streams
begin

text \<open>
  Several threads in \<^verbatim>\<open>package_codec::write\<close> (\<^verbatim>\<open>package_stream.cpp\<close>): the reader thread replies, the
  processing thread publishes, and the application's threads send, all on one byte stream. A frame
  goes to the transport in two calls; the mutex \<^verbatim>\<open>write_lock\<close> keeps those of different threads apart.
  The step relation \<open>writer_step\<close> interleaves the threads between the calls; its specification is
  \<open>write_all\<close>, the same writes one after the other. \<open>tw\<close> is the transport's \<^verbatim>\<open>write\<close>, as in
  Package_Codec; no transport calls back into the codec, so the mutex is never locked twice by one
  thread.
\<close>

section \<open>Threads\<close>

type_synonym writer = nat

text \<open>
  Where a thread is: outside, inside with the lock and the frame to write, or between the two calls with
  what the first one returned.
\<close>

datatype writer_stage = Outside | Locked "byte list" | Size_sent "byte list" nat

text \<open>\<open>returned\<close> has the finished calls in order: thread, frame, result.\<close>

record 'tr writers =
  medium :: 'tr
  write_lock :: "writer option"
  stage :: "writer \<Rightarrow> writer_stage"
  returned :: "(writer \<times> byte list \<times> bool) list"

definition writers_new :: "'tr \<Rightarrow> 'tr writers" where
  "writers_new tr = \<lparr>medium = tr, write_lock = None, stage = (\<lambda>_. Outside), returned = []\<rparr>"

text \<open>The two halves of \<^verbatim>\<open>write\<close>: the call with the size, and the call with the bytes.\<close>

definition send_size :: "(byte list \<Rightarrow> 'tr \<Rightarrow> nat \<times> 'tr) \<Rightarrow> byte list \<Rightarrow> 'tr \<Rightarrow> nat \<times> 'tr" where
  "send_size tw p tr = tw (bytes_u32 (of_nat (length p))) tr"

definition send_bytes ::
  "(byte list \<Rightarrow> 'tr \<Rightarrow> nat \<times> 'tr) \<Rightarrow> byte list \<Rightarrow> nat \<Rightarrow> 'tr \<Rightarrow> fault + (bool \<times> 'tr)" where
  "send_bytes tw p w1 tr =
     (let n = unat (scast (of_nat (length p) :: u32) :: u64)
      in if length p < n then Inl Out_of_bounds
         else let (w2, tr) = tw (take n p) tr in Inr (w1 + w2 = length p + 4, tr))"

lemma codec_write_halves:
  "has_transport c \<Longrightarrow> codec_write tw c p tr
     = (let (w1, tr) = send_size tw p tr in send_bytes tw p w1 tr)"
  by (simp add: codec_write_def send_size_def send_bytes_def Let_def case_prod_unfold)

inductive writer_step ::
  "(byte list \<Rightarrow> 'tr \<Rightarrow> nat \<times> 'tr) \<Rightarrow> 'tr writers \<Rightarrow> 'tr writers \<Rightarrow> bool"
  for tw :: "byte list \<Rightarrow> 'tr \<Rightarrow> nat \<times> 'tr" where
  lock: "stage s t = Outside \<Longrightarrow> write_lock s = None
    \<Longrightarrow> writer_step tw s (s\<lparr>write_lock := Some t, stage := (stage s)(t := Locked p)\<rparr>)"
| size: "stage s t = Locked p \<Longrightarrow> send_size tw p (medium s) = (w1, tr)
    \<Longrightarrow> writer_step tw s (s\<lparr>medium := tr, stage := (stage s)(t := Size_sent p w1)\<rparr>)"
| bytes: "stage s t = Size_sent p w1 \<Longrightarrow> send_bytes tw p w1 (medium s) = Inr (ok, tr)
    \<Longrightarrow> writer_step tw s (s\<lparr>medium := tr, stage := (stage s)(t := Outside), write_lock := None,
                             returned := returned s @ [(t, p, ok)]\<rparr>)"

text \<open>One write that nobody interrupts.\<close>

lemma one_write:
  assumes "stage s t = Outside" and "write_lock s = None" and "has_transport c"
    and "codec_write tw c p (medium s) = Inr (ok, tr)"
  shows "(writer_step tw)\<^sup>*\<^sup>* s (s\<lparr>medium := tr, returned := returned s @ [(t, p, ok)]\<rparr>)"
proof -
  obtain w1 tr1 where size: "send_size tw p (medium s) = (w1, tr1)" by fastforce
  with assms(3,4) have bytes: "send_bytes tw p w1 tr1 = Inr (ok, tr)" by (simp add: codec_write_halves)
  let ?s1 = "s\<lparr>write_lock := Some t, stage := (stage s)(t := Locked p)\<rparr>"
  let ?s2 = "?s1\<lparr>medium := tr1, stage := (stage ?s1)(t := Size_sent p w1)\<rparr>"
  let ?s3 = "?s2\<lparr>medium := tr, stage := (stage ?s2)(t := Outside), write_lock := None,
               returned := returned ?s2 @ [(t, p, ok)]\<rparr>"
  have a: "writer_step tw s ?s1" using assms(1,2) by (rule writer_step.lock)
  have b: "writer_step tw ?s1 ?s2" by (rule writer_step.size) (simp_all add: size)
  have c: "writer_step tw ?s2 ?s3" by (rule writer_step.bytes [of ?s2 t p w1]) (simp_all add: bytes)
  have "(stage s)(t := Outside) = stage s" using assms(1) by (simp add: fun_upd_idem)
  then have "?s3 = s\<lparr>medium := tr, returned := returned s @ [(t, p, ok)]\<rparr>" using assms(2) by simp
  moreover have "(writer_step tw)\<^sup>*\<^sup>* s ?s3"
    by (rule converse_rtranclp_into_rtranclp, rule a, rule converse_rtranclp_into_rtranclp, rule b,
        rule r_into_rtranclp, rule c)
  ultimately show ?thesis by (simp only:)
qed

text \<open>The same writes, one after the other.\<close>

fun write_all ::
  "(byte list \<Rightarrow> 'tr \<Rightarrow> nat \<times> 'tr) \<Rightarrow> codec \<Rightarrow> byte list list \<Rightarrow> 'tr \<Rightarrow> fault + (bool list \<times> 'tr)" where
  "write_all tw c [] tr = Inr ([], tr)"
| "write_all tw c (p # ps) tr =
     andThen (codec_write tw c p tr) (\<lambda>(ok, tr).
     andThen (write_all tw c ps tr) (\<lambda>(oks, tr). Inr (ok # oks, tr)))"

abbreviation frames_of :: "(writer \<times> byte list \<times> bool) list \<Rightarrow> byte list list" where
  "frames_of rs \<equiv> map (\<lambda>r. fst (snd r)) rs"

abbreviation results_of :: "(writer \<times> byte list \<times> bool) list \<Rightarrow> bool list" where
  "results_of rs \<equiv> map (\<lambda>r. snd (snd r)) rs"

lemma write_all_snoc:
  assumes "write_all tw c ps tr = Inr (oks, tr1)" and "codec_write tw c p tr1 = Inr (ok, tr2)"
  shows "write_all tw c (ps @ [p]) tr = Inr (oks @ [ok], tr2)"
  using assms(1)
proof (induction ps arbitrary: tr oks)
  case Nil
  then show ?case using assms(2) by simp
next
  case (Cons q ps)
  then obtain b tr' oks' where "codec_write tw c q tr = Inr (b, tr')" "oks = b # oks'"
    and "write_all tw c ps tr' = Inr (oks', tr1)"
    by (auto simp: andThen_eq_Inr)
  then show ?case using Cons.IH by simp
qed

section \<open>The invariant\<close>

text \<open>
  Only the thread that has the lock is inside, and the transport is where the finished writes left it,
  one after the other, and then the first half of the one under way.
\<close>

definition writers_ok :: "(byte list \<Rightarrow> 'tr \<Rightarrow> nat \<times> 'tr) \<Rightarrow> codec \<Rightarrow> 'tr \<Rightarrow> 'tr writers \<Rightarrow> bool" where
  "writers_ok tw c tr0 s \<longleftrightarrow>
     (\<forall>t. stage s t \<noteq> Outside \<longrightarrow> write_lock s = Some t) \<and>
     (\<exists>tr. write_all tw c (frames_of (returned s)) tr0 = Inr (results_of (returned s), tr) \<and>
       (case write_lock s of
          None \<Rightarrow> medium s = tr
        | Some t \<Rightarrow>
            (case stage s t of
               Outside \<Rightarrow> False
             | Locked p \<Rightarrow> medium s = tr
             | Size_sent p w1 \<Rightarrow> send_size tw p tr = (w1, medium s))))"

lemma writers_ok_new: "writers_ok tw c tr (writers_new tr)"
  by (simp add: writers_ok_def writers_new_def)

lemma writer_step_ok:
  assumes "writer_step tw s s'" and "has_transport c" and ok: "writers_ok tw c tr0 s"
  shows "writers_ok tw c tr0 s'"
  using assms(1)
proof cases
  case (lock t p)
  then show ?thesis using ok by (auto simp: writers_ok_def)
next
  case (size t p w1 tr)
  from ok size(2) have "write_lock s = Some t" by (simp add: writers_ok_def)
  with ok size show ?thesis by (auto simp: writers_ok_def)
next
  case (bytes t p w1 b tr)
  from ok bytes(2) have l: "write_lock s = Some t" by (simp add: writers_ok_def)
  with ok bytes(2) obtain tr1 where
    all: "write_all tw c (frames_of (returned s)) tr0 = Inr (results_of (returned s), tr1)"
    and sz: "send_size tw p tr1 = (w1, medium s)" by (auto simp: writers_ok_def)
  have "codec_write tw c p tr1 = Inr (b, tr)"
    using sz bytes(3) by (simp add: codec_write_halves [OF assms(2)])
  from write_all_snoc [OF all this]
  have "write_all tw c (frames_of (returned s')) tr0 = Inr (results_of (returned s'), medium s')"
    by (simp add: bytes(1))
  moreover have "stage s t' = Outside" if "t' \<noteq> t" for t'
    using ok l that unfolding writers_ok_def by (metis option.inject)
  ultimately show ?thesis by (auto simp: writers_ok_def bytes(1))
qed

lemma writers_run_ok:
  assumes "(writer_step tw)\<^sup>*\<^sup>* (writers_new tr) s" and "has_transport c"
  shows "writers_ok tw c tr s"
  using assms by (induction rule: rtranclp_induct) (auto intro: writers_ok_new writer_step_ok)

text \<open>On a byte stream, writes that all report success leave exactly their frames.\<close>

context bytestream
begin

lemma write_all_True:
  assumes "write_all tw c ps tr = Inr (oks, tr')" and "\<forall>ok \<in> set oks. ok"
    and "\<forall>p \<in> set ps. length p < 2 ^ 31"
  shows "sent tr' = sent tr @ encode_frames ps"
  using assms
proof (induction ps arbitrary: tr oks)
  case Nil
  then show ?case by simp
next
  case (Cons p ps)
  from Cons.prems(1) obtain ok tr1 oks1 where w: "codec_write tw c p tr = Inr (ok, tr1)"
    and rest: "write_all tw c ps tr1 = Inr (oks1, tr')" and oks: "oks = ok # oks1"
    by (auto simp: andThen_eq_Inr)
  with Cons.prems have "sent tr1 = sent tr @ encode_frame p" by (intro codec_write_True) simp_all
  moreover have "\<forall>ok \<in> set oks1. ok" "\<forall>p \<in> set ps. length p < 2 ^ 31"
    using Cons.prems(2,3) oks by auto
  then have "sent tr' = sent tr1 @ encode_frames ps" by (rule Cons.IH [OF rest])
  ultimately show ?case by simp
qed

end

section \<open>Properties\<close>

text \<open>
  C18: frames of concurrent writers stay whole. However the threads that write are interleaved, what the
  socket gets and what each call returns is what the same writes give one after the other, in
  the order in which they return; and when they all return true, the receiver gets exactly the frames
  that were written, each once and whole, in whatever chunks the bytes arrive.
\<close>

theorem concurrent_writers_serialize:
  assumes "(writer_step socket_write)\<^sup>*\<^sup>* (writers_new sc) s" and "write_lock s = None"
    and "has_transport c" and "wire sc = []"
    and "\<forall>(t, p, ok) \<in> set (returned s). frame_ok p \<and> length p < 2 ^ 31"
  shows "write_all socket_write c (frames_of (returned s)) sc = Inr (results_of (returned s), medium s)
    \<and> ((\<forall>(t, p, ok) \<in> set (returned s). ok) \<longrightarrow> concat chunks = wire (medium s)
         \<longrightarrow> codec_feeds collect chunks codec_new [] = Inr (codec_new, frames_of (returned s)))"
proof -
  have "writers_ok socket_write c sc s" using assms(1,3) by (rule writers_run_ok)
  then have all: "write_all socket_write c (frames_of (returned s)) sc = Inr (results_of (returned s), medium s)"
    using assms(2) by (auto simp: writers_ok_def)
  have "codec_feeds collect chunks codec_new [] = Inr (codec_new, frames_of (returned s))"
    if "\<forall>(t, p, ok) \<in> set (returned s). ok" and "concat chunks = wire (medium s)"
  proof -
    have "wire (medium s) = wire sc @ encode_frames (frames_of (returned s))"
      using asio.write_all_True [OF all] that(1) assms(5) by fastforce
    moreover have "list_all frame_ok (frames_of (returned s))"
      using assms(5) by (fastforce simp: list_all_iff)
    ultimately show ?thesis using codec_feeds_collect that(2) assms(4) by simp
  qed
  with all show ?thesis by blast
qed

theorem concurrent_writers_serialize_witness:
  "\<exists>s. (writer_step socket_write)\<^sup>*\<^sup>* (writers_new ((socket_client_new [])\<lparr>is_connected := True\<rparr>)) s
     \<and> wire (medium s) = [1, 0, 0, 0, 7, 2, 0, 0, 0, 8, 9]
     \<and> codec_feeds collect [[1, 0, 0], [0, 7, 2, 0, 0, 0, 8], [9]] codec_new [] = Inr (codec_new, [[7], [8, 9]])"
proof -
  let ?c = "set_transport codec_new"
  let ?sc = "(socket_client_new [])\<lparr>is_connected := True\<rparr>"
  let ?sc1 = "?sc\<lparr>wire := [1, 0, 0, 0, 7]\<rparr>" and ?sc2 = "?sc\<lparr>wire := [1, 0, 0, 0, 7, 2, 0, 0, 0, 8, 9]\<rparr>"
  let ?s1 = "(writers_new ?sc)\<lparr>medium := ?sc1, returned := [(1, [7], True)]\<rparr>"
  let ?s2 = "(writers_new ?sc)\<lparr>medium := ?sc2, returned := [(1, [7], True), (2, [8, 9], True)]\<rparr>"
  have c: "has_transport ?c" by (simp add: set_transport_def)
  have "codec_write socket_write ?c [7] ?sc = Inr (True, ?sc1)"
    "codec_write socket_write ?c [8, 9] ?sc1 = Inr (True, ?sc2)"
    using c by (simp_all add: codec_write_def socket_write_def write_some_def socket_client_new_def eval_bytes)
  then have "(writer_step socket_write)\<^sup>*\<^sup>* (writers_new ?sc) ?s1" "(writer_step socket_write)\<^sup>*\<^sup>* ?s1 ?s2"
    using one_write [of "writers_new ?sc" 1 ?c socket_write "[7]" True ?sc1]
      one_write [of ?s1 2 ?c socket_write "[8, 9]" True ?sc2] c
    by (simp_all add: writers_new_def)
  then have run: "(writer_step socket_write)\<^sup>*\<^sup>* (writers_new ?sc) ?s2" by (rule rtranclp_trans)
  from concurrent_writers_serialize [OF run _ c, of "[[1, 0, 0], [0, 7, 2, 0, 0, 0, 8], [9]]"] run
  show ?thesis
    by (intro exI [of _ ?s2])
      (simp add: writers_new_def socket_client_new_def frame_ok_def del: codec_feeds.simps)
qed

end
