(* ===== verification/Lock_Order.thy ===== *)
theory Lock_Order
  imports Ipc_Prelude
begin

text \<open>
  The mutexes of the stacks of several connections in one process, and the order in which the threads
  lock them: \<^verbatim>\<open>tracked_mutex\<close> and \<^verbatim>\<open>update_in_process_mutex\<close> of a \<^verbatim>\<open>node_sync\<close>, the mutexes of its
  \<^verbatim>\<open>serializer_machine\<close> and of its queue, and those of its \<^verbatim>\<open>request_reply_dispatcher\<close> and \<^verbatim>\<open>package_codec\<close>. An operation is the list of its
  locks and unlocks on the longest way through it (an early return leaves some pairs of them out); what
  it does between them is in the other theories. The step relation interleaves any number of threads.

  A thread that waits for a reply, or for a packet in the queue, has released the mutex of the condition
  variable and is taken to be woken; Sync_Locks has the case in which the reply does not come. The
  mutex that \<^verbatim>\<open>notify\<close> of the dispatcher holds is left out: while a connection is served only its
  reader thread locks it.
\<close>

section \<open>Mutexes and threads\<close>

datatype mutex_kind = Tracked | Updating | Serializers | Requests | Senders | Msgids | Writing | Queue

text \<open>The mutex of a kind of a connection.\<close>

type_synonym mutex = "mutex_kind \<times> nat"

datatype lock_op = Lock mutex | Unlock mutex

text \<open>\<^verbatim>\<open>std::recursive_mutex\<close>, or \<^verbatim>\<open>std::mutex\<close>.\<close>

definition recursive_mutex :: "mutex \<Rightarrow> bool" where
  "recursive_mutex m \<longleftrightarrow> fst m \<in> {Tracked, Updating, Serializers, Requests, Msgids, Writing}"

text \<open>A thread: the mutexes it holds, and what it still has to do.\<close>

type_synonym locker = "mutex list \<times> lock_op list"

inductive mutex_step :: "locker list \<Rightarrow> locker list \<Rightarrow> bool" where
  acquire: "i < length ts \<Longrightarrow> ts ! i = (h, Lock m # ops) \<Longrightarrow> (m \<in> set h \<longrightarrow> recursive_mutex m)
    \<Longrightarrow> (\<forall>j < length ts. j \<noteq> i \<longrightarrow> m \<notin> set (fst (ts ! j)))
    \<Longrightarrow> mutex_step ts (ts[i := (m # h, ops)])"
| release: "i < length ts \<Longrightarrow> ts ! i = (h, Unlock m # ops) \<Longrightarrow> m \<in> set h
    \<Longrightarrow> mutex_step ts (ts[i := (remove1 m h, ops)])"

abbreviation finished :: "locker list \<Rightarrow> bool" where
  "finished ts \<equiv> (\<forall>t \<in> set ts. t = ([], []))"

section \<open>Operations\<close>

text \<open>\<^verbatim>\<open>package_codec\<close> and \<^verbatim>\<open>request_reply_dispatcher\<close>.\<close>

definition write_locks :: "nat \<Rightarrow> lock_op list" where
  "write_locks c = [Lock (Writing, c), Unlock (Writing, c)]"

definition msgid_locks :: "nat \<Rightarrow> lock_op list" where
  "msgid_locks c = [Lock (Msgids, c), Unlock (Msgids, c)]"

definition send_locks :: "nat \<Rightarrow> lock_op list" where
  "send_locks c = [Lock (Senders, c)] @ msgid_locks c @ write_locks c
     @ [Unlock (Senders, c), Lock (Senders, c)] @ msgid_locks c @ [Unlock (Senders, c)]"

definition reply_locks :: "nat \<Rightarrow> lock_op list" where
  "reply_locks c = [Lock (Requests, c), Lock (Senders, c)] @ write_locks c
     @ [Unlock (Senders, c), Unlock (Requests, c)]"

text \<open>\<^verbatim>\<open>process_notification\<close> on a reply, and on a request; the listener is the node_sync.\<close>

definition reply_arrives_locks :: "nat \<Rightarrow> lock_op list" where
  "reply_arrives_locks c = [Lock (Senders, c), Unlock (Senders, c)]"

definition queue_locks :: "nat \<Rightarrow> lock_op list" where
  "queue_locks c = [Lock (Queue, c), Unlock (Queue, c)]"

definition request_arrives_locks :: "bool \<Rightarrow> nat \<Rightarrow> lock_op list" where
  "request_arrives_locks asks_nid c =
     [Lock (Requests, c)] @ (if asks_nid then reply_locks c else queue_locks c) @ [Unlock (Requests, c)]"

text \<open>
  The table: one access (\<^verbatim>\<open>get_node\<close>, \<^verbatim>\<open>get_prop\<close>, \<^verbatim>\<open>do_track(n, nid)\<close>, \<^verbatim>\<open>get_nid\<close> of a known node), and
  \<^verbatim>\<open>get_nid\<close> of a node that gets its id now, from the counter or from the peer.
\<close>

definition table_locks :: "nat \<Rightarrow> lock_op list" where
  "table_locks c = [Lock (Tracked, c), Unlock (Tracked, c)]"

definition new_nid_locks :: "bool \<Rightarrow> nat \<Rightarrow> lock_op list" where
  "new_nid_locks server c =
     [Lock (Tracked, c)] @ (if server then [] else send_locks c) @ table_locks c @ [Unlock (Tracked, c)]"

text \<open>
  \<^verbatim>\<open>serializer_machine\<close>: \<^verbatim>\<open>serialize(c)\<close> keeps its mutex while it calls the virtual \<^verbatim>\<open>get_value\<close> of the
  property, whose locks are \<open>refresh\<close>; \<^verbatim>\<open>serialize(c, v)\<close> is given the value; \<^verbatim>\<open>deserialize\<close> unlocks the mutex before
  it stores.
\<close>

definition serialize_locks :: "lock_op list \<Rightarrow> nat \<Rightarrow> lock_op list" where
  "serialize_locks refresh c = [Lock (Serializers, c)] @ refresh @ [Unlock (Serializers, c)]"

definition deserialize_locks :: "nat \<Rightarrow> lock_op list" where
  "deserialize_locks c = [Lock (Serializers, c), Unlock (Serializers, c)]"

text \<open>
  The callback \<^verbatim>\<open>updated\<close> of the tree on connection \<open>d\<close>. For a property of the application reading the value locks
  nothing; for a proxy whose connection \<open>c\<close> is storing into it, \<^verbatim>\<open>update_prop\<close> finds the flag of the update
  in progress and returns.
\<close>

definition updated_locks :: "lock_op list \<Rightarrow> nat \<Rightarrow> lock_op list" where
  "updated_locks refresh d = table_locks d @ serialize_locks refresh d @ write_locks d"

definition flag_locks :: "nat \<Rightarrow> lock_op list" where
  "flag_locks c = [Lock (Updating, c), Unlock (Updating, c)]"

text \<open>
  Calls of the application on proxies. The value that \<^verbatim>\<open>update_prop\<close> gets is stored, and the tree calls
  back the connections \<open>ds\<close> that listen to the proxy, while the table is locked.
\<close>

definition fetch_node_locks :: "nat \<Rightarrow> lock_op list" where
  "fetch_node_locks c = [Lock (Tracked, c)] @ send_locks c @ table_locks c @ [Unlock (Tracked, c)]"

definition update_prop_locks :: "nat list \<Rightarrow> nat \<Rightarrow> lock_op list" where
  "update_prop_locks ds c = flag_locks c @ [Lock (Tracked, c)] @ send_locks c
     @ [Lock (Updating, c)] @ deserialize_locks c @ concat (map (updated_locks (flag_locks c)) ds)
     @ [Unlock (Updating, c), Unlock (Tracked, c)]"

definition request_prop_set_value_locks :: "nat \<Rightarrow> lock_op list" where
  "request_prop_set_value_locks c = serialize_locks [] c @ write_locks c"

text \<open>
  \<^verbatim>\<open>set_value\<close> of a proxy by the application: the base class calls back the connections \<open>ds\<close> that listen to
  it, each of which reads the proxy again; then the new value is sent.
\<close>

definition set_value_locks :: "nat list \<Rightarrow> nat \<Rightarrow> lock_op list" where
  "set_value_locks ds c =
     concat (map (updated_locks (update_prop_locks ds c)) ds) @ request_prop_set_value_locks c"

definition attach_locks :: "bool \<Rightarrow> nat \<Rightarrow> lock_op list" where
  "attach_locks server c =
     [Lock (Tracked, c)] @ new_nid_locks server c @ write_locks c @ [Unlock (Tracked, c)]"

text \<open>
  The callback \<^verbatim>\<open>child_added\<close> of a server for a child that is new to it, or that is its own proxy.
\<close>

definition child_added_locks :: "bool \<Rightarrow> nat \<Rightarrow> lock_op list" where
  "child_added_locks own d =
     table_locks d @ (if own then [] else new_nid_locks True d @ write_locks d)"

text \<open>
  Handlers: of a request that looks a node up and answers, giving the node an id or not; of a request for
  the value of a property, which is one of the application or a proxy of connection \<open>e\<close>, nobody listening to it; and of the
  packets that carry values and nodes, with the connections \<open>ds\<close> the tree calls back, in order. The
  property that \<^verbatim>\<open>cmd_prop_value\<close> sets is one of the application.
\<close>

definition cmd_at_locks :: "bool \<Rightarrow> nat \<Rightarrow> lock_op list" where
  "cmd_at_locks new c = table_locks c @ (if new then new_nid_locks True c else table_locks c) @ reply_locks c"

definition cmd_ls_locks :: "nat \<Rightarrow> lock_op list" where
  "cmd_ls_locks c = table_locks c @ reply_locks c"

definition cmd_get_prop_locks :: "nat option \<Rightarrow> nat \<Rightarrow> lock_op list" where
  "cmd_get_prop_locks e c = table_locks c
     @ serialize_locks (case e of None \<Rightarrow> [] | Some e \<Rightarrow> update_prop_locks [] e) c @ reply_locks c"

definition process_prop_value_locks :: "nat list \<Rightarrow> nat \<Rightarrow> lock_op list" where
  "process_prop_value_locks ds c = table_locks c @ [Lock (Updating, c)] @ deserialize_locks c
     @ concat (map (updated_locks (flag_locks c)) ds) @ [Unlock (Updating, c)]"

definition cmd_prop_value_locks :: "nat list \<Rightarrow> nat \<Rightarrow> lock_op list" where
  "cmd_prop_value_locks ds c = [Lock (Tracked, c), Lock (Updating, c)] @ deserialize_locks c
     @ concat (map (updated_locks []) ds) @ [Unlock (Updating, c), Unlock (Tracked, c)]"

definition cmd_attach_locks :: "nat list \<Rightarrow> nat \<Rightarrow> lock_op list" where
  "cmd_attach_locks ds c = [Lock (Tracked, c)] @ table_locks c
     @ concat (map (\<lambda>d. child_added_locks (d = c) d) ds) @ write_locks c @ [Unlock (Tracked, c)]"

definition cmd_child_added_locks :: "nat list \<Rightarrow> nat \<Rightarrow> lock_op list" where
  "cmd_child_added_locks ds c = table_locks c @ table_locks c @ table_locks c @ write_locks c
     @ concat (map (child_added_locks False) ds)"

text \<open>\<^verbatim>\<open>cleanup_children\<close>, which unlocks the table for the deletion of each of \<open>n\<close> proxies.\<close>

definition delete_locks :: "nat \<Rightarrow> lock_op list" where
  "delete_locks c = [Unlock (Tracked, c)] @ table_locks c @ [Lock (Tracked, c)]"

definition cleanup_locks :: "nat \<Rightarrow> nat \<Rightarrow> lock_op list" where
  "cleanup_locks n c =
     [Lock (Tracked, c)] @ concat (map delete_locks (replicate n c)) @ [Unlock (Tracked, c)]"

text \<open>What a thread does: a sequence of these, each on some connection.\<close>

datatype activity =
    Writes nat | Sends nat | Fetches nat | Reads "nat list" nat | Stores "nat list" nat | Attaches bool nat
  | Publishes "nat list" | Adds_child "nat list"
  | Answers_at bool nat | Answers_ls nat | Answers_get "nat option" nat
  | Takes_value "nat list" nat | Sets_value "nat list" nat | Takes_node "nat list" nat
  | Takes_child "nat list" nat | Cleans_up nat nat
  | Gets_reply nat | Gets_request bool nat | Gets_packet nat

fun activity_locks :: "activity \<Rightarrow> lock_op list" where
  "activity_locks (Writes c) = write_locks c"
| "activity_locks (Sends c) = send_locks c"
| "activity_locks (Fetches c) = fetch_node_locks c"
| "activity_locks (Reads ds c) = update_prop_locks ds c"
| "activity_locks (Stores ds c) = set_value_locks ds c"
| "activity_locks (Attaches server c) = attach_locks server c"
| "activity_locks (Publishes ds) = concat (map (updated_locks []) ds)"
| "activity_locks (Adds_child ds) = concat (map (child_added_locks False) ds)"
| "activity_locks (Answers_at new c) = cmd_at_locks new c"
| "activity_locks (Answers_ls c) = cmd_ls_locks c"
| "activity_locks (Answers_get e c) = cmd_get_prop_locks e c"
| "activity_locks (Takes_value ds c) = process_prop_value_locks ds c"
| "activity_locks (Sets_value ds c) = cmd_prop_value_locks ds c"
| "activity_locks (Takes_node ds c) = cmd_attach_locks ds c"
| "activity_locks (Takes_child ds c) = cmd_child_added_locks ds c"
| "activity_locks (Cleans_up n c) = cleanup_locks n c"
| "activity_locks (Gets_packet c) = queue_locks c"
| "activity_locks (Gets_reply c) = reply_arrives_locks c"
| "activity_locks (Gets_request asks_nid c) = request_arrives_locks asks_nid c"

definition lockers_start :: "activity list list \<Rightarrow> locker list" where
  "lockers_start as = map (\<lambda>a. ([], concat (map activity_locks a))) as"


section \<open>The order\<close>








section \<open>The invariant\<close>













section \<open>Threads that block each other\<close>

text \<open>One thread running on its own, while the others hold nothing it locks.\<close>

fun held_after :: "mutex list \<Rightarrow> lock_op list \<Rightarrow> mutex list option" where
  "held_after h [] = Some h"
| "held_after h (Lock m # ops) =
     (if m \<in> set h \<longrightarrow> recursive_mutex m then held_after (m # h) ops else None)"
| "held_after h (Unlock m # ops) = (if m \<in> set h then held_after (remove1 m h) ops else None)"

lemma run_alone:
  assumes "held_after h ops = Some h'" and "i < length ts" and "ts ! i = (h, ops @ r)"
    and "\<forall>j < length ts. j \<noteq> i \<longrightarrow> (\<forall>m \<in> set (fst (ts ! j)). Lock m \<notin> set ops)"
  shows "mutex_step\<^sup>*\<^sup>* ts (ts[i := (h', r)])"
  using assms
proof (induction h ops arbitrary: ts rule: held_after.induct)
  case (1 h)
  then have "ts[i := (h', r)] = ts" by (metis append_Nil held_after.simps(1) list_update_id option.inject)
  then show ?case by simp
next
  case (2 h m ops)
  then have ok: "m \<in> set h \<longrightarrow> recursive_mutex m" by (auto split: if_splits)
  let ?ts = "ts[i := (m # h, ops @ r)]"
  have "mutex_step ts ?ts" using 2 ok by (intro mutex_step.acquire) auto
  moreover have "mutex_step\<^sup>*\<^sup>* ?ts (?ts[i := (h', r)])" using 2 ok by (intro "2.IH") auto
  ultimately show ?case by simp
next
  case (3 h m ops)
  then have ok: "m \<in> set h" by (auto split: if_splits)
  let ?ts = "ts[i := (remove1 m h, ops @ r)]"
  have "mutex_step ts ?ts" using 3 ok by (intro mutex_step.release) auto
  moreover have "mutex_step\<^sup>*\<^sup>* ?ts (?ts[i := (h', r)])" using 3 ok by (intro "3.IH") auto
  ultimately show ?case by simp
qed

definition deadlocked :: "locker list \<Rightarrow> bool" where
  "deadlocked ts \<longleftrightarrow> \<not> finished ts \<and> \<not> (\<exists>ts'. mutex_step ts ts')"

lemma cross_deadlocked:
  assumes "m1 \<in> set h2" and "m2 \<in> set h1"
  shows "deadlocked [(h1, Lock m1 # r1), (h2, Lock m2 # r2)]"
proof -
  have "\<not> mutex_step [(h1, Lock m1 # r1), (h2, Lock m2 # r2)] ts'" for ts'
  proof
    assume "mutex_step [(h1, Lock m1 # r1), (h2, Lock m2 # r2)] ts'"
    then show False using assms by cases (auto simp: less_Suc_eq)
  qed
  then show ?thesis by (simp add: deadlocked_def)
qed

text \<open>Each runs up to the mutex that the other one then has.\<close>

lemma cross_reached:
  assumes "held_after [] a1 = Some h1" and "held_after [] a2 = Some h2"
    and "\<forall>m \<in> set h1. Lock m \<notin> set a2" and "m1 \<in> set h2" and "m2 \<in> set h1"
  shows "\<exists>ts. mutex_step\<^sup>*\<^sup>* [([], a1 @ Lock m1 # r1), ([], a2 @ Lock m2 # r2)] ts \<and> deadlocked ts"
proof -
  let ?ts = "[(h1, Lock m1 # r1), ([], a2 @ Lock m2 # r2)]"
  have one: "mutex_step\<^sup>*\<^sup>* [([], a1 @ Lock m1 # r1), ([], a2 @ Lock m2 # r2)] ?ts"
    using run_alone [OF assms(1), of 0 "[([], a1 @ Lock m1 # r1), ([], a2 @ Lock m2 # r2)]"] by (simp add: less_Suc_eq)
  have two: "mutex_step\<^sup>*\<^sup>* ?ts [(h1, Lock m1 # r1), (h2, Lock m2 # r2)]"
    using run_alone [OF assms(2), of 1 ?ts] assms(3) by (simp add: less_Suc_eq)
  show ?thesis
    by (intro exI conjI, rule rtranclp_trans [OF one two], rule cross_deadlocked [OF assms(4,5)])
qed

section \<open>Properties\<close>



text \<open>
  C26: two connections can stop each other for good. When both listen to a node or a property, and
  both peers attach a node to it or set it at the same time, each handler keeps its own table locked
  while the tree calls back the other connection, which waits for its table. Neither thread
  ever goes on.
\<close>

theorem crossing_callbacks_deadlock:
  assumes "c \<noteq> d"
  shows "(\<exists>ts. mutex_step\<^sup>*\<^sup>* (lockers_start [[Sets_value [d] c], [Sets_value [c] d]]) ts \<and> deadlocked ts)
    \<and> (\<exists>ts. mutex_step\<^sup>*\<^sup>* (lockers_start [[Takes_node [d] c], [Takes_node [c] d]]) ts \<and> deadlocked ts)"
proof
  show "\<exists>ts. mutex_step\<^sup>*\<^sup>* (lockers_start [[Sets_value [d] c], [Sets_value [c] d]]) ts \<and> deadlocked ts"
    using cross_reached [of "[Lock (Tracked, c), Lock (Updating, c)] @ deserialize_locks c" "[(Updating, c), (Tracked, c)]"
        "[Lock (Tracked, d), Lock (Updating, d)] @ deserialize_locks d" "[(Updating, d), (Tracked, d)]"
        "(Tracked, d)" "(Tracked, c)"] assms
    by (simp add: lockers_start_def cmd_prop_value_locks_def deserialize_locks_def updated_locks_def table_locks_def)
  show "\<exists>ts. mutex_step\<^sup>*\<^sup>* (lockers_start [[Takes_node [d] c], [Takes_node [c] d]]) ts \<and> deadlocked ts"
    using cross_reached [of "[Lock (Tracked, c), Lock (Tracked, c), Unlock (Tracked, c)]" "[(Tracked, c)]"
        "[Lock (Tracked, d), Lock (Tracked, d), Unlock (Tracked, d)]" "[(Tracked, d)]" "(Tracked, d)" "(Tracked, c)"] assms
    by (simp add: lockers_start_def cmd_attach_locks_def child_added_locks_def table_locks_def recursive_mutex_def)
qed

theorem crossing_callbacks_deadlock_witness:
  "\<exists>ts. mutex_step\<^sup>*\<^sup>* (lockers_start [[Sets_value [2] 1], [Sets_value [1] 2]]) ts \<and> deadlocked ts"
  using crossing_callbacks_deadlock [of 1 2] by simp

text \<open>
  One connection can do it alone: a read of a property locks the table before the flag that tells of
  updates in progress, a published value that the node_sync itself listens to locks them the other way
  round.
\<close>

theorem read_and_publish_deadlock:
  "\<exists>ts. mutex_step\<^sup>*\<^sup>* (lockers_start [[Reads [] c], [Takes_value [c] c]]) ts \<and> deadlocked ts"
proof -
  let ?r = "[Lock (Tracked, c)] @ send_locks c"
  obtain u where u: "activity_locks (Reads [] c) = flag_locks c @ ?r @ Lock (Updating, c) # u"
    by (simp add: update_prop_locks_def)
  let ?p = "table_locks c @ [Lock (Updating, c)] @ deserialize_locks c"
  obtain v where v: "activity_locks (Takes_value [c] c) = ?p @ Lock (Tracked, c) # v"
    by (simp add: process_prop_value_locks_def updated_locks_def table_locks_def)
  let ?u = "Lock (Updating, c) # u" and ?v = "Lock (Tracked, c) # v"
  let ?ts0 = "[([], flag_locks c @ ?r @ ?u), ([], ?p @ ?v)]"
  let ?ts1 = "[([], ?r @ ?u), ([], ?p @ ?v)]"
  let ?ts2 = "[([], ?r @ ?u), ([(Updating, c)], ?v)]"
  let ?ts3 = "[([(Tracked, c)], ?u), ([(Updating, c)], ?v)]"
  have start: "lockers_start [[Reads [] c], [Takes_value [c] c]] = ?ts0"
    using u v by (simp add: lockers_start_def del: activity_locks.simps)
  have s1: "mutex_step\<^sup>*\<^sup>* ?ts0 ?ts1"
    using run_alone [of "[]" "flag_locks c" "[]" 0 ?ts0] by (simp add: less_Suc_eq flag_locks_def)
  have s2: "mutex_step\<^sup>*\<^sup>* ?ts1 ?ts2"
    using run_alone [of "[]" ?p "[(Updating, c)]" 1 ?ts1]
    by (simp add: less_Suc_eq table_locks_def deserialize_locks_def)
  have s3: "mutex_step\<^sup>*\<^sup>* ?ts2 ?ts3"
    using run_alone [of "[]" ?r "[(Tracked, c)]" 0 ?ts2]
    by (simp add: less_Suc_eq send_locks_def msgid_locks_def write_locks_def recursive_mutex_def)
  have dead: "deadlocked ?ts3" by (rule cross_deadlocked) simp_all
  show ?thesis
    unfolding start by (intro exI conjI, rule rtranclp_trans [OF rtranclp_trans [OF s1 s2] s3], rule dead)
qed

text \<open>
  So can a peer that asks for the value of a proxy of its own connection: the handler keeps the serializers
  locked and reads the proxy, which locks the table; a read by the application keeps the table locked and looks a serializer up.
\<close>

theorem asked_proxy_deadlock:
  "\<exists>ts. mutex_step\<^sup>*\<^sup>* (lockers_start [[Answers_get (Some c) c], [Reads [] c]]) ts \<and> deadlocked ts"
proof -
  let ?a = "table_locks c @ [Lock (Serializers, c)] @ flag_locks c"
  let ?b = "flag_locks c @ [Lock (Tracked, c)] @ send_locks c @ [Lock (Updating, c)]"
  obtain u where u: "activity_locks (Answers_get (Some c) c) = ?a @ Lock (Tracked, c) # u"
    by (simp add: cmd_get_prop_locks_def serialize_locks_def update_prop_locks_def)
  obtain v where v: "activity_locks (Reads [] c) = ?b @ Lock (Serializers, c) # v"
    by (simp add: update_prop_locks_def deserialize_locks_def)
  have start: "lockers_start [[Answers_get (Some c) c], [Reads [] c]]
      = [([], ?a @ Lock (Tracked, c) # u), ([], ?b @ Lock (Serializers, c) # v)]"
    using u v by (simp add: lockers_start_def del: activity_locks.simps)
  show ?thesis
    unfolding start
    using cross_reached [of ?a "[(Serializers, c)]" ?b "[(Updating, c), (Tracked, c)]" "(Tracked, c)" "(Serializers, c)" u v]
    by (simp add: table_locks_def flag_locks_def send_locks_def msgid_locks_def write_locks_def recursive_mutex_def)
qed

end
