(* ===== verification/Spec2Isabelle.thy ===== *)
theory Spec2Isabelle
  imports Main_Program Qt_Server Qt_Reader Event_Loop Wire_Call Session_History Session_Limits Sync_Locks Nid_Race
    Server_Life Frame_Writers Lock_Order
begin

text \<open>
  A verification development for treeipc, a C++ library that shares a tree of nodes and properties
  between processes.

  \<^bold>\<open>The program.\<close> A server process has the tree. Each connection has a stack of objects at both
  ends: a byte stream (\<^verbatim>\<open>socket_client\<close> over Boost.Asio, or \<^verbatim>\<open>socket_bytestream\<close> over Qt), on it a
  \<^verbatim>\<open>request_reply_dispatcher\<close>, which is a \<^verbatim>\<open>package_codec\<close> that cuts the stream into frames and a
  \<^verbatim>\<open>package_stream_base\<close> that pairs requests with replies, and on it a \<^verbatim>\<open>node_sync\<close> (\<^verbatim>\<open>server\<close>,
  \<^verbatim>\<open>client\<close> or \<^verbatim>\<open>client_nonroot\<close>), which keeps a table of the nodes both sides know by a node id.
  What one side has as a node, the other has as a proxy, a \<^verbatim>\<open>client_node\<close>, with a \<^verbatim>\<open>property_fake\<close>
  part if the node is a property. The objects of a stack notify each other through
  \<^verbatim>\<open>one_to_one_observable\<close>. The reader thread runs from the socket to the queue of the node_sync; a
  processing thread of the node_sync takes packets from the queue and runs their handlers.

  \<^bold>\<open>The theories\<close>, in the order of the program from the bottom up, each with the files it models:

  \<^item> \<open>Ipc_Prelude\<close>: bytes, little-endian numbers, \<^verbatim>\<open>memcpy\<close> and \<^verbatim>\<open>resize\<close>, faults and their
    sequencing. \<open>Std_Map\<close>: \<^verbatim>\<open>std::map\<close> as an ordered list of pairs.
  \<^item> \<open>Ipc_Package\<close>: \<^verbatim>\<open>package_stream_base.h\<close> (class \<^verbatim>\<open>package\<close>), \<^verbatim>\<open>package.cpp\<close>. Round trips of
    values and strings, what copying does to the bytes, where reading is memory safe and where not.
  \<^item> \<open>Package_Codec\<close>: the class \<^verbatim>\<open>package_codec\<close> of \<^verbatim>\<open>package_stream.cpp\<close>. The receive loop refines a
    parser of the stream, whatever the chunks; the locale \<open>bytestream\<close> is the contract of a transport.
  \<^item> \<open>Dispatcher\<close>: the class \<^verbatim>\<open>request_reply_dispatcher\<close>. \<^verbatim>\<open>send\<close> is two critical sections; the step
    relation \<open>rr_step\<close> interleaves the calls of any number of threads with the receiver.
  \<^item> \<open>Locking_Queue\<close>: \<^verbatim>\<open>locking_queue.h\<close>, as a sequential queue (locale \<open>fifo\<close>) and as critical
    sections with a condition variable (\<open>lq_step\<close>).
  \<^item> \<open>Observable\<close>: \<^verbatim>\<open>observable.h\<close>, both pointers and both mutexes.
  \<^item> \<open>Byte_Streams\<close>: \<^verbatim>\<open>socket_client.h\<close>, \<^verbatim>\<open>socket_client.cpp\<close>, \<^verbatim>\<open>qt/socket_bytestream.cpp\<close>. Both
    streams interpret \<open>bytestream\<close>; \<open>conn_step\<close> is the asynchronous life of a connection. \<open>Qt_Reader\<close>:
    the reading side of the Qt stream, with the codec above it. \<open>Event_Loop\<close>: \<^verbatim>\<open>io_service.h\<close>,
    \<^verbatim>\<open>io_service.cpp\<close>, the thread that runs the handlers of Asio. \<open>Frame_Writers\<close>: several threads
    in the codec's \<^verbatim>\<open>write\<close>, whose frames stay whole.
  \<^item> \<open>Serializer\<close>: \<^verbatim>\<open>property_serializer.h\<close>. The locale \<open>value_codec\<close> is what the packets with
    values rely on.
  \<^item> \<open>Tree_Api\<close>: the interface of the \<^verbatim>\<open>tree\<close> library. \<open>Sample_Tree\<close>: an instance, for witnesses.
  \<^item> \<open>Sync_State\<close>, \<open>Sync_Client\<close>, \<open>Sync_Server\<close>: \<^verbatim>\<open>node_sync.h\<close>, \<^verbatim>\<open>node_sync.cpp\<close>, the proxies
    (\<^verbatim>\<open>client_node.cpp\<close>, \<^verbatim>\<open>client_node_value.h\<close>, \<^verbatim>\<open>property_fake.cpp\<close>, \<^verbatim>\<open>property_value_fake.h\<close>), their
    factories (\<^verbatim>\<open>proxy_node_generator.cpp\<close>, \<^verbatim>\<open>proxy_node_factory.h\<close>), and \<^verbatim>\<open>server.cpp\<close>, \<^verbatim>\<open>client.cpp\<close>,
    \<^verbatim>\<open>client_nonroot.cpp\<close>: the state with its table, what a node_sync asks and reports, and its
    handlers. A definition has the name of the member function it models.
  \<^item> \<open>Sync_Invariant\<close>: the invariant of the table and that every handler keeps it. The locale
    \<open>sync_relation\<close> proves once, for every handler, that it preserves a relation closed under the
    elementary steps; it is interpreted with a frame condition, with the invariant, and in \<open>Server_Life\<close>.
  \<^item> \<open>Sync_Queue\<close>: the two threads. \<open>Sync_Cleanup\<close>: the clean-up when the stream closes, which uses a
    proxy after it has deleted it. \<open>Server_Life\<close>: the whole life of a server's node_sync as a step
    relation, up to the packets that are handled after the clean-up, when the peer has attached no
    node: ids never change their meaning, and nothing comes back.
  \<^item> \<open>Sync_Locks\<close>: \<^verbatim>\<open>tracked_mutex\<close> at both ends of a connection while calls wait for replies: calls
    from both can block each other for good. \<open>Nid_Race\<close>: the counter of node ids, which two threads
    of a server advance, with its load and store apart. \<open>Lock_Order\<close>: the order in which the threads
    of several connections lock the mutexes of their stacks, the conditions on callbacks and requests
    under which they cannot deadlock, and how they do otherwise.
  \<^item> \<open>Session\<close>, \<open>Session_Tree\<close>, \<open>Session_Limits\<close>: two node_syncs together: listing, fetching,
    reading, setting and publishing across a connection, nodes added on one side and mirrored on the
    other, and where the protocol loses something. \<open>Session_History\<close>: whole histories of requests,
    published values and packets: every proxy keeps standing for the same node, and values converge.
  \<^item> \<open>Endpoint\<close>, \<open>Wire_Call\<close>: the layers composed, from bytes to the queue and back, and a blocking
    call over two sockets; this justifies the answers that \<open>Session\<close> gives to requests.
  \<^item> \<open>Conn_Server\<close>: \<^verbatim>\<open>acceptor.h\<close>, \<^verbatim>\<open>conn_server.h\<close>, \<^verbatim>\<open>object_status.h\<close> and the notifications of
    \<^verbatim>\<open>reliable_bytestream_base.h\<close>: accepting, also when it fails, several connections in one process,
    shutting down. \<open>Qt_Server\<close>: the same over Qt, \<^verbatim>\<open>qt/acceptor.h\<close> and \<^verbatim>\<open>qt/conn_server.h\<close>.
  \<^item> \<open>Main_Program\<close>: \<^verbatim>\<open>main.cpp\<close>, from its start to a client that reads the shared property.

  \<^bold>\<open>Conventions.\<close> A computation that may fault returns \<^typ>\<open>fault + 'a\<close>; a fault is an access outside
  a vector, through a null or dangling pointer (also when only the name is printed), of an unset variable,
  a lock of a mutex the thread holds, or an exception nothing catches. Integers have the width of the code: an id is a 64-bit word, a length 32, a message id 16; a
  position in a packet is an \<^verbatim>\<open>int\<close> that is sign-extended to \<^verbatim>\<open>size_t\<close>. A pointer that may be null is
  an option. Calls of a node_sync on its packet stream are recorded in \<open>dev_calls\<close>, and \<open>answers\<close> has
  what its blocking calls will return. Calls into the tree return the notifications they cause as a
  list of events, which the node_sync handles in order.

  \<^bold>\<open>Fuel.\<close> \<open>client_get\<close> has one unit for each level of a path; one more than the length of the path
  is enough (\<open>client_get_terminates\<close>). \<open>package_processing_routine\<close> has one for each packet, and one
  more than the queue is long is enough (\<open>processing_in_order\<close>). \<open>cleanup_children\<close> has one for each
  entry of the table; \<open>stream_closed\<close> gives it one more than there are, which is enough
  (\<open>cleanup_outcome\<close>). The loops of the codec and the parser terminate, with a measure.

  \<^bold>\<open>Parameters and assumptions.\<close> The tree library is a git submodule that the repository does not
  contain: it is the record \<open>tree_api\<close>, an argument \<open>T\<close>, and a property that relies on what the tree
  does has that as a named hypothesis, shown to hold for the sample tree. \<^verbatim>\<open>QString\<close> and \<^verbatim>\<open>QByteArray\<close>
  are the record \<open>qt_api\<close>; the event loop of Asio is \<open>asio_api\<close>; the class \<^verbatim>\<open>package_stream\<close>, which the Qt
  server uses and the repository no longer has, is \<open>package_stream_api\<close>; what is assumed of it is what the
  class that took its place does, and only the lemmas of \<open>Qt_Server\<close> rest on it. Sockets of Boost.Asio and Qt are the environment of the step relations. The
  machine is little-endian, \<^verbatim>\<open>int\<close> has 32 bits and \<^verbatim>\<open>size_t\<close> 64, and \<^verbatim>\<open>typeid(T).name()\<close> is that of the
  Itanium ABI. Proxies are process-wide; a call that a proxy makes on a node_sync other than the one
  modelled is recorded as \<open>Foreign\<close>.

  \<^bold>\<open>Not modelled.\<close> The tree library itself, of which the repository has only the name, and so the
  destruction of a tree, as of the local \<^verbatim>\<open>root\<close> at the end of \<^verbatim>\<open>main\<close>, whose proxies would then call
  a node_sync that is gone. A handler that runs while its node_sync is destroyed.
  \<^verbatim>\<open>protocol.proto\<close> declares a message that nothing uses. Printing is left out, except where it reads
  a pointer or inserts into the table. The handlers of a node_sync are atomic in the model, but for what
  \<open>Sync_Locks\<close>, \<open>Lock_Order\<close> and \<open>Nid_Race\<close> take apart: the mutexes, and the counter of ids.
\<close>

end
